(* ===== verification/Prelude_LLNCP.thy ===== *)
theory Prelude_LLNCP
  imports Main "HOL-Library.Word"
begin

text \<open>
  What every component of the development shares: the names of the C types, the constants of
  \<^verbatim>\<open>src/constants.h\<close>, the outcome of running a piece of C code and its sequencing, C buffers
  and C strings, and the generic list lemmas the component theories use.

  A byte is an Isabelle \<open>char\<close> (eight bits, as C's), a C buffer is the list of the bytes of the
  array, and a pointer into it is the list together with an offset.  Reads and writes outside the
  array are the outcome \<open>Ub\<close>: nothing is claimed of the program after one.
\<close>

section \<open>Types\<close>

type_synonym byte = char
type_synonym u8 = "8 word"
type_synonym u64 = "64 word"
type_synonym fd = int

abbreviation NUL :: byte where
  "NUL \<equiv> CHR 0x00"

section \<open>Constants\<close>

definition EXIT_SUCCESS :: int where "EXIT_SUCCESS = 0"
definition EXIT_FAILURE :: int where "EXIT_FAILURE = 1"

definition SOCKET_CLOSED :: int where "SOCKET_CLOSED = 2"
definition PROTOCOL_ERROR :: int where "PROTOCOL_ERROR = 3"
definition FILE_ERROR :: int where "FILE_ERROR = 4"
definition RECEIVED_BAD_ACK :: int where "RECEIVED_BAD_ACK = 5"
definition BAD_AUTH :: int where "BAD_AUTH = 7"
definition FORCED_SOCKET_CLOSED :: int where "FORCED_SOCKET_CLOSED = 8"

definition ACK_ERROR :: int where "ACK_ERROR = 0"
definition ACK_OK :: int where "ACK_OK = 1"
definition AUTH_REQUEST :: int where "AUTH_REQUEST = 2"

definition MK_DIRECTORY :: int where "MK_DIRECTORY = 1"
definition MK_FILE :: int where "MK_FILE = 2"

definition BUFFERSIZE :: nat where "BUFFERSIZE = 512000"
definition MESSAGE_BUFFERSIZE :: nat where "MESSAGE_BUFFERSIZE = 255"
definition MIN_FILE_ATTRS_LEN :: nat where "MIN_FILE_ATTRS_LEN = 6"
definition MIN_DEST_FILE_ATTRS_LEN :: nat where "MIN_DEST_FILE_ATTRS_LEN = 10"

text \<open>\<^verbatim>\<open>sizeof(long int)\<close> and \<^verbatim>\<open>sizeof(unsigned long long)\<close> are 8 (LP64), \<open>PATH_MAX\<close> is
  \<^verbatim>\<open>limits.h\<close>'s 4096, and the error numbers are those of Linux and Solaris.\<close>

definition PATH_MAX :: nat where "PATH_MAX = 4096"
definition MAX_FILE_ATTRS_LEN :: nat where
  "MAX_FILE_ATTRS_LEN = 1 + 1 + 8 + 1 + 8 + 1"
definition MAX_HEADER_LEN :: nat where
  "MAX_HEADER_LEN = 1 + 1 + 1 + 1 + 8 + 1 + 8 + 1 + 8 + 1"

definition EWOULDBLOCK :: int where "EWOULDBLOCK = 11"
definition EPIPE :: int where "EPIPE = 32"

lemmas return_codes = EXIT_SUCCESS_def EXIT_FAILURE_def SOCKET_CLOSED_def PROTOCOL_ERROR_def
  FILE_ERROR_def RECEIVED_BAD_ACK_def BAD_AUTH_def FORCED_SOCKET_CLOSED_def

lemmas message_flags = ACK_ERROR_def ACK_OK_def AUTH_REQUEST_def MK_DIRECTORY_def MK_FILE_def

lemmas sizes = BUFFERSIZE_def MESSAGE_BUFFERSIZE_def MIN_FILE_ATTRS_LEN_def
  MIN_DEST_FILE_ATTRS_LEN_def PATH_MAX_def MAX_FILE_ATTRS_LEN_def MAX_HEADER_LEN_def

section \<open>Outcomes and sequencing\<close>

text \<open>
  A piece of C code run in a state either returns a value, raises an exception with
  \<^verbatim>\<open>longjmp\<close> (\<open>Throw\<close>, the daemon's \<^verbatim>\<open>THROW\<close>), ends its thread or process (\<open>Exit\<close>), is killed
  by a signal, waits for ever for an event that never comes (\<open>Block\<close>), or runs into undefined
  behaviour.  Every outcome but \<open>Ret\<close> ends the code that called it.
\<close>

datatype 'a result = Ret 'a | Throw int | Exit int | Killed | Block | Ub

type_synonym ('s, 'a) prog = "'s \<Rightarrow> 'a result \<times> 's"

definition retM :: "'a \<Rightarrow> ('s, 'a) prog" where
  "retM a s = (Ret a, s)"

definition failM :: "'a result \<Rightarrow> ('s, 'a) prog" where
  "failM r s = (r, s)"

definition bindM :: "('s, 'a) prog \<Rightarrow> ('a \<Rightarrow> ('s, 'b) prog) \<Rightarrow> ('s, 'b) prog" where
  "bindM m f s =
     (case m s of
        (Ret a, s') \<Rightarrow> f a s'
      | (Throw e, s') \<Rightarrow> (Throw e, s')
      | (Exit e, s') \<Rightarrow> (Exit e, s')
      | (Killed, s') \<Rightarrow> (Killed, s')
      | (Block, s') \<Rightarrow> (Block, s')
      | (Ub, s') \<Rightarrow> (Ub, s'))"

text \<open>An outcome that ends the calling code too, whatever that code returns.\<close>

fun recast :: "'a result \<Rightarrow> 'b result" where
  "recast (Throw e) = Throw e"
| "recast (Exit c) = Exit c"
| "recast Killed = Killed"
| "recast Block = Block"
| "recast _ = Ub"

definition modifyM :: "('s \<Rightarrow> 's) \<Rightarrow> ('s, unit) prog" where
  "modifyM f s = (Ret (), f s)"

definition getM :: "('s \<Rightarrow> 'a) \<Rightarrow> ('s, 'a) prog" where
  "getM f s = (Ret (f s), s)"

definition whenM :: "bool \<Rightarrow> ('s, unit) prog \<Rightarrow> ('s, unit) prog" where
  "whenM b m = (if b then m else retM ())"

text \<open>Undefined behaviour where an access leaves its array.\<close>

definition orUb :: "'a option \<Rightarrow> ('s, 'a) prog" where
  "orUb x s = (case x of None \<Rightarrow> (Ub, s) | Some a \<Rightarrow> (Ret a, s))"

named_theorems exec "rules that run a piece of code symbolically"

lemma retM_run [simp, exec]: "retM a s = (Ret a, s)"
  by (simp add: retM_def)

lemma failM_run [simp, exec]: "failM r s = (r, s)"
  by (simp add: failM_def)

lemma modifyM_run [simp, exec]: "modifyM f s = (Ret (), f s)"
  by (simp add: modifyM_def)

lemma getM_run [simp, exec]: "getM f s = (Ret (f s), s)"
  by (simp add: getM_def)

lemma whenM_run [simp, exec]: "whenM True m = m" "whenM False m = retM ()"
  by (simp_all add: whenM_def)

lemma orUb_run [simp, exec]: "orUb (Some a) s = (Ret a, s)" "orUb None s = (Ub, s)"
  by (simp_all add: orUb_def)

lemma bindM_Ret [exec]: "m s = (Ret a, s') \<Longrightarrow> bindM m f s = f a s'"
  by (simp add: bindM_def)

lemma bindM_stop [exec]:
  "m s = (Throw e, s') \<Longrightarrow> bindM m f s = (Throw e, s')"
  "m s = (Exit c, s') \<Longrightarrow> bindM m f s = (Exit c, s')"
  "m s = (Killed, s') \<Longrightarrow> bindM m f s = (Killed, s')"
  "m s = (Block, s') \<Longrightarrow> bindM m f s = (Block, s')"
  "m s = (Ub, s') \<Longrightarrow> bindM m f s = (Ub, s')"
  by (simp_all add: bindM_def)

lemma bindM_run [simp]:
  "bindM (retM a) f = f a"
  "bindM (getM g) f s = f (g s) s"
  "bindM (modifyM h) k s = k () (h s)"
  "bindM (orUb (Some a)) f = f a"
  "bindM (orUb None) f s = (Ub, s)"
  "bindM (failM (Throw e)) f s = (Throw e, s)"
  "bindM (failM (Exit c)) f s = (Exit c, s)"
  "bindM (failM Ub) f s = (Ub, s)"
  by (simp_all add: bindM_def fun_eq_iff)

lemma bindM_assoc: "bindM (bindM m f) g = bindM m (\<lambda>a. bindM (f a) g)"
  by (auto simp: bindM_def fun_eq_iff split: prod.splits result.splits)

lemma bindM_eq_Ret:
  "bindM m f s = (Ret b, t) \<longleftrightarrow> (\<exists>a s'. m s = (Ret a, s') \<and> f a s' = (Ret b, t))"
  by (auto simp: bindM_def split: prod.splits result.splits)

lemma bindM_cases:
  assumes "bindM m f s = (r, t)"
  obtains (ret) a s' where "m s = (Ret a, s')" "f a s' = (r, t)"
  | (stop) r' where "m s = (r', t)" "\<forall>a. r' \<noteq> Ret a" "\<forall>b. r \<noteq> Ret b"
  using assms by (auto simp: bindM_def split: prod.splits result.splits)

lemma bindM_outcome:
  assumes "bindM m f s = (r, t)"
  obtains (ret) a s' where "m s = (Ret a, s')" "f a s' = (r, t)"
  | (stop) r' where "m s = (r', t)" "\<And>a. r' \<noteq> Ret a" "r = recast r'"
  using assms by (auto simp: bindM_def split: prod.splits result.splits)

lemma recast_eq [simp]: "recast r = Exit e \<longleftrightarrow> r = Exit e" "recast r \<noteq> Ret a"
  by (cases r; simp)+

lemma bindM_no_ret:
  "m s = (r, t) \<Longrightarrow> (\<And>a. r \<noteq> Ret a) \<Longrightarrow> bindM m f s = (recast r, t)"
  by (cases r) (auto simp: bindM_def)

text \<open>A state predicate that every step of a sequence keeps is kept by the sequence.\<close>

definition keeps :: "('s \<Rightarrow> bool) \<Rightarrow> ('s, 'a) prog \<Rightarrow> bool" where
  "keeps P m \<longleftrightarrow> (\<forall>s. P s \<longrightarrow> P (snd (m s)))"

named_theorems keeps_intros "composition rules of keeps"

lemma keepsI: "(\<And>s. P s \<Longrightarrow> P (snd (m s))) \<Longrightarrow> keeps P m"
  by (simp add: keeps_def)

lemma keepsD: "keeps P m \<Longrightarrow> P s \<Longrightarrow> m s = (r, t) \<Longrightarrow> P t"
  by (metis keeps_def snd_conv)

lemma keeps_bindM [keeps_intros]:
  assumes "keeps P m" and "\<And>a. keeps P (f a)"
  shows "keeps P (bindM m f)"
proof (rule keepsI)
  fix s assume "P s"
  obtain r t where run: "bindM m f s = (r, t)" by fastforce
  then show "P (snd (bindM m f s))"
  proof (cases rule: bindM_cases)
    case (ret a s')
    then show ?thesis using assms \<open>P s\<close> run by (metis keepsD snd_conv)
  next
    case (stop r')
    then show ?thesis using assms \<open>P s\<close> run by (metis keepsD snd_conv)
  qed
qed

lemma keeps_basic [keeps_intros]:
  "keeps P (retM a)" "keeps P (failM r)" "keeps P (getM g)" "keeps P (orUb x)"
  by (simp_all add: keeps_def orUb_def split: option.splits)

lemma keeps_modifyM [keeps_intros]: "(\<And>s. P s \<Longrightarrow> P (h s)) \<Longrightarrow> keeps P (modifyM h)"
  by (simp add: keeps_def)

lemma keeps_if [keeps_intros]: "keeps P m \<Longrightarrow> keeps P n \<Longrightarrow> keeps P (if b then m else n)"
  by simp

lemma keeps_whenM [keeps_intros]: "keeps P m \<Longrightarrow> keeps P (whenM b m)"
  by (simp add: whenM_def keeps_basic)

lemma keeps_case_prod [keeps_intros]: "(\<And>a b. keeps P (f a b)) \<Longrightarrow> keeps P (case x of (a, b) \<Rightarrow> f a b)"
  by (cases x) simp

text \<open>What a step makes of its result may depend on what the state, or the step, promises of it.\<close>

lemma keeps_getM_bindM: "(\<And>s. P s \<Longrightarrow> keeps P (f (g s))) \<Longrightarrow> keeps P (bindM (getM g) f)"
  by (simp add: keeps_def)

definition ensures :: "('s \<Rightarrow> bool) \<Rightarrow> ('a \<Rightarrow> bool) \<Rightarrow> ('s, 'a) prog \<Rightarrow> bool" where
  "ensures P Q m \<longleftrightarrow> keeps P m \<and> (\<forall>s a t. P s \<longrightarrow> m s = (Ret a, t) \<longrightarrow> Q a)"

lemma keeps_ensures_bindM:
  assumes "ensures P Q m" and "\<And>a. Q a \<Longrightarrow> keeps P (f a)"
  shows "keeps P (bindM m f)"
proof (rule keepsI)
  fix s assume P: "P s"
  obtain r t where run: "bindM m f s = (r, t)" by fastforce
  then show "P (snd (bindM m f s))"
  proof (cases rule: bindM_cases)
    case (ret a s')
    then show ?thesis using assms P run by (metis ensures_def keepsD snd_conv)
  next
    case (stop r')
    then show ?thesis using assms(1) P run by (metis ensures_def keepsD snd_conv)
  qed
qed

lemma ensures_bindM:
  assumes "ensures P Q m" and "\<And>a. Q a \<Longrightarrow> ensures P R (f a)"
  shows "ensures P R (bindM m f)"
proof -
  have "keeps P (bindM m f)"
    by (rule keeps_ensures_bindM [OF assms(1)]) (use assms(2) in \<open>simp add: ensures_def\<close>)
  moreover have "R b" if "P s" "bindM m f s = (Ret b, t)" for s b t
    using that assms by (auto simp: ensures_def bindM_eq_Ret) (metis keepsD)
  ultimately show ?thesis by (auto simp: ensures_def)
qed

text \<open>The weaker form: it is kept wherever the code returns.\<close>

definition on_ret :: "('s \<Rightarrow> bool) \<Rightarrow> ('s, 'a) prog \<Rightarrow> bool" where
  "on_ret P m \<longleftrightarrow> (\<forall>s a t. P s \<longrightarrow> m s = (Ret a, t) \<longrightarrow> P t)"

named_theorems on_ret_intros "composition rules of on_ret"

lemma on_retI: "(\<And>s a t. P s \<Longrightarrow> m s = (Ret a, t) \<Longrightarrow> P t) \<Longrightarrow> on_ret P m"
  by (auto simp: on_ret_def)

lemma on_retD: "on_ret P m \<Longrightarrow> P s \<Longrightarrow> m s = (Ret a, t) \<Longrightarrow> P t"
  by (auto simp: on_ret_def)

lemma on_ret_bindM [on_ret_intros]:
  assumes "on_ret P m" and "\<And>a. on_ret P (f a)"
  shows "on_ret P (bindM m f)"
proof (rule on_retI)
  fix s b t assume "P s" and "bindM m f s = (Ret b, t)"
  then obtain a s' where "m s = (Ret a, s')" "f a s' = (Ret b, t)" by (auto simp: bindM_eq_Ret)
  with \<open>P s\<close> assms show "P t" by (metis on_retD)
qed

lemma on_ret_keeps: "keeps P m \<Longrightarrow> on_ret P m"
  by (auto simp: on_ret_def dest: keepsD)

lemma on_ret_basic [on_ret_intros]:
  "on_ret P (retM a)" "on_ret P (getM g)" "on_ret P (orUb x)" "on_ret P (failM Ub)"
  "on_ret P (failM (Exit e))" "on_ret P (failM (Throw e))"
  by (auto simp: on_ret_def orUb_def split: option.splits)

lemma on_ret_modifyM [on_ret_intros]: "(\<And>s. P s \<Longrightarrow> P (h s)) \<Longrightarrow> on_ret P (modifyM h)"
  by (auto simp: on_ret_def)

lemma on_ret_if [on_ret_intros]: "on_ret P m \<Longrightarrow> on_ret P n \<Longrightarrow> on_ret P (if b then m else n)"
  by simp

lemma on_ret_case_prod [on_ret_intros]: "(\<And>a b. on_ret P (f a b)) \<Longrightarrow> on_ret P (case x of (a, b) \<Rightarrow> f a b)"
  by (cases x) simp

section \<open>C buffers\<close>

definition buf_write :: "byte list \<Rightarrow> nat \<Rightarrow> byte list \<Rightarrow> byte list option" where
  "buf_write buf off bs =
     (if bs = [] then Some buf
      else if off + length bs \<le> length buf
        then Some (take off buf @ bs @ drop (off + length bs) buf)
      else None)"

definition buf_read :: "byte list \<Rightarrow> nat \<Rightarrow> nat \<Rightarrow> byte list option" where
  "buf_read buf off n =
     (if n = 0 then Some []
      else if off + n \<le> length buf then Some (take n (drop off buf)) else None)"

definition buf_get :: "byte list \<Rightarrow> nat \<Rightarrow> byte option" where
  "buf_get buf i = (if i < length buf then Some (buf ! i) else None)"

text \<open>The array after bytes were stored from an offset on.\<close>

definition patched :: "byte list \<Rightarrow> nat \<Rightarrow> byte list \<Rightarrow> byte list" where
  "patched buf off bs = take off buf @ bs @ drop (off + length bs) buf"

lemma buf_write_Some:
  "off + length bs \<le> length buf \<Longrightarrow> buf_write buf off bs = Some (patched buf off bs)"
  by (simp add: buf_write_def patched_def)

lemma buf_write_Nil [simp]: "buf_write buf off [] = Some buf"
  by (simp add: buf_write_def)

lemma buf_write_None:
  "bs \<noteq> [] \<Longrightarrow> length buf < off + length bs \<Longrightarrow> buf_write buf off bs = None"
  by (simp add: buf_write_def)

lemma buf_write_length: "buf_write buf off bs = Some buf' \<Longrightarrow> length buf' = length buf"
  by (auto simp: buf_write_def split: if_splits)

lemma buf_read_Some: "off + n \<le> length buf \<Longrightarrow> buf_read buf off n = Some (take n (drop off buf))"
  by (simp add: buf_read_def)

lemma patched_Nil [simp]: "patched buf off [] = buf"
  by (simp add: patched_def)

lemma length_patched [simp]:
  "off + length bs \<le> length buf \<Longrightarrow> length (patched buf off bs) = length buf"
  by (simp add: patched_def)

lemma patched_patched:
  "off + length xs + length ys \<le> length buf \<Longrightarrow>
     patched (patched buf off xs) (off + length xs) ys = patched buf off (xs @ ys)"
  by (simp add: patched_def ac_simps)

text \<open>Filling an array from its start, piece by piece.\<close>

lemma buf_write_next:
  "off = length xs \<Longrightarrow> length xs + length ys \<le> length buf \<Longrightarrow>
     buf_write (patched buf 0 xs) off ys = Some (patched buf 0 (xs @ ys))"
  by (subst buf_write_Some) (simp_all add: patched_patched [of 0, simplified])

lemma buf_write_next_if:
  assumes "off = length xs" and "ys \<noteq> []" and "length xs \<le> length buf"
  shows "buf_write (patched buf 0 xs) off ys =
    (if length xs + length ys \<le> length buf then Some (patched buf 0 (xs @ ys)) else None)"
proof (cases "length xs + length ys \<le> length buf")
  case True
  then show ?thesis using buf_write_next [OF assms(1) True] by simp
next
  case False
  then show ?thesis using assms by (simp add: buf_write_None)
qed

lemma drop_patched:
  "off \<le> length buf \<Longrightarrow> drop off (patched buf off bs) = bs @ drop (off + length bs) buf"
  by (simp add: patched_def)

lemma take_patched: "off \<le> length buf \<Longrightarrow> take off (patched buf off bs) = take off buf"
  by (simp add: patched_def)

lemma patched_0: "patched buf 0 bs = bs @ drop (length bs) buf"
  by (simp add: patched_def)

section \<open>C strings\<close>

text \<open>A C string in memory: the bytes before the first NUL.  \<open>None\<close> where the array ends before
  one is found, since the reader then leaves the array.\<close>

definition c_str :: "byte list \<Rightarrow> byte list option" where
  "c_str bs = (if NUL \<in> set bs then Some (takeWhile (\<lambda>c. c \<noteq> NUL) bs) else None)"

definition cs :: "string \<Rightarrow> byte list" where
  "cs s = s @ [NUL]"

lemma c_str_append [simp]: "NUL \<notin> set s \<Longrightarrow> c_str (s @ NUL # rest) = Some s"
proof -
  assume "NUL \<notin> set s"
  then have "takeWhile (\<lambda>c. c \<noteq> NUL) (s @ NUL # rest) = s"
    by (subst takeWhile_append2) auto
  then show ?thesis by (simp add: c_str_def)
qed

lemma c_str_cs [simp]: "NUL \<notin> set s \<Longrightarrow> c_str (cs s) = Some s"
  by (simp add: cs_def)

lemma c_str_no_NUL: "c_str bs = Some s \<Longrightarrow> NUL \<notin> set s"
  by (auto simp: c_str_def dest: set_takeWhileD split: if_splits)

lemma c_str_split: "c_str bs = Some s \<Longrightarrow> \<exists>rest. bs = s @ NUL # rest"
proof -
  assume s: "c_str bs = Some s"
  then obtain xs ys where "bs = xs @ NUL # ys" "NUL \<notin> set xs"
    by (auto simp: c_str_def split: if_splits dest: split_list_first)
  with s show ?thesis by auto
qed

text \<open>\<^verbatim>\<open>strcmp\<close> and \<^verbatim>\<open>strncmp\<close>, as the code uses them: is the result zero?  \<^verbatim>\<open>strncmp\<close> looks
  at no byte after the first difference, the first NUL or the \<open>n\<close>-th.\<close>

fun strncmp_eq :: "nat \<Rightarrow> byte list \<Rightarrow> byte list \<Rightarrow> bool option" where
  "strncmp_eq 0 a b = Some True"
| "strncmp_eq (Suc n) (x # a) (y # b) =
     (if x \<noteq> y then Some False else if x = NUL then Some True else strncmp_eq n a b)"
| "strncmp_eq (Suc n) a b = None"

fun strcmp_eq :: "byte list \<Rightarrow> byte list \<Rightarrow> bool option" where
  "strcmp_eq (x # a) (y # b) =
     (if x \<noteq> y then Some False else if x = NUL then Some True else strcmp_eq a b)"
| "strcmp_eq a b = None"

lemma strcmp_eq_strings:
  "NUL \<notin> set s \<Longrightarrow> NUL \<notin> set t \<Longrightarrow> strcmp_eq (s @ NUL # a) (t @ NUL # b) = Some (s = t)"
proof (induction s arbitrary: t)
  case Nil
  then show ?case by (cases t) auto
next
  case (Cons x s)
  then show ?case by (cases t) auto
qed

lemma strncmp_eq_strings:
  "NUL \<notin> set s \<Longrightarrow> NUL \<notin> set t \<Longrightarrow>
     strncmp_eq n (s @ NUL # a) (t @ NUL # b) = Some (take n s = take n t)"
proof (induction s arbitrary: n t)
  case Nil
  then show ?case by (cases n; cases t) auto
next
  case (Cons x s)
  then show ?case by (cases n; cases t) auto
qed

text \<open>\<^verbatim>\<open>strstr (haystack, needle) != NULL\<close> on strings.\<close>

fun strstr :: "byte list \<Rightarrow> byte list \<Rightarrow> bool" where
  "strstr [] needle = (needle = [])"
| "strstr (x # xs) needle = (take (length needle) (x # xs) = needle \<or> strstr xs needle)"

lemma strstr_iff: "strstr hay needle \<longleftrightarrow> (\<exists>pre post. hay = pre @ needle @ post)"
proof (induction hay)
  case Nil
  then show ?case by auto
next
  case (Cons x xs)
  have "(\<exists>pre post. x # xs = pre @ needle @ post) \<longleftrightarrow>
      (\<exists>post. x # xs = needle @ post) \<or> (\<exists>pre post. xs = pre @ needle @ post)"
    by (metis Cons_eq_append_conv)
  also have "(\<exists>post. x # xs = needle @ post) \<longleftrightarrow> take (length needle) (x # xs) = needle"
    by (metis append_eq_conv_conj)
  finally show ?case using Cons.IH by simp
qed

section \<open>Lists\<close>

lemma take_min_length [simp]: "take (min k (length bs)) bs = take k bs"
  by (simp add: min_def)

lemma take_take_drop: "take m xs @ take n (drop m xs) = take (m + n) xs"
  by (simp add: take_add)

lemma list_all_drop: "list_all P xs \<Longrightarrow> list_all P (drop k xs)"
  by (metis append_take_drop_id list_all_append)

section \<open>Bytes and numbers\<close>

definition byte_of :: "nat \<Rightarrow> byte" where
  "byte_of n = char_of n"

definition nat_of :: "byte \<Rightarrow> nat" where
  "nat_of c = of_char c"

text \<open>The conversion of an \<^verbatim>\<open>int\<close> constant to \<^verbatim>\<open>char\<close>.\<close>

definition as_char :: "int \<Rightarrow> byte" where
  "as_char i = byte_of (nat (i mod 256))"

lemma nat_of_byte_of [simp]: "nat_of (byte_of n) = n mod 256"
  by (simp add: nat_of_def byte_of_def)

lemma byte_of_nat_of [simp]: "byte_of (nat_of c) = c"
  by (simp add: nat_of_def byte_of_def)

lemma nat_of_less [simp]: "nat_of c < 256"
  by (simp add: nat_of_def)

lemma nat_of_NUL [simp]: "nat_of NUL = 0"
  by (simp add: nat_of_def)

lemma byte_of_eq_NUL: "byte_of n = NUL \<longleftrightarrow> n mod 256 = 0"
  by (metis nat_of_NUL nat_of_byte_of byte_of_nat_of)

lemma byte_of_inject: "m < 256 \<Longrightarrow> n < 256 \<Longrightarrow> byte_of m = byte_of n \<longleftrightarrow> m = n"
  by (metis mod_less nat_of_byte_of)

lemma as_char_inject:
  "0 \<le> i \<Longrightarrow> i < 256 \<Longrightarrow> 0 \<le> j \<Longrightarrow> j < 256 \<Longrightarrow> as_char i = as_char j \<longleftrightarrow> i = j"
  by (simp add: as_char_def byte_of_inject nat_less_iff eq_nat_nat_iff)

lemma mk_commands [simp]: "as_char MK_DIRECTORY \<noteq> as_char MK_FILE" "as_char MK_FILE \<noteq> as_char MK_DIRECTORY"
  by (simp_all add: as_char_inject message_flags)

text \<open>The flags of the answers are told apart.\<close>

lemma answer_flags:
  "as_char ACK_OK \<noteq> as_char ACK_ERROR" "as_char ACK_ERROR \<noteq> as_char ACK_OK"
  "as_char ACK_OK \<noteq> as_char FORCED_SOCKET_CLOSED" "as_char FORCED_SOCKET_CLOSED \<noteq> as_char ACK_OK"
  "as_char ACK_ERROR \<noteq> as_char FORCED_SOCKET_CLOSED" "as_char FORCED_SOCKET_CLOSED \<noteq> as_char ACK_ERROR"
  "as_char ACK_OK \<noteq> as_char BAD_AUTH" "as_char BAD_AUTH \<noteq> as_char ACK_OK"
  by (simp_all add: as_char_inject message_flags return_codes)

end
