(* ===== verification/Codec.thy ===== *)
theory Codec
  imports Prelude_LLNCP
begin

text \<open>
  The interface between the two ends of a wire format: an encoder and a decoder that takes one
  value off the front of the bytes received.  The law is that decoding an encoded value gives it
  back and leaves exactly the bytes behind it; what follows from it (encodings are self-delimiting,
  a sequence of values can be read back one by one) is proved once here and instantiated for the
  messages, for the request header of the client and for the transfer header of the daemon.
\<close>

text \<open>Reading so many values off the front.\<close>

fun dec_many :: "(byte list \<Rightarrow> ('a \<times> byte list) option) \<Rightarrow> nat \<Rightarrow> byte list \<Rightarrow>
    ('a list \<times> byte list) option" where
  "dec_many dec 0 bs = Some ([], bs)"
| "dec_many dec (Suc n) bs =
     (case dec bs of
        None \<Rightarrow> None
      | Some (x, rest) \<Rightarrow>
          (case dec_many dec n rest of
             None \<Rightarrow> None
           | Some (xs, rest') \<Rightarrow> Some (x # xs, rest')))"

locale prefix_codec =
  fixes valid :: "'a \<Rightarrow> bool"
    and enc :: "'a \<Rightarrow> byte list"
    and dec :: "byte list \<Rightarrow> ('a \<times> byte list) option"
  assumes dec_enc: "valid x \<Longrightarrow> dec (enc x @ rest) = Some (x, rest)"
begin

lemma prefix_free:
  assumes "valid x" and "valid y" and "enc x @ r = enc y @ t"
  shows "x = y \<and> r = t"
proof -
  have "Some (x, r) = dec (enc y @ t)"
    using dec_enc [OF assms(1), of r] unfolding assms(3) by (rule sym)
  also have "\<dots> = Some (y, t)"
    by (rule dec_enc [OF assms(2)])
  finally show ?thesis by simp
qed

lemma enc_inject: "valid x \<Longrightarrow> valid y \<Longrightarrow> enc x = enc y \<longleftrightarrow> x = y"
  using prefix_free [of x y "[]" "[]"] by auto

lemma dec_many_enc:
  "\<forall>x \<in> set xs. valid x \<Longrightarrow>
     dec_many dec (length xs) (concat (map enc xs) @ rest) = Some (xs, rest)"
proof (induction xs)
  case (Cons x xs)
  then have "dec (enc x @ concat (map enc xs) @ rest) = Some (x, concat (map enc xs) @ rest)"
    by (intro dec_enc) simp
  with Cons show ?case by simp
qed simp

end

end
