(* ===== verification/Kernel.thy ===== *)
theory Kernel
  imports Prelude_LLNCP
begin

text \<open>
  The system calls on sockets that the library, the daemon and the server use, as the code sees
  them.  What the network will do is part of the state: \<open>rx\<close> holds, per descriptor, the segments
  and conditions the coming \<^verbatim>\<open>recv\<close> calls meet, \<open>snd_evs\<close> the results of the coming
  \<^verbatim>\<open>send\<close> calls and \<open>sel_evs\<close> those of the coming \<^verbatim>\<open>select\<close> calls; \<open>tx\<close> records the bytes
  the kernel accepted per descriptor and \<open>closed\<close> the descriptors closed so far.
\<close>

section \<open>The state of the sockets\<close>

text \<open>A segment of bytes, an orderly shutdown by the peer (which persists), a failing call.\<close>

datatype rx_ev = Seg "byte list" | Eof | RErr int

text \<open>A \<^verbatim>\<open>send\<close> that accepts at most so many bytes, or fails with an error number.\<close>

datatype snd_ev = SOk nat | SErr int

record sel_ev =
  sel_ret :: int
  sel_write :: bool
  sel_server :: bool
  sel_client :: bool

record net =
  rx :: "fd \<Rightarrow> rx_ev list"
  tx :: "fd \<Rightarrow> byte list"
  snd_evs :: "snd_ev list"
  sel_evs :: "sel_ev list"
  closed :: "fd list"
  errno :: int
  sigpipe_ignored :: bool

text \<open>What a path of the file system names.\<close>

datatype node = Dir | File "byte list"

text \<open>A program that opens connections: the results of the coming \<^verbatim>\<open>socket\<close> calls (a descriptor
  or -1), of the coming \<^verbatim>\<open>connect\<close> calls and of the coming \<^verbatim>\<open>fcntl\<close> calls that set a flag
  (\<open>Some\<close> an error number where it fails).  Without an entry \<^verbatim>\<open>connect\<close> and \<^verbatim>\<open>fcntl\<close>
  succeed, and a program that asks for more sockets than the script has waits.\<close>

record dialer = net +
  socket_evs :: "fd list"
  connect_evs :: "int option list"
  fcntl_evs :: "int option list"

section \<open>The calls\<close>

text \<open>\<^verbatim>\<open>recv(socket, ., n, 0)\<close> returns what the first segment holds, at most \<open>n\<close> bytes; 0 at the
  end of the stream; -1 on an error; and waits while nothing has arrived.\<close>

fun q_recv :: "nat \<Rightarrow> rx_ev list \<Rightarrow> (int \<times> byte list) option \<times> rx_ev list" where
  "q_recv n [] = (None, [])"
| "q_recv n (Seg bs # q) =
     (if bs = [] then q_recv n q
      else if length bs \<le> n then (Some (int (length bs), bs), q)
      else (Some (int n, take n bs), Seg (drop n bs) # q))"
| "q_recv n (Eof # q) = (Some (0, []), Eof # q)"
| "q_recv n (RErr e # q) = (Some (-1, []), q)"

definition os_recv :: "fd \<Rightarrow> nat \<Rightarrow> ('z net_scheme, int \<times> byte list) prog" where
  "os_recv sock n w =
     (case q_recv n (rx w sock) of
        (None, q) \<Rightarrow> (Block, w\<lparr>rx := (rx w)(sock := q)\<rparr>)
      | (Some r, q) \<Rightarrow> (Ret r, w\<lparr>rx := (rx w)(sock := q)\<rparr>))"

text \<open>\<^verbatim>\<open>send\<close> on a connection the peer has closed raises SIGPIPE, which ends the process unless the
  program ignores it.\<close>

definition os_send :: "fd \<Rightarrow> byte list \<Rightarrow> ('z net_scheme, int) prog" where
  "os_send sock bs w =
     (case snd_evs w of
        [] \<Rightarrow> (Ret (int (length bs)), w\<lparr>tx := (tx w)(sock := tx w sock @ bs)\<rparr>)
      | SOk k # es \<Rightarrow>
          (Ret (int (min k (length bs))),
           w\<lparr>tx := (tx w)(sock := tx w sock @ take k bs), snd_evs := es\<rparr>)
      | SErr e # es \<Rightarrow>
          (if e = EPIPE \<and> \<not> sigpipe_ignored w then (Killed, w\<lparr>snd_evs := es\<rparr>)
           else (Ret (- 1), w\<lparr>snd_evs := es, errno := e\<rparr>)))"

definition os_select :: "('z net_scheme, sel_ev) prog" where
  "os_select w =
     (case sel_evs w of
        [] \<Rightarrow> (Block, w)
      | e # es \<Rightarrow> (Ret e, w\<lparr>sel_evs := es\<rparr>))"

definition os_close :: "fd \<Rightarrow> ('z net_scheme, unit) prog" where
  "os_close sock = modifyM (\<lambda>w. w\<lparr>closed := closed w @ [sock]\<rparr>)"

definition os_socket :: "('z dialer_scheme, fd) prog" where
  "os_socket w =
     (case socket_evs w of
        [] \<Rightarrow> (Block, w)
      | s # ss \<Rightarrow> (Ret s, w\<lparr>socket_evs := ss\<rparr>))"

definition os_connect :: "fd \<Rightarrow> ('z dialer_scheme, int) prog" where
  "os_connect sock w =
     (case connect_evs w of
        Some e # es \<Rightarrow> (Ret (- 1), w\<lparr>connect_evs := es, errno := e\<rparr>)
      | evs \<Rightarrow> (Ret 0, w\<lparr>connect_evs := tl evs\<rparr>))"

definition os_set_nonblock :: "fd \<Rightarrow> ('z dialer_scheme, int) prog" where
  "os_set_nonblock sock w =
     (case fcntl_evs w of
        Some e # es \<Rightarrow> (Ret (- 1), w\<lparr>fcntl_evs := es, errno := e\<rparr>)
      | evs \<Rightarrow> (Ret 0, w\<lparr>fcntl_evs := tl evs\<rparr>))"

section \<open>The bytes on their way\<close>

text \<open>The bytes a descriptor will deliver before its first end of stream or error, and the queue
  once \<open>n\<close> of them are read.\<close>

fun stream :: "rx_ev list \<Rightarrow> byte list" where
  "stream [] = []"
| "stream (Seg bs # q) = bs @ stream q"
| "stream (Eof # q) = []"
| "stream (RErr e # q) = []"

fun q_drop :: "nat \<Rightarrow> rx_ev list \<Rightarrow> rx_ev list" where
  "q_drop n [] = []"
| "q_drop n (Seg bs # q) =
     (if n = 0 then Seg bs # q
      else if length bs \<le> n then q_drop (n - length bs) q
      else Seg (drop n bs) # q)"
| "q_drop n (Eof # q) = Eof # q"
| "q_drop n (RErr e # q) = RErr e # q"

fun q_size :: "rx_ev list \<Rightarrow> nat" where
  "q_size [] = 0"
| "q_size (Seg bs # q) = Suc (length bs + q_size q)"
| "q_size (Eof # q) = Suc (q_size q)"
| "q_size (RErr e # q) = Suc (q_size q)"

definition avail :: "fd \<Rightarrow> 'z net_scheme \<Rightarrow> byte list" where
  "avail sock w = stream (rx w sock)"

definition consume :: "fd \<Rightarrow> nat \<Rightarrow> 'z net_scheme \<Rightarrow> 'z net_scheme" where
  "consume sock n w = w\<lparr>rx := (rx w)(sock := q_drop n (rx w sock))\<rparr>"

lemma q_drop_0 [simp]: "q_drop 0 q = q"
  by (cases q rule: stream.cases) auto

lemma stream_q_drop [simp]: "n \<le> length (stream q) \<Longrightarrow> stream (q_drop n q) = drop n (stream q)"
  by (induction n q rule: q_drop.induct) auto

lemma q_drop_q_drop: "m + n \<le> length (stream q) \<Longrightarrow> q_drop n (q_drop m q) = q_drop (m + n) q"
  by (induction m q arbitrary: n rule: q_drop.induct) (auto simp: ac_simps)

lemma avail_consume [simp]:
  "n \<le> length (avail s w) \<Longrightarrow> avail s (consume s n w) = drop n (avail s w)"
  "t \<noteq> s \<Longrightarrow> avail t (consume s n w) = avail t w"
  by (simp_all add: avail_def consume_def)

lemma consume_0 [simp]: "consume s 0 w = w"
  by (simp add: consume_def)

lemma consume_rx [simp]:
  "rx (consume s n w) s = q_drop n (rx w s)" "t \<noteq> s \<Longrightarrow> rx (consume s n w) t = rx w t"
  by (simp_all add: consume_def)

lemma consume_rx_update:
  "(consume s n w)\<lparr>rx := (rx (consume s n w))(s := q)\<rparr> = w\<lparr>rx := (rx w)(s := q)\<rparr>"
  by (simp add: consume_def)

lemma consume_consume:
  "m + n \<le> length (avail s w) \<Longrightarrow> consume s n (consume s m w) = consume s (m + n) w"
  by (simp add: consume_def avail_def q_drop_q_drop)

lemma consume_fields [simp]:
  "tx (consume s n w) = tx w" "snd_evs (consume s n w) = snd_evs w"
  "sel_evs (consume s n w) = sel_evs w" "closed (consume s n w) = closed w"
  "errno (consume s n w) = errno w" "sigpipe_ignored (consume s n w) = sigpipe_ignored w"
  "net.more (consume s n w) = net.more w"
  by (simp_all add: consume_def)

lemma avail_update [simp]:
  "avail s (w\<lparr>tx := a\<rparr>) = avail s w" "avail s (w\<lparr>snd_evs := b\<rparr>) = avail s w"
  "avail s (w\<lparr>sel_evs := c\<rparr>) = avail s w" "avail s (w\<lparr>closed := d\<rparr>) = avail s w"
  "avail s (w\<lparr>errno := e\<rparr>) = avail s w" "avail s (w\<lparr>net.more := m\<rparr>) = avail s w"
  by (simp_all add: avail_def)

text \<open>How the stream ends once its bytes are read: the peer has shut the connection down, or is
  silent.\<close>

fun closes :: "rx_ev list \<Rightarrow> bool" where
  "closes [] = False"
| "closes (Seg bs # q) = closes q"
| "closes (Eof # q) = True"
| "closes (RErr e # q) = False"

fun silent :: "rx_ev list \<Rightarrow> bool" where
  "silent [] = True"
| "silent (Seg bs # q) = silent q"
| "silent (Eof # q) = False"
| "silent (RErr e # q) = False"

lemma ends_q_drop [simp]:
  "closes q \<Longrightarrow> closes (q_drop n q)" "silent q \<Longrightarrow> silent (q_drop n q)"
  by (induction n q rule: q_drop.induct) auto

section \<open>What one call does to the stream\<close>

lemma q_recv_smaller:
  "0 < n \<Longrightarrow> q_recv n q = (Some (r, bs), q') \<Longrightarrow> r \<noteq> 0 \<Longrightarrow> q_size q' < q_size q"
  by (induction n q rule: q_recv.induct) (auto split: if_splits)

lemma q_recv_length:
  "q_recv n q = (Some (r, bs), q') \<Longrightarrow> length bs \<le> n \<and> (r = -1 \<and> bs = [] \<or> r = int (length bs))"
  by (induction n q rule: q_recv.induct) (auto split: if_splits)

text \<open>While bytes are on their way, a call for \<open>n > 0\<close> of them returns a non-empty prefix.\<close>

lemma q_recv_stream:
  assumes "0 < n" and "stream q \<noteq> []"
  shows "\<exists>k. 0 < k \<and> k \<le> n \<and> k \<le> length (stream q) \<and>
    q_recv n q = (Some (int k, take k (stream q)), q_drop k q)"
  using assms
proof (induction n q rule: q_recv.induct)
  case (2 n bs q)
  show ?case
  proof (cases "bs = []")
    case True
    with 2 show ?thesis by auto
  next
    case False
    with 2 show ?thesis by (cases "length bs \<le> n") (auto intro!: exI [of _ "min n (length bs)"])
  qed
qed auto

lemma os_recv_avail:
  assumes "0 < n" and "avail s w \<noteq> []"
  obtains k where "0 < k" "k \<le> n" "k \<le> length (avail s w)"
    "os_recv s n w = (Ret (int k, take k (avail s w)), consume s k w)"
  using q_recv_stream [OF assms(1), of "rx w s"] assms(2)
  by (auto simp: os_recv_def avail_def consume_def)

lemma q_recv_end:
  assumes "stream q = []"
  shows "closes q \<Longrightarrow> \<exists>q'. q_recv n q = (Some (0, []), Eof # q')"
    and "silent q \<Longrightarrow> q_recv n q = (None, [])"
  using assms by (induction n q rule: q_recv.induct) auto

lemma os_recv_end:
  assumes "avail s w = []"
  shows "closes (rx w s) \<Longrightarrow>
      \<exists>q. os_recv s n w = (Ret (0, []), w\<lparr>rx := (rx w)(s := Eof # q)\<rparr>)"
    and "silent (rx w s) \<Longrightarrow> os_recv s n w = (Block, w\<lparr>rx := (rx w)(s := [])\<rparr>)"
  using q_recv_end [of "rx w s" n] assms by (auto simp: os_recv_def avail_def)

lemma os_recv_eof: "rx w s = Eof # q \<Longrightarrow> os_recv s n w = (Ret (0, []), w)"
  by (simp add: os_recv_def fun_upd_idem)

text \<open>A \<^verbatim>\<open>send\<close> that does not fail hands a prefix of its bytes to the kernel.\<close>

definition sent :: "fd \<Rightarrow> byte list \<Rightarrow> 'z net_scheme \<Rightarrow> 'z net_scheme" where
  "sent sock bs w = w\<lparr>tx := (tx w)(sock := tx w sock @ bs)\<rparr>"

lemma os_send_ideal [exec]: "snd_evs w = [] \<Longrightarrow> os_send s bs w = (Ret (int (length bs)), sent s bs w)"
  by (simp add: os_send_def sent_def)

lemma os_send_Ret:
  assumes "os_send s bs w = (Ret r, w')"
  shows "(r = - 1 \<and> tx w' = tx w) \<or>
    (\<exists>k \<le> length bs. r = int k \<and> tx w' = (tx w)(s := tx w s @ take k bs))"
proof (cases "snd_evs w")
  case Nil
  with assms show ?thesis by (auto simp: os_send_def intro!: exI [of _ "length bs"])
next
  case (Cons e es)
  then show ?thesis
  proof (cases e)
    case (SOk k)
    with Cons assms show ?thesis
      by (auto simp: os_send_def take_min_length intro!: exI [of _ "min k (length bs)"])
  next
    case (SErr n)
    with Cons assms show ?thesis by (auto simp: os_send_def split: if_splits)
  qed
qed

lemma sent_fields [simp]:
  "rx (sent s bs w) = rx w" "snd_evs (sent s bs w) = snd_evs w"
  "sel_evs (sent s bs w) = sel_evs w" "closed (sent s bs w) = closed w"
  "errno (sent s bs w) = errno w" "sigpipe_ignored (sent s bs w) = sigpipe_ignored w"
  "net.more (sent s bs w) = net.more w" "avail t (sent s bs w) = avail t w"
  by (simp_all add: sent_def)

lemma tx_sent [simp]:
  "tx (sent s bs w) s = tx w s @ bs" "t \<noteq> s \<Longrightarrow> tx (sent s bs w) t = tx w t"
  by (simp_all add: sent_def)

lemma sent_sent: "sent s ds (sent s bs w) = sent s (bs @ ds) w"
  by (simp add: sent_def)

lemma sent_Nil [simp]: "sent s [] w = w"
  by (simp add: sent_def)

end
