(* ===== verification/Libllncp.thy ===== *)
theory Libllncp
  imports Codec Kernel "HOL-Library.Signed_Division"
begin

text \<open>
  The routines the three programs share, \<^verbatim>\<open>src/libs/libllncp.c\<close>: exact reads and writes on
  stream sockets, path transport and the length-prefixed messages.  Return codes are the code's
  \<^verbatim>\<open>int\<close>s, counters of type \<^verbatim>\<open>unsigned long long\<close> are \<open>64 word\<close>s, and pointer arguments are
  an array with an offset.
\<close>

section \<open>\_strnlen\<close>

text \<open>The loop looks at \<^verbatim>\<open>*p\<close> before it looks at \<^verbatim>\<open>max\<close>; \<open>None\<close> is a read past the array.\<close>

fun strnlen :: "byte list \<Rightarrow> nat \<Rightarrow> nat option" where
  "strnlen [] mx = None"
| "strnlen (c # p) mx =
     (if c \<noteq> NUL \<and> mx \<noteq> 0 then map_option Suc (strnlen p (mx - 1)) else Some 0)"

lemma strnlen_bounded:
  "mx < length s \<Longrightarrow> strnlen s mx = Some (min (length (takeWhile (\<lambda>c. c \<noteq> NUL) s)) mx)"
  by (induction s mx rule: strnlen.induct) auto

lemma strnlen_string:
  "NUL \<notin> set t \<Longrightarrow> strnlen (t @ NUL # rest) mx = Some (min (length t) mx)"
proof (induction t arbitrary: mx)
  case (Cons c t)
  then show ?case by (cases mx) auto
qed simp

lemma strnlen_c_str: "c_str s = Some t \<Longrightarrow> strnlen s mx = Some (min (length t) mx)"
  using c_str_split [of s t] c_str_no_NUL [of s t] by (auto simp: strnlen_string)

lemma strnlen_le: "strnlen s mx = Some n \<Longrightarrow> n \<le> mx \<and> n < length s"
  by (induction s mx arbitrary: n rule: strnlen.induct) (auto split: if_splits)

section \<open>recv\_bytes\<close>

text \<open>
  The result of \<^verbatim>\<open>recv\<close> is stored in an \<^verbatim>\<open>unsigned long long\<close>: the test \<^verbatim>\<open>n < 0\<close> of the code is
  the comparison \<open>n < 0\<close> on \<open>64 word\<close>, and a failed call adds -1 modulo \<open>2 ^ 64\<close>.
\<close>

function recv_loop ::
  "byte list \<Rightarrow> nat \<Rightarrow> fd \<Rightarrow> u64 \<Rightarrow> u64 \<Rightarrow> ('z net_scheme, int \<times> byte list) prog" where
  "recv_loop buf off sock bytes received w =
     (if received < bytes then
        (case os_recv sock (unat (bytes - received)) w of
           (Ret (r, bs), w') \<Rightarrow>
             (case buf_write buf (off + unat received) bs of
                None \<Rightarrow> (Ub, w')
              | Some buf' \<Rightarrow>
                  (let n = (word_of_int r :: u64) in
                   if n = 0 then (Ret (SOCKET_CLOSED, buf'), w')
                   else if n < 0 then (Ret (EXIT_FAILURE, buf'), w')
                   else recv_loop buf' off sock bytes (received + n) w'))
         | (x, w') \<Rightarrow> (recast x, w'))
      else (Ret (EXIT_SUCCESS, buf), w))"
  by pat_completeness auto

lemma os_recv_smaller:
  assumes "0 < n" and "os_recv sock n w = (Ret (r, bs), w')" and "r \<noteq> 0"
  shows "q_size (rx w' sock) < q_size (rx w sock)"
  using assms q_recv_smaller [of n "rx w sock"]
  by (auto simp: os_recv_def split: prod.splits option.splits)

termination recv_loop
proof (relation "measure (\<lambda>(buf, off, sock, bytes, received, w). q_size (rx w sock))")
  fix buf :: "byte list" and off :: nat and sock :: fd and bytes received n :: u64
    and w w' :: "'z net_scheme" and x y r bs buf' z
  assume rcv: "received < bytes" "(x, y) = os_recv sock (unat (bytes - received)) w"
    "x = Ret z" "(r, bs) = z" and n: "n = word_of_int r" "n \<noteq> 0"
  have "0 < unat (bytes - received)"
    using rcv(1) by (simp add: unat_gt_0)
  moreover have "r \<noteq> 0"
    using n by auto
  ultimately have "q_size (rx y sock) < q_size (rx w sock)"
    using rcv by (metis os_recv_smaller)
  then show "((buf', off, sock, bytes, received + n, y), buf, off, sock, bytes, received, w)
      \<in> measure (\<lambda>(buf, off, sock, bytes, received, w). q_size (rx w sock))"
    by simp
qed simp

declare recv_loop.simps [simp del]

definition recv_bytes ::
  "byte list \<Rightarrow> nat \<Rightarrow> fd \<Rightarrow> u64 \<Rightarrow> ('z net_scheme, int \<times> byte list) prog" where
  "recv_bytes buf off sock bytes = recv_loop buf off sock bytes 0"

text \<open>One step of the loop on bytes that are on their way.\<close>

lemma unat_u64: "unat (x :: u64) < 18446744073709551616"
  using unsigned_less [of x, where ?'a = nat] by simp

lemma unat_minus_le: "(received :: u64) \<le> bytes \<Longrightarrow> unat (bytes - received) = unat bytes - unat received"
  by (simp add: unat_sub)

lemma counter_advance:
  fixes received bytes :: u64
  assumes "received < bytes" and "k \<le> unat (bytes - received)"
  shows "unat (received + word_of_int (int k)) = unat received + k"
    and "received + word_of_int (int k) \<le> bytes"
    and "unat (bytes - (received + word_of_int (int k))) = unat (bytes - received) - k"
proof -
  have le: "unat received + k \<le> unat bytes"
    using assms by (simp add: unat_minus_le word_less_nat_alt word_le_nat_alt)
  then have lt: "unat received + k < 2 ^ 64"
    using unat_u64 [of bytes] by simp
  show sum: "unat (received + word_of_int (int k)) = unat received + k"
    using lt by (simp add: unat_word_ariths unat_of_nat take_bit_eq_mod mod_add_right_eq)
  show le': "received + word_of_int (int k) \<le> bytes"
    using sum le by (simp add: word_le_nat_alt)
  show "unat (bytes - (received + word_of_int (int k))) = unat (bytes - received) - k"
    using sum le assms(1) by (simp add: unat_minus_le [OF le'] unat_minus_le word_le_nat_alt word_less_nat_alt)
qed

lemma word_of_int_count_0:
  "k \<le> unat (x :: u64) \<Longrightarrow> (word_of_int (int k) :: u64) = 0 \<longleftrightarrow> k = 0"
proof -
  assume "k \<le> unat x"
  then have "k < 2 ^ 64"
    using unat_u64 [of x] by simp
  then show ?thesis
    by (simp add: word_of_nat_eq_0_iff) (metis dvd_imp_le gr0I leD dvd_0_right)
qed

lemma word_of_int_count_minus_one:
  assumes "k \<le> unat (x :: u64)" and "x \<noteq> - 1"
  shows "(word_of_int (int k) :: u64) \<noteq> - 1"
proof
  assume m: "(word_of_int (int k) :: u64) = - 1"
  have "k < 18446744073709551616" using assms(1) unat_u64 [of x] by simp
  then have "unat (word_of_int (int k) :: u64) = k"
    by (simp add: unat_of_nat take_bit_eq_mod)
  with m have "unat (- 1 :: u64) \<le> unat x" using assms(1) by simp
  then have "- 1 \<le> x" by (simp only: word_le_nat_alt)
  with assms(2) show False by (simp add: word_order.extremum_unique)
qed

lemma recv_loop_step:
  assumes "received < bytes" and "off + unat bytes \<le> length buf"
    and "os_recv sock (unat (bytes - received)) w = (Ret (int k, bs), w')"
    and "0 < k" and "k \<le> unat (bytes - received)" and "length bs = k"
  shows "recv_loop buf off sock bytes received w =
    recv_loop (patched buf (off + unat received) bs) off sock bytes (received + word_of_int (int k)) w'"
proof -
  have "off + unat received + length bs \<le> length buf"
    using assms by (simp add: unat_minus_le word_less_nat_alt word_le_nat_alt)
  then show ?thesis
    using assms word_of_int_count_0 [OF assms(5)]
    by (subst recv_loop.simps) (simp add: buf_write_Some)
qed

lemma recv_loop_ok:
  assumes "received \<le> bytes" and "off + unat bytes \<le> length buf"
    and "unat (bytes - received) \<le> length (avail sock w)"
  shows "recv_loop buf off sock bytes received w =
    (Ret (EXIT_SUCCESS, patched buf (off + unat received)
        (take (unat (bytes - received)) (avail sock w))),
     consume sock (unat (bytes - received)) w)"
  using assms
proof (induction "unat (bytes - received)" arbitrary: buf received w rule: less_induct)
  case less
  show ?case
  proof (cases "received < bytes")
    case False
    with less.prems(1) have "received = bytes" by simp
    then show ?thesis by (subst recv_loop.simps) simp
  next
    case True
    let ?m = "unat (bytes - received)"
    have m: "0 < ?m" using True by (simp add: unat_gt_0)
    moreover have "avail sock w \<noteq> []"
      using less.prems(3) m by (metis le_zero_eq list.size(3) less_numeral_extra(3))
    ultimately obtain k where k: "0 < k" "k \<le> ?m" "k \<le> length (avail sock w)"
      and run: "os_recv sock ?m w = (Ret (int k, take k (avail sock w)), consume sock k w)"
      by (rule os_recv_avail)
    let ?recvd = "received + word_of_int (int k) :: u64"
    let ?bs = "take k (avail sock w)"
    note adv = counter_advance [OF True k(2)]
    have room: "off + unat received + length ?bs \<le> length buf"
      using less.prems(2) adv(1,2) k(3) by (simp add: word_le_nat_alt)
    have "recv_loop buf off sock bytes received w =
        recv_loop (patched buf (off + unat received) ?bs) off sock bytes ?recvd (consume sock k w)"
      using recv_loop_step [OF True less.prems(2) run k(1,2)] k(3) by simp
    also have "\<dots> = (Ret (EXIT_SUCCESS, patched (patched buf (off + unat received) ?bs)
          (off + unat ?recvd) (take (unat (bytes - ?recvd)) (drop k (avail sock w)))),
        consume sock (unat (bytes - ?recvd)) (consume sock k w))"
      using less.hyps [of ?recvd "patched buf (off + unat received) ?bs" "consume sock k w"]
        less.prems adv k room by simp
    also have "consume sock (unat (bytes - ?recvd)) (consume sock k w) = consume sock ?m w"
      using adv(3) k less.prems(3) by (simp add: consume_consume)
    also have "patched (patched buf (off + unat received) ?bs)
          (off + unat ?recvd) (take (unat (bytes - ?recvd)) (drop k (avail sock w))) =
        patched buf (off + unat received) (take ?m (avail sock w))"
      using adv k less.prems patched_patched [of "off + unat received" ?bs
          "take (?m - k) (drop k (avail sock w))" buf]
      by (simp add: take_take_drop unat_minus_le word_le_nat_alt ac_simps)
    finally show ?thesis .
  qed
qed

lemma recv_bytes_ok [exec]:
  assumes "off + unat bytes \<le> length buf" and "unat bytes \<le> length (avail sock w)"
  shows "recv_bytes buf off sock bytes w =
    (Ret (EXIT_SUCCESS, patched buf off (take (unat bytes) (avail sock w))),
     consume sock (unat bytes) w)"
  using recv_loop_ok [of 0 bytes off buf sock w] assms by (simp add: recv_bytes_def)

text \<open>What the loop can return at all: success or \<open>SOCKET_CLOSED\<close>, never \<open>EXIT_FAILURE\<close>, and it
  leaves the array alone outside the bytes asked for.\<close>

lemma word_not_neg [simp]: "\<not> (x :: u64) < 0"
  by simp

lemma recv_loop_codes:
  "recv_loop buf off sock bytes received w = (r, w') \<Longrightarrow>
     off + unat bytes \<le> length buf \<Longrightarrow>
     r = Block \<or> (\<exists>buf'. (r = Ret (EXIT_SUCCESS, buf') \<or> r = Ret (SOCKET_CLOSED, buf')) \<and>
       length buf' = length buf)"
proof (induction buf off sock bytes received w rule: recv_loop.induct)
  case (1 buf off sock bytes received w)
  show ?case
  proof (cases "received < bytes")
    case False
    with "1.prems" show ?thesis by (auto simp: recv_loop.simps [of buf off])
  next
    case True
    obtain x w1 where run: "os_recv sock (unat (bytes - received)) w = (x, w1)" by fastforce
    then consider (wait) "x = Block" | (got) n bs where "x = Ret (n, bs)"
      by (auto simp: os_recv_def split: prod.splits option.splits)
    then show ?thesis
    proof cases
      case wait
      with True run "1.prems"(1) show ?thesis by (simp add: recv_loop.simps)
    next
      case got
      then have "length bs \<le> unat (bytes - received)"
        using run q_recv_length [of "unat (bytes - received)" "rx w sock" n bs]
        by (auto simp: os_recv_def split: prod.splits option.splits)
      then have room: "off + unat received + length bs \<le> length buf"
        using True "1.prems"(2) by (simp add: unat_minus_le word_less_nat_alt word_le_nat_alt)
      note hyp = "1.IH" [OF True run [symmetric] got refl buf_write_Some [OF room] refl]
      show ?thesis
      proof (cases "(word_of_int n :: u64) = 0")
        case True
        with \<open>received < bytes\<close> run got room "1.prems"(1) show ?thesis
          by (auto simp: recv_loop.simps [of buf off] buf_write_Some)
      next
        case False
        have "recv_loop buf off sock bytes received w =
            recv_loop (patched buf (off + unat received) bs) off sock bytes (received + word_of_int n) w1"
          using False True run got room
          by (subst recv_loop.simps) (simp add: buf_write_Some)
        with hyp [OF False] "1.prems" room show ?thesis by simp
      qed
    qed
  qed
qed

lemma recv_bytes_codes:
  assumes "recv_bytes buf off sock bytes w = (r, w')" and "off + unat bytes \<le> length buf"
  shows "r = Block \<or> (\<exists>buf'. (r = Ret (EXIT_SUCCESS, buf') \<or> r = Ret (SOCKET_CLOSED, buf')) \<and>
    length buf' = length buf)"
  using recv_loop_codes [of buf off sock bytes 0 w r w'] assms by (simp add: recv_bytes_def)

lemma recv_bytes_nothing [exec, simp]: "recv_bytes buf off sock 0 w = (Ret (EXIT_SUCCESS, buf), w)"
  by (simp add: recv_bytes_def recv_loop.simps)

text \<open>With no assumption on the room: what a call that returns leaves of the array, and its code.\<close>

lemma buf_write_prefix:
  "buf_write buf (off + k) bs = Some b \<Longrightarrow> length b = length buf \<and> take off b = take off buf"
  by (auto simp: buf_write_def split: if_splits)

lemma recv_loop_ret:
  "recv_loop buf off s bytes received w = (Ret (e, b), w') \<Longrightarrow>
     length b = length buf \<and> take off b = take off buf \<and> (e = EXIT_SUCCESS \<or> e = SOCKET_CLOSED)"
proof (induction buf off s bytes received w rule: recv_loop.induct)
  case (1 buf off s bytes received w)
  show ?case
  proof (cases "received < bytes")
    case False
    with "1.prems" show ?thesis by (simp add: recv_loop.simps [of buf off])
  next
    case True
    obtain x w1 where run: "os_recv s (unat (bytes - received)) w = (x, w1)" by fastforce
    with True "1.prems" obtain n bs where x: "x = Ret (n, bs)"
      by (cases x) (auto simp: recv_loop.simps [of buf off])
    with True run "1.prems" obtain b1 where b1: "buf_write buf (off + unat received) bs = Some b1"
      by (auto simp: recv_loop.simps [of buf off] split: option.splits)
    note pre = buf_write_prefix [OF b1]
    show ?thesis
    proof (cases "(word_of_int n :: u64) = 0")
      case z: True
      with True run x b1 "1.prems" pre show ?thesis by (auto simp: recv_loop.simps [of buf off])
    next
      case nz: False
      then have "recv_loop b1 off s bytes (received + word_of_int n) w1 = (Ret (e, b), w')"
        using True run x b1 "1.prems" by (simp add: recv_loop.simps [of buf off])
      from "1.IH" [OF True run [symmetric] x refl b1 refl nz word_not_neg this] pre show ?thesis by simp
    qed
  qed
qed

lemma recv_bytes_ret:
  "recv_bytes buf off s bytes w = (Ret (e, b), w') \<Longrightarrow>
     length b = length buf \<and> take off b = take off buf \<and> (e = EXIT_SUCCESS \<or> e = SOCKET_CLOSED)"
  unfolding recv_bytes_def by (rule recv_loop_ret)

lemma recv_loop_outcomes:
  "recv_loop buf off s bytes received w = (r, w') \<Longrightarrow> r = Block \<or> r = Ub \<or> (\<exists>x. r = Ret x)"
proof (induction buf off s bytes received w rule: recv_loop.induct)
  case (1 buf off s bytes received w)
  obtain x w1 where run: "os_recv s (unat (bytes - received)) w = (x, w1)" by fastforce
  then have x: "x = Block \<or> (\<exists>n bs. x = Ret (n, bs))"
    by (auto simp: os_recv_def split: prod.splits option.splits)
  show ?case
    using "1.prems" run x "1.IH" [OF _ run [symmetric] _ refl _ refl _ word_not_neg]
    by (auto simp: recv_loop.simps [of buf off] Let_def split: if_splits option.splits)
qed

text \<open>A connection that ends before the bytes are there is reported, with what did arrive.\<close>

lemma recv_loop_short:
  assumes "received \<le> bytes" and "off + unat bytes \<le> length buf"
    and "length (avail sock w) < unat (bytes - received)" and "closes (rx w sock)"
  shows "\<exists>q. recv_loop buf off sock bytes received w =
    (Ret (SOCKET_CLOSED, patched buf (off + unat received) (avail sock w)),
     w\<lparr>rx := (rx w)(sock := Eof # q)\<rparr>)"
  using assms
proof (induction "unat (bytes - received)" arbitrary: buf received w rule: less_induct)
  case less
  let ?m = "unat (bytes - received)"
  from less.prems(3) have "0 < ?m" by simp
  with less.prems(1) have lt: "received < bytes" by (auto simp: unat_gt_0 order_le_less)
  show ?case
  proof (cases "avail sock w = []")
    case True
    then show ?thesis using lt less.prems(4) os_recv_end(1) [of sock w ?m]
      by (auto simp: recv_loop.simps [of buf off])
  next
    case False
    with \<open>0 < ?m\<close> obtain k where k: "0 < k" "k \<le> ?m" "k \<le> length (avail sock w)"
      and run: "os_recv sock ?m w = (Ret (int k, take k (avail sock w)), consume sock k w)"
      by (rule os_recv_avail)
    let ?recvd = "received + word_of_int (int k) :: u64"
    let ?bs = "take k (avail sock w)"
    note adv = counter_advance [OF lt k(2)]
    have room: "off + unat received + length ?bs \<le> length buf"
      using less.prems(2) adv(1,2) k(3) by (simp add: word_le_nat_alt)
    have all: "off + unat received + length (avail sock w) \<le> length buf"
      using less.prems(2,3) lt by (simp add: unat_minus_le word_less_nat_alt word_le_nat_alt)
    have "recv_loop buf off sock bytes received w =
        recv_loop (patched buf (off + unat received) ?bs) off sock bytes ?recvd (consume sock k w)"
      using recv_loop_step [OF lt less.prems(2) run k(1,2)] k(3) by simp
    moreover have "\<exists>q. recv_loop (patched buf (off + unat received) ?bs) off sock bytes ?recvd
        (consume sock k w) = (Ret (SOCKET_CLOSED,
          patched (patched buf (off + unat received) ?bs) (off + unat ?recvd) (drop k (avail sock w))),
          w\<lparr>rx := (rx w)(sock := Eof # q)\<rparr>)"
      using less.hyps [of ?recvd "patched buf (off + unat received) ?bs" "consume sock k w"]
        less.prems adv k room by (simp add: consume_rx_update)
    ultimately show ?thesis
      using patched_patched [of "off + unat received" ?bs "drop k (avail sock w)" buf] adv k all
      by (simp add: ac_simps)
  qed
qed

lemma recv_bytes_short:
  assumes "off + unat bytes \<le> length buf"
    and "length (avail sock w) < unat bytes" and "closes (rx w sock)"
  shows "\<exists>q. recv_bytes buf off sock bytes w =
    (Ret (SOCKET_CLOSED, patched buf off (avail sock w)), w\<lparr>rx := (rx w)(sock := Eof # q)\<rparr>)"
  using recv_loop_short [of 0 bytes off buf sock w] assms by (simp add: recv_bytes_def)

text \<open>A failing \<^verbatim>\<open>recv\<close> steps the counter back by one: at the start of the transfer the loop then
  ends and reports success, later on the last byte received is overwritten by the next one.\<close>

lemma recv_bytes_error_first:
  assumes "rx w sock = RErr e # q" and "0 < bytes"
  shows "recv_bytes buf off sock bytes w =
    (Ret (EXIT_SUCCESS, buf), w\<lparr>rx := (rx w)(sock := q)\<rparr>)"
proof -
  have "os_recv sock (unat bytes) w = (Ret (- 1, []), w\<lparr>rx := (rx w)(sock := q)\<rparr>)"
    using assms(1) by (simp add: os_recv_def)
  moreover have "\<not> (- 1 :: u64) < bytes"
    by (simp add: word_order.extremum_strict)
  ultimately show ?thesis
    using assms(2) by (simp add: recv_bytes_def recv_loop.simps [of buf] recv_loop.simps [of _ _ _ _ "- 1"])
qed

text \<open>Asked for more bytes than the array has room for, the call writes past it once more than the
  room has arrived.\<close>

lemma recv_loop_overrun:
  assumes "received < bytes" and "off + unat received \<le> length buf" and "length buf < off + unat bytes"
    and "length buf < off + unat received + length (avail sock w)"
  shows "fst (recv_loop buf off sock bytes received w) = Ub"
  using assms
proof (induction "unat (bytes - received)" arbitrary: buf received w rule: less_induct)
  case less
  let ?m = "unat (bytes - received)"
  have m: "0 < ?m" using less.prems(1) by (simp add: unat_gt_0)
  moreover have "avail sock w \<noteq> []" using less.prems(2,4) by auto
  ultimately obtain k where k: "0 < k" "k \<le> ?m" "k \<le> length (avail sock w)"
    and run: "os_recv sock ?m w = (Ret (int k, take k (avail sock w)), consume sock k w)"
    by (rule os_recv_avail)
  let ?recvd = "received + word_of_int (int k) :: u64"
  let ?bs = "take k (avail sock w)"
  note adv = counter_advance [OF less.prems(1) k(2)]
  have bs: "?bs \<noteq> []" using k by auto
  show ?case
  proof (cases "off + unat received + k \<le> length buf")
    case False
    then have "buf_write buf (off + unat received) ?bs = None" using bs k by (simp add: buf_write_None)
    then show ?thesis using less.prems(1) run by (simp add: recv_loop.simps [of buf])
  next
    case True
    have lt: "?recvd < bytes" using True less.prems(3) adv(1) by (simp add: word_less_nat_alt)
    have "recv_loop buf off sock bytes received w =
        recv_loop (patched buf (off + unat received) ?bs) off sock bytes ?recvd (consume sock k w)"
      using less.prems(1) run True k word_of_int_count_0 [OF k(2)]
      by (subst recv_loop.simps) (simp add: buf_write_Some)
    moreover have "fst (recv_loop (patched buf (off + unat received) ?bs) off sock bytes ?recvd (consume sock k w)) = Ub"
      by (rule less.hyps [OF _ lt]) (use less.prems adv k True in simp_all)
    ultimately show ?thesis by simp
  qed
qed

lemma recv_bytes_overrun:
  assumes "off \<le> length buf" and "length buf < off + unat bytes" and "length buf < off + length (avail sock w)"
  shows "fst (recv_bytes buf off sock bytes w) = Ub"
  using recv_loop_overrun [of 0 bytes off buf sock w] assms
  by (simp add: recv_bytes_def word_less_nat_alt)

section \<open>send\_bytes\<close>

text \<open>
  The result of \<^verbatim>\<open>send\<close> is an \<^verbatim>\<open>unsigned long long\<close> again.  Each round of the loop consumes
  one result of \<^verbatim>\<open>select\<close>; with none left the call waits for ever.
\<close>

function send_loop ::
  "byte list \<Rightarrow> nat \<Rightarrow> fd \<Rightarrow> u64 \<Rightarrow> u64 \<Rightarrow> ('z net_scheme, int) prog" where
  "send_loop buf off write_socket bytes sent_bytes w =
     (if sent_bytes < bytes then
        (case os_select w of
           (Ret e, w1) \<Rightarrow>
             (if sel_write e then
                (case buf_read buf (off + unat sent_bytes) (unat (bytes - sent_bytes)) of
                   None \<Rightarrow> (Ub, w1)
                 | Some rest \<Rightarrow>
                     (case os_send write_socket rest w1 of
                        (Ret r, w2) \<Rightarrow>
                          (let n = (word_of_int r :: u64) in
                           if n < 1 \<and> errno w2 = EWOULDBLOCK
                             then send_loop buf off write_socket bytes sent_bytes w2
                           else if n = -1 then (Ret SOCKET_CLOSED, w2)
                           else send_loop buf off write_socket bytes (sent_bytes + n) w2)
                      | (x, w2) \<Rightarrow> (recast x, w2)))
              else if sel_ret e = -1 then (Ret EXIT_FAILURE, w1)
              else send_loop buf off write_socket bytes sent_bytes w1)
         | (x, w1) \<Rightarrow> (recast x, w1))
      else (Ret EXIT_SUCCESS, w))"
  by pat_completeness auto

lemma os_select_sel_evs: "os_select w = (Ret e, w1) \<Longrightarrow> sel_evs w = e # sel_evs w1"
  by (auto simp: os_select_def split: list.splits)

lemma os_send_sel_evs: "os_send s bs w = (x, w1) \<Longrightarrow> sel_evs w1 = sel_evs w"
  by (auto simp: os_send_def split: list.splits snd_ev.splits if_splits)

termination send_loop
proof (relation "measure (\<lambda>(buf, off, s, bytes, sent, w). length (sel_evs w))")
qed (auto dest!: sym [of "(_, _)" "os_select _"] sym [of "(_, _)" "os_send _ _ _"]
  os_select_sel_evs os_send_sel_evs)

declare send_loop.simps [simp del]

definition send_bytes ::
  "byte list \<Rightarrow> nat \<Rightarrow> fd \<Rightarrow> u64 \<Rightarrow> ('z net_scheme, int) prog" where
  "send_bytes buf off write_socket bytes = send_loop buf off write_socket bytes 0"

section \<open>send\_path and load\_path\<close>

text \<open>The loop of \<^verbatim>\<open>send_path\<close> sends \<open>BUFFERSIZE\<close> bytes from every multiple of
  \<open>BUFFERSIZE - 1\<close>; \<^verbatim>\<open>%\<close> and \<^verbatim>\<open>/\<close> truncate towards zero.\<close>

fun send_path_blocks ::
  "byte list \<Rightarrow> fd \<Rightarrow> nat \<Rightarrow> nat \<Rightarrow> ('z net_scheme, int) prog" where
  "send_path_blocks path write_socket i 0 = retM EXIT_SUCCESS"
| "send_path_blocks path write_socket i (Suc n) =
     bindM (send_bytes path ((BUFFERSIZE - 1) * i) write_socket (of_nat BUFFERSIZE)) (\<lambda>error.
       if error \<noteq> EXIT_SUCCESS then retM error
       else send_path_blocks path write_socket (Suc i) n)"

definition send_path :: "byte list \<Rightarrow> fd \<Rightarrow> int \<Rightarrow> ('z net_scheme, int) prog" where
  "send_path path write_socket len =
     (let remaining_bytes = len smod int (BUFFERSIZE - 1) in
      bindM (send_path_blocks path write_socket 0 (nat (len sdiv int (BUFFERSIZE - 1)))) (\<lambda>error.
        if error \<noteq> EXIT_SUCCESS then retM error
        else if remaining_bytes \<noteq> 0
          then bindM (send_bytes path (nat (len - remaining_bytes)) write_socket
                 (word_of_int remaining_bytes)) (\<lambda>error.
               if error \<noteq> EXIT_SUCCESS then retM error else retM EXIT_SUCCESS)
        else retM EXIT_SUCCESS))"

definition load_path ::
  "int \<Rightarrow> fd \<Rightarrow> byte list \<Rightarrow> nat \<Rightarrow> ('z net_scheme, int \<times> byte list) prog" where
  "load_path path_len sock path off =
     (if path_len > int PATH_MAX then retM (FILE_ERROR, path)
      else recv_bytes path off sock (word_of_int path_len))"

section \<open>send\_message and receive\_message\<close>

text \<open>The text is copied behind a two byte header into \<^verbatim>\<open>message_buf[MESSAGE_BUFFERSIZE]\<close>; the
  length byte is what \<^verbatim>\<open>(unsigned char) message_len\<close> keeps of the total length.\<close>

definition message_frame :: "byte \<Rightarrow> byte list \<Rightarrow> byte list option" where
  "message_frame message_flag message =
     (case strnlen message MESSAGE_BUFFERSIZE of
        None \<Rightarrow> None
      | Some message_len \<Rightarrow>
          (if message_len = 0 then Some [byte_of 2, message_flag]
           else
             (case buf_read message 0 (message_len + 1) of
                None \<Rightarrow> None
              | Some body \<Rightarrow>
                  (if 2 + length body \<le> MESSAGE_BUFFERSIZE
                     then Some (byte_of (message_len + 3) # message_flag # body)
                   else None))))"

definition send_message :: "fd \<Rightarrow> byte \<Rightarrow> byte list \<Rightarrow> ('z net_scheme, int) prog" where
  "send_message sock message_flag message =
     bindM (orUb (message_frame message_flag message)) (\<lambda>message_buf.
     bindM (os_send sock message_buf) (\<lambda>r.
       if r = -1 then getM errno else retM EXIT_SUCCESS))"

text \<open>The flag is stored once the header is there; the caller's \<open>message\<close> array keeps its old bytes
  where the message brings none.\<close>

definition receive_message ::
  "fd \<Rightarrow> byte \<Rightarrow> byte list \<Rightarrow> ('z net_scheme, int \<times> byte \<times> byte list) prog" where
  "receive_message sock message_flag message =
     bindM (recv_bytes [NUL, as_char ACK_ERROR] 0 sock 2) (\<lambda>(error, header).
       if error \<noteq> EXIT_SUCCESS then retM (error, message_flag, message)
       else
         (let message_flag' = header ! 1; message_len = int (nat_of (header ! 0)) in
          if message_len = 0 then retM (SOCKET_CLOSED, message_flag', message)
          else if message_len - 2 > 0
            then bindM (recv_bytes message 0 sock (word_of_int (message_len - 2))) (\<lambda>(error, message').
              if error \<noteq> EXIT_SUCCESS then retM (error, message_flag', message')
              else retM (EXIT_SUCCESS, message_flag', message'))
          else retM (EXIT_SUCCESS, message_flag', message)))"

section \<open>What send\_bytes hands to the kernel\<close>

text \<open>Whatever the script of results: the bytes handed over are a prefix of the bytes to send, and
  all of them when the call reports success.\<close>

definition handed :: "fd \<Rightarrow> byte list \<Rightarrow> 'y net_scheme \<Rightarrow> 'z net_scheme \<Rightarrow> bool" where
  "handed s bs w w' \<longleftrightarrow> tx w' = (tx w)(s := tx w s @ bs)"

lemma handed_simps [simp]:
  "handed s [] w w"
  "handed s bs (w\<lparr>sel_evs := es\<rparr>) w' = handed s bs w w'"
  by (simp_all add: handed_def fun_upd_idem)

lemma handed_none: "tx v = tx w \<Longrightarrow> handed s [] w v"
  by (simp add: handed_def fun_upd_idem)

lemma handed_same: "tx v = tx w \<Longrightarrow> handed s bs v w' = handed s bs w w'"
  by (simp add: handed_def)

lemma handed_trans: "handed s bs w v \<Longrightarrow> handed s ds v u \<Longrightarrow> handed s (bs @ ds) w u"
  by (simp add: handed_def)

lemma handed_sent: "handed s bs w (sent s bs w)"
  by (simp add: handed_def sent_def)

definition part_sent :: "byte list \<Rightarrow> fd \<Rightarrow> int result \<Rightarrow> 'y net_scheme \<Rightarrow> 'z net_scheme \<Rightarrow> bool" where
  "part_sent bs s r w w' \<longleftrightarrow>
     (\<exists>k. handed s (take k bs) w w') \<and> (r = Ret EXIT_SUCCESS \<longrightarrow> handed s bs w w')"

lemma part_sent_none: "tx v = tx w \<Longrightarrow> r \<noteq> Ret EXIT_SUCCESS \<Longrightarrow> part_sent bs s r w v"
proof -
  assume "tx v = tx w" and "r \<noteq> Ret EXIT_SUCCESS"
  then have "handed s (take 0 bs) w v" by (simp add: handed_none)
  with \<open>r \<noteq> Ret EXIT_SUCCESS\<close> show ?thesis unfolding part_sent_def by blast
qed

lemma part_sent_same: "tx v = tx w \<Longrightarrow> part_sent bs s r v w' = part_sent bs s r w w'"
  by (simp add: part_sent_def handed_def)

lemma part_sent_prefix:
  assumes "handed s bs w v" and "part_sent ds s r v w'"
  shows "part_sent (bs @ ds) s r w w'"
proof -
  from assms(2) obtain k where "handed s (take k ds) v w'" by (auto simp: part_sent_def)
  then have "handed s (take (length bs + k) (bs @ ds)) w w'"
    using handed_trans [OF assms(1)] by simp
  moreover have "handed s (bs @ ds) w w'" if "r = Ret EXIT_SUCCESS"
    using assms that by (auto simp: part_sent_def intro: handed_trans)
  ultimately show ?thesis
    unfolding part_sent_def by blast
qed

text \<open>One round of the loop, outcome by outcome.\<close>

lemma send_loop_done: "send_loop buf off s bytes bytes w = (Ret EXIT_SUCCESS, w)"
  by (simp add: send_loop.simps [of buf])

lemma send_loop_wait:
  "sent_bytes < bytes \<Longrightarrow> sel_evs w = [] \<Longrightarrow> send_loop buf off s bytes sent_bytes w = (Block, w)"
  by (simp add: send_loop.simps [of buf] os_select_def)

lemma send_loop_not_ready:
  assumes "sent_bytes < bytes" and "sel_evs w = e # es" and "\<not> sel_write e"
  shows "send_loop buf off s bytes sent_bytes w =
    (if sel_ret e = - 1 then (Ret EXIT_FAILURE, w\<lparr>sel_evs := es\<rparr>)
     else send_loop buf off s bytes sent_bytes (w\<lparr>sel_evs := es\<rparr>))"
  using assms by (subst send_loop.simps) (simp add: os_select_def)

lemma send_loop_overrun:
  assumes "sent_bytes < bytes" and "sel_evs w = e # es" and "sel_write e"
    and "length buf < off + unat bytes"
  shows "send_loop buf off s bytes sent_bytes w = (Ub, w\<lparr>sel_evs := es\<rparr>)"
proof -
  have "unat bytes - unat sent_bytes \<noteq> 0" "off + unat sent_bytes + (unat bytes - unat sent_bytes) = off + unat bytes"
    using assms(1) by (simp_all add: word_less_nat_alt)
  then show ?thesis
    using assms by (subst send_loop.simps) (simp add: os_select_def buf_read_def unat_minus_le)
qed

lemma send_loop_round:
  assumes "sent_bytes < bytes" and "sel_evs w = e # es" and "sel_write e"
    and "off + unat bytes \<le> length buf"
    and "os_send s (take (unat (bytes - sent_bytes)) (drop (off + unat sent_bytes) buf))
      (w\<lparr>sel_evs := es\<rparr>) = (x, w2)"
  shows "send_loop buf off s bytes sent_bytes w =
    (case x of
       Ret r \<Rightarrow>
         (let n = (word_of_int r :: u64) in
          if n < 1 \<and> errno w2 = EWOULDBLOCK then send_loop buf off s bytes sent_bytes w2
          else if n = -1 then (Ret SOCKET_CLOSED, w2)
          else send_loop buf off s bytes (sent_bytes + n) w2)
     | _ \<Rightarrow> (recast x, w2))"
proof -
  have "off + unat sent_bytes + unat (bytes - sent_bytes) \<le> length buf"
    using assms(1,4) by (simp add: unat_minus_le word_less_nat_alt word_le_nat_alt)
  then show ?thesis
    using assms by (subst send_loop.simps) (simp add: os_select_def buf_read_Some split: result.splits)
qed

lemma take_rest:
  assumes "k \<le> m"
  shows "take k (take m (drop i buf)) @ take (m - k) (drop (i + k) buf) = take m (drop i buf)"
  using assms take_take_drop [of k "drop i buf" "m - k"] by (simp add: min_def add.commute)

lemma os_send_results:
  assumes "os_send s bs w = (x, w2)"
  obtains (killed) "x = Killed" "tx w2 = tx w" | (failed) "x = Ret (- 1)" "tx w2 = tx w"
  | (took) k where "k \<le> length bs" "x = Ret (int k)" "handed s (take k bs) w w2"
proof (cases "\<exists>n. x = Ret n")
  case True
  then show ?thesis using os_send_Ret [of s bs w _ w2] assms that(2,3) by (auto simp: handed_def)
next
  case False
  with assms have "x = Killed \<and> tx w2 = tx w"
    by (auto simp: os_send_def split: list.splits snd_ev.splits if_splits)
  then show ?thesis using that(1) by blast
qed

lemma send_loop_part_sent:
  assumes "send_loop buf off s bytes sent_bytes w = (r, w')" and "sent_bytes \<le> bytes"
  shows "part_sent (take (unat (bytes - sent_bytes)) (drop (off + unat sent_bytes) buf)) s r w w'"
  using assms
proof (induction "length (sel_evs w)" arbitrary: sent_bytes w r w' rule: less_induct)
  case less
  let ?m = "unat (bytes - sent_bytes)"
  let ?rest = "take ?m (drop (off + unat sent_bytes) buf)"
  have again: "part_sent ?rest s r w w'"
    if "send_loop buf off s bytes sent_bytes v = (r, w')" "tx v = tx w"
      "length (sel_evs v) < length (sel_evs w)" for v
    using less.hyps [OF that(3,1) less.prems(2)] part_sent_same [OF that(2)] by blast
  have waiting: "part_sent ?rest s (Block :: int result) w w" by (rule part_sent_none) simp_all
  show ?case
  proof (cases "sent_bytes = bytes \<or> sel_evs w = []")
    case True
    with less.prems waiting show ?thesis
      by (cases "sent_bytes = bytes")
        (auto simp: send_loop_done part_sent_def order_le_less send_loop_wait)
  next
    case False
    with less.prems(2) obtain e es where lt: "sent_bytes < bytes" and ev: "sel_evs w = e # es"
      by (cases "sel_evs w") (auto simp: order_le_less)
    show ?thesis
    proof (cases "sel_write e \<and> off + unat bytes \<le> length buf")
      case False
      then show ?thesis
        using less.prems(1) again [of "w\<lparr>sel_evs := es\<rparr>"] ev
        by (cases "sel_write e")
          (auto simp: send_loop_overrun [OF lt ev] send_loop_not_ready [OF lt ev] return_codes
            intro!: part_sent_none split: if_splits)
    next
      case True
      obtain x w2 where snd: "os_send s ?rest (w\<lparr>sel_evs := es\<rparr>) = (x, w2)" by fastforce
      note round = send_loop_round [OF lt ev conjunct1 [OF True] conjunct2 [OF True] snd]
      have evs: "length (sel_evs w2) < length (sel_evs w)" using os_send_sel_evs [OF snd] ev by simp
      from snd show ?thesis
      proof (cases rule: os_send_results)
        case (took k)
        let ?n = "word_of_int (int k) :: u64"
        have k: "k \<le> ?m" and tk: "handed s (take k ?rest) w w2" using took by simp_all
        note adv = counter_advance [OF lt k]
        consider (block) "?n < 1" "errno w2 = EWOULDBLOCK" | (stop) "r = Ret SOCKET_CLOSED" "w' = w2"
          | (go) "send_loop buf off s bytes (sent_bytes + ?n) w2 = (r, w')"
          using round less.prems(1) took(2) by (auto simp: Let_def split: if_splits)
        then show ?thesis
        proof cases
          case block
          then have "k = 0" using word_of_int_count_0 [OF k] by (simp add: word_less_1)
          with block round took(2) less.prems(1) tk show ?thesis
            by (auto simp: handed_def fun_upd_idem intro: again [OF _ _ evs])
        next
          case stop
          then show ?thesis using tk unfolding part_sent_def
            by (auto simp: return_codes intro!: exI [of _ "min k ?m"])
        next
          case go
          from less.hyps [OF evs go adv(2)]
          have "part_sent (take (?m - k) (drop (off + unat sent_bytes + k) buf)) s r w2 w'"
            by (simp only: adv add.assoc)
          from part_sent_prefix [OF tk this] show ?thesis by (simp only: take_rest [OF k])
        qed
      qed (use round less.prems(1) in \<open>auto simp: return_codes intro!: part_sent_none\<close>)
    qed
  qed
qed

text \<open>With a socket that takes at least one byte whenever it is reported writable, as many rounds
  as there are bytes are enough.\<close>

fun takes_some :: "snd_ev \<Rightarrow> bool" where
  "takes_some (SOk k) = (0 < k)"
| "takes_some (SErr e) = False"

lemma os_send_takes_some:
  assumes "list_all takes_some (snd_evs w)" and "bs \<noteq> []"
  obtains k w' where "os_send s bs w = (Ret (int k), w')" "0 < k" "k \<le> length bs"
    "list_all takes_some (snd_evs w')"
proof (cases "snd_evs w")
  case Nil
  then have "os_send s bs w = (Ret (int (length bs)), sent s bs w)" by (rule os_send_ideal)
  then show ?thesis by (rule that) (use assms Nil in simp_all)
next
  case (Cons e es)
  with assms(1) obtain k where "e = SOk k" "0 < k" by (cases e) auto
  with Cons have "os_send s bs w =
      (Ret (int (min k (length bs))), w\<lparr>tx := (tx w)(s := tx w s @ take k bs), snd_evs := es\<rparr>)"
    by (simp add: os_send_def)
  then show ?thesis by (rule that) (use assms Cons \<open>0 < k\<close> in simp_all)
qed

lemma send_loop_live:
  assumes "sent_bytes \<le> bytes" and "off + unat bytes \<le> length buf" and "bytes \<noteq> - 1"
    and "list_all takes_some (snd_evs w)" and "list_all sel_write (sel_evs w)"
    and "unat (bytes - sent_bytes) \<le> length (sel_evs w)"
  shows "fst (send_loop buf off s bytes sent_bytes w) = Ret EXIT_SUCCESS"
  using assms
proof (induction "length (sel_evs w)" arbitrary: sent_bytes w rule: less_induct)
  case less
  show ?case
  proof (cases "sent_bytes = bytes")
    case True
    then show ?thesis by (simp add: send_loop_done)
  next
    case False
    with less.prems(1) have lt: "sent_bytes < bytes" by simp
    let ?m = "unat (bytes - sent_bytes)"
    let ?rest = "take ?m (drop (off + unat sent_bytes) buf)"
    have m: "0 < ?m" using lt by (simp add: unat_gt_0)
    with less.prems(6) obtain e es where ev: "sel_evs w = e # es"
      by (cases "sel_evs w") auto
    with less.prems(5) have wr: "sel_write e" by simp
    have len: "length ?rest = ?m"
      using less.prems(2) lt by (simp add: unat_minus_le word_less_nat_alt word_le_nat_alt)
    have acc: "list_all takes_some (snd_evs (w\<lparr>sel_evs := es\<rparr>))" using less.prems(4) by simp
    have "?rest \<noteq> []" using m len by (metis list.size(3) less_numeral_extra(3))
    from os_send_takes_some [OF acc this, of s] obtain k w2
      where snd: "os_send s ?rest (w\<lparr>sel_evs := es\<rparr>) = (Ret (int k), w2)"
        and k: "0 < k" "k \<le> ?m" and acc2: "list_all takes_some (snd_evs w2)"
      unfolding len by metis
    have evs: "sel_evs w2 = es" using os_send_sel_evs [OF snd] by simp
    note adv = counter_advance [OF lt k(2)]
    have "k \<le> unat bytes" using k(2) lt by (simp add: unat_minus_le)
    then have "(word_of_int (int k) :: u64) \<noteq> - 1" "(word_of_int (int k) :: u64) \<noteq> 0"
      using k word_of_int_count_minus_one [OF _ less.prems(3)] word_of_int_count_0 [OF k(2)] by auto
    then have "send_loop buf off s bytes sent_bytes w =
        send_loop buf off s bytes (sent_bytes + word_of_int (int k)) w2"
      using send_loop_round [OF lt ev wr less.prems(2) snd] by (simp add: word_less_1)
    moreover have "fst (send_loop buf off s bytes (sent_bytes + word_of_int (int k)) w2) = Ret EXIT_SUCCESS"
      using less.hyps [of w2] evs ev less.prems adv acc2 k by simp
    ultimately show ?thesis by simp
  qed
qed

text \<open>On a socket that takes everything at once, one round does.\<close>

lemma send_bytes_ideal [exec]:
  assumes "snd_evs w = []" and "sel_evs w = e # es" and "sel_write e" and "0 < bytes"
    and "bytes \<noteq> - 1" and "off + unat bytes \<le> length buf"
  shows "send_bytes buf off s bytes w =
    (Ret EXIT_SUCCESS, sent s (take (unat bytes) (drop off buf)) (w\<lparr>sel_evs := es\<rparr>))"
proof -
  let ?rest = "take (unat bytes) (drop off buf)"
  have len: "length ?rest = unat bytes" using assms(6) by simp
  have "os_send s ?rest (w\<lparr>sel_evs := es\<rparr>) =
      (Ret (int (unat bytes)), sent s ?rest (w\<lparr>sel_evs := es\<rparr>))"
    using assms(1) len os_send_ideal [of "w\<lparr>sel_evs := es\<rparr>" s ?rest] by simp
  moreover have "(word_of_int (int (unat bytes)) :: u64) = bytes" by simp
  ultimately show ?thesis
    using assms send_loop_round [of 0 bytes w e es off buf s]
    by (auto simp: send_bytes_def send_loop_done word_less_1)
qed

lemma send_bytes_nothing [simp]: "send_bytes buf off s 0 w = (Ret EXIT_SUCCESS, w)"
  by (simp add: send_bytes_def send_loop_done)

text \<open>A full socket buffer is an error to the code, not a reason to try again.\<close>

lemma send_bytes_would_block:
  assumes "sel_evs w = e # es" and "sel_write e" and "snd_evs w = SErr EWOULDBLOCK # fs"
    and "0 < bytes" and "off + unat bytes \<le> length buf"
  shows "fst (send_bytes buf off s bytes w) = Ret SOCKET_CLOSED"
proof -
  have "os_send s (take (unat bytes) (drop off buf)) (w\<lparr>sel_evs := es\<rparr>) =
      (Ret (- 1), w\<lparr>sel_evs := es, snd_evs := fs, errno := EWOULDBLOCK\<rparr>)"
    using assms by (simp add: os_send_def EWOULDBLOCK_def EPIPE_def)
  then show ?thesis
    using assms send_loop_round [of 0 bytes w e es off buf s] by (simp add: send_bytes_def)
qed

section \<open>Paths\<close>

text \<open>A path shorter than the buffer goes out in one piece.\<close>

lemma send_path_short:
  assumes "0 \<le> len" and "len < int BUFFERSIZE - 1"
  shows "send_path path s len = send_bytes path 0 s (word_of_int len)"
proof -
  have "len smod int (BUFFERSIZE - 1) = len" "len sdiv int (BUFFERSIZE - 1) = 0"
    using assms by (cases "len = 0";
      auto simp: BUFFERSIZE_def smod_int_alt_def signed_divide_int_def sgn_1_pos)+
  then show ?thesis
    by (auto simp: send_path_def fun_eq_iff bindM_def Let_def send_bytes_def send_loop_done
        split: prod.splits result.splits)
qed

lemma word_of_path_len: "0 \<le> len \<Longrightarrow> len \<le> 4096 \<Longrightarrow> unat (word_of_int len :: u64) = nat len"
proof -
  assume "0 \<le> len" and "len \<le> 4096"
  obtain n where "len = int n" using zero_le_imp_eq_int [OF \<open>0 \<le> len\<close>] by blast
  with \<open>len \<le> 4096\<close> show ?thesis by (simp add: unat_of_nat take_bit_eq_mod)
qed

lemma load_path_ok [exec]:
  assumes "0 \<le> len" and "len \<le> int PATH_MAX" and "off + nat len \<le> length path"
    and "nat len \<le> length (avail s w)"
  shows "load_path len s path off w =
    (Ret (EXIT_SUCCESS, patched path off (take (nat len) (avail s w))), consume s (nat len) w)"
  using assms recv_bytes_ok [of off "word_of_int len" path s w]
  by (simp add: load_path_def PATH_MAX_def word_of_path_len)

lemma load_path_too_long [exec]:
  "int PATH_MAX < len \<Longrightarrow> load_path len s path off w = (Ret (FILE_ERROR, path), w)"
  by (simp add: load_path_def)

section \<open>Messages on the wire\<close>

text \<open>The format: total length, flag, text (with its NUL when there is one).\<close>

definition enc_message :: "byte \<times> byte list \<Rightarrow> byte list" where
  "enc_message m = (case m of (flag, body) \<Rightarrow> byte_of (length body + 2) # flag # body)"

definition dec_message :: "byte list \<Rightarrow> ((byte \<times> byte list) \<times> byte list) option" where
  "dec_message bs =
     (case bs of
        l # flag # rest \<Rightarrow>
          (if nat_of l \<noteq> 0 \<and> nat_of l - 2 \<le> length rest
           then Some ((flag, take (nat_of l - 2) rest), drop (nat_of l - 2) rest)
           else None)
      | _ \<Rightarrow> None)"

definition valid_message :: "byte \<times> byte list \<Rightarrow> bool" where
  "valid_message m \<longleftrightarrow> length (snd m) + 2 < 256"

interpretation messages: prefix_codec valid_message enc_message dec_message
  by unfold_locales (auto simp: valid_message_def enc_message_def dec_message_def)

text \<open>The body that \<^verbatim>\<open>send_message\<close> puts behind the header for a text.\<close>

definition text_body :: "byte list \<Rightarrow> byte list" where
  "text_body t = (if t = [] then [] else t @ [NUL])"

lemma message_frame_text:
  assumes "c_str message = Some t" and "length t \<le> 252"
  shows "message_frame flag message = Some (enc_message (flag, text_body t))"
proof -
  obtain rest where m: "message = t @ NUL # rest" using c_str_split [OF assms(1)] by blast
  have "strnlen message MESSAGE_BUFFERSIZE = Some (length t)"
    using strnlen_c_str [OF assms(1)] assms(2) by (simp add: MESSAGE_BUFFERSIZE_def)
  then show ?thesis
    using assms(2) m
    by (simp add: message_frame_def enc_message_def text_body_def buf_read_Some MESSAGE_BUFFERSIZE_def
        numeral_eq_Suc)
qed

lemma message_frame_too_long:
  assumes "c_str message = Some t" and "252 < length t"
  shows "message_frame flag message = None"
proof -
  obtain rest where m: "message = t @ NUL # rest" using c_str_split [OF assms(1)] by blast
  have "strnlen message MESSAGE_BUFFERSIZE = Some (min (length t) 255)"
    using strnlen_c_str [OF assms(1)] by (simp add: MESSAGE_BUFFERSIZE_def)
  moreover have "buf_read message 0 (min (length t) 255 + 1) = Some (take (min (length t) 255 + 1) message)"
    using m assms(2) by (subst buf_read_Some) simp_all
  ultimately show ?thesis
    using assms(2) m by (auto simp: message_frame_def MESSAGE_BUFFERSIZE_def)
qed

lemma send_message_ideal [exec]:
  assumes "snd_evs w = []" and "c_str message = Some t" and "length t \<le> 252"
  shows "send_message s flag message w =
    (Ret EXIT_SUCCESS, sent s (enc_message (flag, text_body t)) w)"
  using assms(1)
  by (simp add: send_message_def message_frame_text [OF assms(2,3)] bindM_def os_send_ideal)

lemma receive_message_spec [exec]:
  assumes "dec_message (avail s w) = Some ((flag, body), rest)" and "length body \<le> length message"
  shows "receive_message s flag0 message w =
    (Ret (EXIT_SUCCESS, flag, patched message 0 body), consume s (2 + length body) w)"
proof -
  from assms(1) obtain l tail where a: "avail s w = l # flag # tail" "nat_of l \<noteq> 0"
    and body: "nat_of l - 2 \<le> length tail" "body = take (nat_of l - 2) tail"
    by (auto simp: dec_message_def split: list.splits if_splits)
  have hdr: "recv_bytes [NUL, as_char ACK_ERROR] 0 s 2 w = (Ret (EXIT_SUCCESS, [l, flag]), consume s 2 w)"
    using a by (simp add: recv_bytes_ok patched_0)
  have len: "length body = nat_of l - 2" using body by simp
  have big: "unat (word_of_int (int (nat_of l) - 2) :: u64) = length body" if "2 < nat_of l"
  proof -
    have "int (nat_of l) - 2 \<le> 4096" using nat_of_less [of l] by linarith
    then show ?thesis by (subst word_of_path_len) (use that len in simp_all)
  qed
  have after: "avail s (consume s 2 w) = tail" using a by simp
  show ?thesis
  proof (cases "2 < nat_of l")
    case True
    then have "recv_bytes message 0 s (word_of_int (int (nat_of l) - 2)) (consume s 2 w) =
        (Ret (EXIT_SUCCESS, patched message 0 body), consume s (length body) (consume s 2 w))"
      using assms(2) big len body after recv_bytes_ok [of 0 "word_of_int (int (nat_of l) - 2)" message s "consume s 2 w"]
      by simp
    then show ?thesis
      using True a body len
      by (simp add: receive_message_def bindM_def hdr consume_consume)
  next
    case False
    then have "body = []" using len by simp
    with False a show ?thesis
      by (simp add: receive_message_def bindM_def hdr)
  qed
qed

text \<open>A connection that closes before a header arrives; nothing of the caller's is touched.\<close>

lemma receive_message_closed:
  assumes "length (avail s w) < 2" and "closes (rx w s)"
  shows "\<exists>w'. receive_message s flag message w = (Ret (SOCKET_CLOSED, flag, message), w')"
  using recv_bytes_short [of 0 2 "[NUL, as_char ACK_ERROR]" s w] assms
  by (auto simp: receive_message_def bindM_def return_codes)

text \<open>A \<^verbatim>\<open>recv\<close> that fails on the header leaves the length byte at its initial zero, which is then
  read as the peer having closed the connection, with the flag \<open>ACK_ERROR\<close>.\<close>

lemma receive_message_error:
  assumes "rx w s = RErr e # q"
  shows "receive_message s flag message w =
    (Ret (SOCKET_CLOSED, as_char ACK_ERROR, message), w\<lparr>rx := (rx w)(s := q)\<rparr>)"
  by (simp add: receive_message_def bindM_def recv_bytes_error_first [OF assms])

text \<open>A message has room for 253 bytes behind its header.\<close>

lemma message_taken:
  assumes "dec_message bs = Some ((flag, body), rest)"
  shows "2 + length body \<le> length bs" and "drop (2 + length body) bs = rest"
  using assms by (auto simp: dec_message_def split: list.splits if_splits)

lemma dec_message_body_le:
  "dec_message bs = Some ((flag, body), rest) \<Longrightarrow> length body \<le> 253"
proof -
  assume "dec_message bs = Some ((flag, body), rest)"
  then have "\<exists>l tail. take (nat_of l - 2) tail = body"
    by (auto simp: dec_message_def split: list.splits if_splits)
  then obtain l tail where "body = take (nat_of l - 2) tail" by metis
  then have "length body \<le> nat_of l - 2" by (metis length_take min.cobounded2)
  then show ?thesis using nat_of_less [of l] by linarith
qed

lemma receive_message_ret:
  "receive_message s flag m w = (Ret (e, flag', m'), w') \<Longrightarrow>
     length m' = length m \<and> (e = EXIT_SUCCESS \<or> e = SOCKET_CLOSED)"
  by (auto simp: receive_message_def bindM_eq_Ret Let_def split: if_splits dest!: recv_bytes_ret)

lemma receive_message_outcomes:
  "receive_message s flag m w = (r, w') \<Longrightarrow> r = Block \<or> r = Ub \<or> (\<exists>x. r = Ret x)"
  by (auto simp: receive_message_def recv_bytes_def bindM_def Let_def
      split: if_splits result.splits prod.splits dest!: recv_loop_outcomes)

section \<open>What the calls leave alone\<close>

text \<open>Receiving touches nothing but the queue of its descriptor, which never grows, and shrinks
  when bytes were wanted and the call reports success.\<close>

lemma q_recv_size: "q_recv n q = (x, q') \<Longrightarrow> q_size q' \<le> q_size q"
  by (induction n q rule: q_recv.induct) (auto split: if_splits)

lemma os_recv_frame:
  "os_recv s n w = (r, w') \<Longrightarrow> \<exists>q. w' = w\<lparr>rx := (rx w)(s := q)\<rparr> \<and> q_size q \<le> q_size (rx w s)"
  using q_recv_size [of n "rx w s"]
  by (auto simp: os_recv_def split: prod.splits option.splits)

lemma recv_loop_frame:
  "recv_loop buf off s bytes received w = (r, w') \<Longrightarrow>
     \<exists>q. w' = w\<lparr>rx := (rx w)(s := q)\<rparr> \<and> q_size q \<le> q_size (rx w s)"
proof (induction buf off s bytes received w arbitrary: r w' rule: recv_loop.induct)
  case (1 buf off s bytes received w)
  show ?case
  proof (cases "received < bytes")
    case False
    with "1.prems" have "w' = w\<lparr>rx := (rx w)(s := rx w s)\<rparr>" by (simp add: recv_loop.simps [of buf off])
    then show ?thesis by blast
  next
    case True
    obtain x w1 where run: "os_recv s (unat (bytes - received)) w = (x, w1)" by fastforce
    then obtain q where q: "w1 = w\<lparr>rx := (rx w)(s := q)\<rparr>" "q_size q \<le> q_size (rx w s)"
      using os_recv_frame by blast
    from run consider (wait) "x = Block" | (got) n bs where "x = Ret (n, bs)"
      by (auto simp: os_recv_def split: prod.splits option.splits)
    then show ?thesis
    proof cases
      case wait
      with True run "1.prems" have "w' = w1" by (simp add: recv_loop.simps [of buf off])
      then show ?thesis using q by blast
    next
      case got
      consider (stop) "w' = w1" | (go) buf' where
          "buf_write buf (off + unat received) bs = Some buf'" "(word_of_int n :: u64) \<noteq> 0"
          "recv_loop buf' off s bytes (received + word_of_int n) w1 = (r, w')"
        using True run got "1.prems"
        by (auto simp: recv_loop.simps [of buf off] Let_def split: option.splits if_splits)
      then show ?thesis
      proof cases
        case stop
        then show ?thesis using q by blast
      next
        case go
        from "1.IH" [OF True run [symmetric] got refl go(1) refl go(2) word_not_neg go(3)]
        obtain q' where "w' = w1\<lparr>rx := (rx w1)(s := q')\<rparr>" "q_size q' \<le> q_size (rx w1 s)" by blast
        with q have "w' = w\<lparr>rx := (rx w)(s := q')\<rparr>" "q_size q' \<le> q_size (rx w s)" by auto
        then show ?thesis by blast
      qed
    qed
  qed
qed

lemma recv_bytes_frame:
  "recv_bytes buf off s bytes w = (r, w') \<Longrightarrow>
     \<exists>q. w' = w\<lparr>rx := (rx w)(s := q)\<rparr> \<and> q_size q \<le> q_size (rx w s)"
  unfolding recv_bytes_def by (rule recv_loop_frame)

lemma recv_bytes_shrinks:
  assumes "recv_bytes buf off s bytes w = (Ret (EXIT_SUCCESS, buf'), w')" and "0 < bytes"
  shows "q_size (rx w' s) < q_size (rx w s)"
proof -
  obtain x w1 where run: "os_recv s (unat bytes) w = (x, w1)" by fastforce
  with assms obtain n bs b where x: "x = Ret (n, bs)"
    and n: "(word_of_int n :: u64) \<noteq> 0" and rest: "recv_loop b off s bytes (word_of_int n) w1 = (Ret (EXIT_SUCCESS, buf'), w')"
    by (auto simp: recv_bytes_def recv_loop.simps [of buf] Let_def return_codes
        split: result.splits option.splits prod.splits if_splits)
  have "n \<noteq> 0" using n by auto
  then have "q_size (rx w1 s) < q_size (rx w s)"
    using os_recv_smaller run x assms(2) by (metis unat_gt_0 word_gt_0)
  moreover have "q_size (rx w' s) \<le> q_size (rx w1 s)"
    using recv_loop_frame [OF rest] by auto
  ultimately show ?thesis by simp
qed

lemma receive_message_frame:
  assumes "receive_message s flag message w = (r, w')"
  shows "\<exists>q. w' = w\<lparr>rx := (rx w)(s := q)\<rparr> \<and> q_size q \<le> q_size (rx w s)"
proof -
  obtain x w1 where run: "recv_bytes [NUL, as_char ACK_ERROR] 0 s 2 w = (x, w1)" by fastforce
  then obtain q where q: "w1 = w\<lparr>rx := (rx w)(s := q)\<rparr>" "q_size q \<le> q_size (rx w s)"
    using recv_bytes_frame by blast
  consider (stop) "w' = w1" | (go) l x' where "recv_bytes message 0 s l w1 = (x', w')"
    using assms run
    by (auto simp: receive_message_def bindM_def Let_def split: result.splits prod.splits if_splits)
  then show ?thesis
  proof cases
    case stop
    then show ?thesis using q by blast
  next
    case go
    then obtain q' where "w' = w1\<lparr>rx := (rx w1)(s := q')\<rparr>" "q_size q' \<le> q_size (rx w1 s)"
      using recv_bytes_frame by blast
    with q have "w' = w\<lparr>rx := (rx w)(s := q')\<rparr>" "q_size q' \<le> q_size (rx w s)" by auto
    then show ?thesis by blast
  qed
qed

text \<open>Sending a message touches the output of its descriptor and the error number.\<close>

lemma os_send_frame:
  "os_send s bs w = (r, w') \<Longrightarrow> \<exists>t es e. w' = w\<lparr>tx := (tx w)(s := t), snd_evs := es, errno := e\<rparr>"
  by (auto simp: os_send_def split: list.splits snd_ev.splits if_splits)
    (metis fun_upd_triv net.surjective net.update_convs(2,3,6))+

lemma send_message_frame:
  assumes "send_message s flag message w = (r, w')"
  shows "\<exists>t es e. w' = w\<lparr>tx := (tx w)(s := t), snd_evs := es, errno := e\<rparr>"
proof -
  have idem: "\<exists>t es e. w = w\<lparr>tx := (tx w)(s := t), snd_evs := es, errno := e\<rparr>"
    by (rule exI [of _ "tx w s"], rule exI [of _ "snd_evs w"], rule exI [of _ "errno w"]) simp
  show ?thesis
    using assms idem os_send_frame [of s _ w]
    by (auto simp: send_message_def bindM_def orUb_def split: option.splits result.splits prod.splits if_splits)
qed

end
