(* ===== verification/Utlist.thy ===== *)
theory Utlist
  imports Prelude_LLNCP "HOL-Library.Monad_Syntax"
begin

text \<open>
  The doubly-linked list of half-open connections: \<^verbatim>\<open>struct el\<close> of \<^verbatim>\<open>src/server.h\<close> and the macros
  \<open>DL_APPEND\<close>, \<open>DL_DELETE\<close> and \<open>DL_SEARCH\<close> of \<^verbatim>\<open>src/libs/utlist.h\<close> that
  \<open>accept_connection\<close> uses, on an explicit heap.  A pointer is an optional address, and \<open>None\<close> as
  the result of an operation is a null or dangling dereference (for the search also a loop that
  does not end).  The list the macros maintain ends in NULL forwards, while the \<open>prev\<close> of the head
  is the tail.
\<close>

type_synonym addr = nat
type_synonym ptr = "addr option"
type_synonym sockaddr = "byte list"

record el =
  el_token :: "byte list"
  el_socket :: fd
  el_info :: sockaddr
  el_next :: ptr
  el_prev :: ptr

type_synonym el_heap = "addr \<Rightarrow> el option"

section \<open>The macros\<close>

definition set_next :: "ptr \<Rightarrow> ptr \<Rightarrow> el_heap \<Rightarrow> el_heap option" where
  "set_next p v h = do { a \<leftarrow> p; e \<leftarrow> h a; Some (h(a \<mapsto> e\<lparr>el_next := v\<rparr>)) }"

definition set_prev :: "ptr \<Rightarrow> ptr \<Rightarrow> el_heap \<Rightarrow> el_heap option" where
  "set_prev p v h = do { a \<leftarrow> p; e \<leftarrow> h a; Some (h(a \<mapsto> e\<lparr>el_prev := v\<rparr>)) }"

definition get_next :: "ptr \<Rightarrow> el_heap \<Rightarrow> ptr option" where
  "get_next p h = do { a \<leftarrow> p; e \<leftarrow> h a; Some (el_next e) }"

definition get_prev :: "ptr \<Rightarrow> el_heap \<Rightarrow> ptr option" where
  "get_prev p h = do { a \<leftarrow> p; e \<leftarrow> h a; Some (el_prev e) }"

definition dl_append :: "ptr \<Rightarrow> ptr \<Rightarrow> el_heap \<Rightarrow> (ptr \<times> el_heap) option" where
  "dl_append head add h =
     (if head \<noteq> None then do {
        p \<leftarrow> get_prev head h;
        h \<leftarrow> set_prev add p h;
        p \<leftarrow> get_prev head h;
        h \<leftarrow> set_next p add h;
        h \<leftarrow> set_prev head add h;
        h \<leftarrow> set_next add None h;
        Some (head, h)
      } else do {
        let head = add;
        h \<leftarrow> set_prev head head h;
        h \<leftarrow> set_next head None h;
        Some (head, h)
      })"

text \<open>A failing \<^verbatim>\<open>assert\<close> is \<open>None\<close> as well.\<close>

definition dl_delete :: "ptr \<Rightarrow> ptr \<Rightarrow> el_heap \<Rightarrow> (ptr \<times> el_heap) option" where
  "dl_delete head del h = do {
     p \<leftarrow> get_prev del h;
     if p = None then None
     else if p = del then Some (None, h)
     else if del = head then do {
       n \<leftarrow> get_next del h;
       h \<leftarrow> set_prev n p h;
       n \<leftarrow> get_next del h;
       Some (n, h)
     } else do {
       n \<leftarrow> get_next del h;
       h \<leftarrow> set_next p n h;
       n \<leftarrow> get_next del h;
       p \<leftarrow> get_prev del h;
       h \<leftarrow> (if n \<noteq> None then set_prev n p h else set_prev head p h);
       Some (head, h)
     }
   }"

text \<open>\<open>namecmp\<close> of \<^verbatim>\<open>src/server.c\<close>: are the tokens equal strings?\<close>

definition namecmp :: "el \<Rightarrow> el \<Rightarrow> bool option" where
  "namecmp a b = strcmp_eq (el_token a) (el_token b)"

partial_function (option) dl_search :: "ptr \<Rightarrow> el \<Rightarrow> el_heap \<Rightarrow> ptr option" where
  "dl_search out elt h =
     (case out of
        None \<Rightarrow> Some None
      | Some a \<Rightarrow>
          (case h a of
             None \<Rightarrow> None
           | Some e \<Rightarrow>
               (case namecmp e elt of
                  None \<Rightarrow> None
                | Some equal \<Rightarrow> if equal then Some (Some a) else dl_search (el_next e) elt h)))"

section \<open>The list on the heap\<close>

definition dl_list :: "el_heap \<Rightarrow> ptr \<Rightarrow> addr list \<Rightarrow> bool" where
  "dl_list h head xs \<longleftrightarrow>
     distinct xs \<and> head = (if xs = [] then None else Some (xs ! 0)) \<and>
     (\<forall>i < length xs. \<exists>e. h (xs ! i) = Some e \<and>
        el_prev e = Some (xs ! (if i = 0 then length xs - 1 else i - 1)) \<and>
        el_next e = (if Suc i < length xs then Some (xs ! Suc i) else None))"

text \<open>What the links do not touch.\<close>

definition el_data :: "el \<Rightarrow> byte list \<times> fd \<times> sockaddr" where
  "el_data e = (el_token e, el_socket e, el_info e)"

definition same_data :: "el_heap \<Rightarrow> el_heap \<Rightarrow> bool" where
  "same_data h h' \<longleftrightarrow> (\<forall>a. map_option el_data (h' a) = map_option el_data (h a))"

lemma same_data_refl [simp]: "same_data h h"
  by (simp add: same_data_def)

lemma same_data_links [simp]:
  "h a = Some e \<Longrightarrow> same_data h (h(a \<mapsto> e\<lparr>el_next := v\<rparr>))"
  "h a = Some e \<Longrightarrow> same_data h (h(a \<mapsto> e\<lparr>el_prev := v\<rparr>))"
  by (simp_all add: same_data_def el_data_def)

lemma same_data_trans: "same_data h k \<Longrightarrow> same_data k m \<Longrightarrow> same_data h m"
  by (simp add: same_data_def)

lemma set_same_data:
  "set_next p v h = Some h' \<Longrightarrow> same_data h h'" "set_prev p v h = Some h' \<Longrightarrow> same_data h h'"
  by (auto simp: set_next_def set_prev_def split: bind_splits)

lemma dl_append_same_data: "dl_append head add h = Some (head', h') \<Longrightarrow> same_data h h'"
  by (auto simp: dl_append_def split: bind_splits if_splits
      dest!: set_same_data intro: same_data_trans)

lemma dl_delete_same_data: "dl_delete head del h = Some (head', h') \<Longrightarrow> same_data h h'"
  by (auto simp: dl_delete_def split: bind_splits if_splits
      dest!: set_same_data intro: same_data_trans)

lemma dl_list_Nil [simp]: "dl_list h head [] \<longleftrightarrow> head = None"
  by (simp add: dl_list_def)

lemma dl_list_node:
  assumes "dl_list h head xs" and "i < length xs"
  obtains e where "h (xs ! i) = Some e"
    "el_prev e = Some (xs ! (if i = 0 then length xs - 1 else i - 1))"
    "el_next e = (if Suc i < length xs then Some (xs ! Suc i) else None)"
  using assms unfolding dl_list_def by blast

section \<open>DL\_APPEND\<close>

lemma dl_append_empty:
  assumes "h a = Some e"
  shows "\<exists>h'. dl_append None (Some a) h = Some (Some a, h') \<and> dl_list h' (Some a) [a]"
  using assms by (simp add: dl_append_def set_prev_def set_next_def dl_list_def Let_def)

lemma dl_append_cons:
  assumes l: "dl_list h head xs" and ne: "xs \<noteq> []" and new: "h a = Some e" "a \<notin> set xs"
  shows "\<exists>h'. dl_append head (Some a) h = Some (head, h') \<and> dl_list h' head (xs @ [a])"
proof -
  let ?n = "length xs"
  let ?f = "xs ! 0" and ?t = "xs ! (?n - 1)"
  have head: "head = Some ?f" and d: "distinct xs" using l ne by (auto simp: dl_list_def)
  obtain ef where ef: "h ?f = Some ef" "el_prev ef = Some ?t"
    using dl_list_node [OF l, of 0] ne by auto
  obtain et where et: "h ?t = Some et" "el_next et = None"
    using dl_list_node [OF l, of "?n - 1"] ne by auto
  have fresh: "a \<noteq> ?f" "a \<noteq> ?t" 
    using new(2) nth_mem [of 0 xs] nth_mem [of "?n - 1" xs] ne by auto
  let ?et' = "et\<lparr>el_next := Some a\<rparr>"
  let ?h2 = "h(a \<mapsto> e\<lparr>el_prev := Some ?t\<rparr>, ?t \<mapsto> ?et')"
  obtain ef' where ef': "?h2 ?f = Some ef'" "el_next ef' = (if ?f = ?t then Some a else el_next ef)"
    using ef fresh et by (cases "?f = ?t") auto
  let ?h' = "?h2(?f \<mapsto> ef'\<lparr>el_prev := Some a\<rparr>, a \<mapsto> e\<lparr>el_prev := Some ?t, el_next := None\<rparr>)"
  have run: "dl_append head (Some a) h = Some (head, ?h')"
    using new(1) ef et fresh ef'(1) unfolding head
    by (simp add: dl_append_def set_prev_def set_next_def get_prev_def)
  have "dl_list ?h' head (xs @ [a])"
    unfolding dl_list_def
  proof (intro conjI allI impI)
    fix i assume i: "i < length (xs @ [a])"
    show "\<exists>e. ?h' ((xs @ [a]) ! i) = Some e \<and>
        el_prev e = Some ((xs @ [a]) ! (if i = 0 then length (xs @ [a]) - 1 else i - 1)) \<and>
        el_next e = (if Suc i < length (xs @ [a]) then Some ((xs @ [a]) ! Suc i) else None)"
    proof (cases "i = ?n")
      case True
      then show ?thesis using ne by (auto simp: nth_append)
    next
      case False
      with i have i: "i < ?n" by simp
      obtain ei where ei: "h (xs ! i) = Some ei"
        "el_prev ei = Some (xs ! (if i = 0 then ?n - 1 else i - 1))"
        "el_next ei = (if Suc i < ?n then Some (xs ! Suc i) else None)"
        using dl_list_node [OF l i] by blast
      have "xs ! i \<noteq> a" using new(2) i by auto
      moreover have pos: "0 < ?n" using ne by simp
      moreover from pos have ix: "xs ! i = ?f \<longleftrightarrow> i = 0" "xs ! i = ?t \<longleftrightarrow> i = ?n - 1" "?f = ?t \<longleftrightarrow> ?n = 1"
        using d i by (auto simp: nth_eq_iff_index_eq)
      ultimately have node: "?h' (xs ! i) =
          Some (if i = 0 then ef'\<lparr>el_prev := Some a\<rparr> else if i = ?n - 1 then ?et' else ei)"
        using ei(1) by simp
      have same: "i = 0 \<Longrightarrow> ei = ef" "i = ?n - 1 \<Longrightarrow> ei = et" using ei(1) ef(1) et(1) by auto
      have "i \<noteq> ?n - 1 \<Longrightarrow> Suc i < ?n" "i - 1 < ?n" using i by auto
      then show ?thesis
        unfolding nth_append using i node ix(3) same ei(2,3) ef'(2) pos
        by (cases "i = 0"; cases "i = ?n - 1"; simp)
    qed
  qed (use d new(2) head ne in \<open>auto simp: nth_append\<close>)
  with run show ?thesis by blast
qed

section \<open>DL\_DELETE\<close>

definition without :: "nat \<Rightarrow> 'a list \<Rightarrow> 'a list" where
  "without k xs = take k xs @ drop (Suc k) xs"

lemma length_without [simp]: "k < length xs \<Longrightarrow> length (without k xs) = length xs - 1"
  by (simp add: without_def)

lemma nth_without:
  "k < length xs \<Longrightarrow> j < length xs - 1 \<Longrightarrow> without k xs ! j = xs ! (if j < k then j else Suc j)"
  by (simp add: without_def nth_append min_def)

lemma set_without: "set (without k xs) \<subseteq> set xs"
  by (auto simp: without_def dest: in_set_takeD in_set_dropD)

lemma distinct_without: "distinct xs \<Longrightarrow> distinct (without k xs)"
  using set_take_disj_set_drop_if_distinct [of xs k "Suc k"] by (auto simp: without_def)

lemma without_remove1: "distinct xs \<Longrightarrow> k < length xs \<Longrightarrow> without k xs = remove1 (xs ! k) xs"
proof -
  assume d: "distinct xs" and k: "k < length xs"
  have "xs = take k xs @ xs ! k # drop (Suc k) xs" using k by (rule id_take_nth_drop)
  moreover have "xs ! k \<notin> set (take k xs)"
    using d k by (auto simp: in_set_conv_nth nth_eq_iff_index_eq)
  ultimately show ?thesis
    unfolding without_def by (metis remove1_append remove1.simps(2))
qed

text \<open>The neighbours of node \<open>i\<close> once node \<open>k\<close> is gone, by their index in the old list.\<close>

definition succ_skip :: "nat \<Rightarrow> nat \<Rightarrow> nat" where
  "succ_skip k i = (if Suc i = k then Suc k else Suc i)"

definition pred_skip :: "nat \<Rightarrow> nat \<Rightarrow> nat \<Rightarrow> nat" where
  "pred_skip n k i =
     (let p = (if i = 0 then n - 1 else i - 1) in
      if p = k then (if k = 0 then n - 1 else k - 1) else p)"

lemma dl_list_without:
  assumes "distinct xs" and k: "k < length xs"
    and nodes: "\<And>i. i < length xs \<Longrightarrow> i \<noteq> k \<Longrightarrow> \<exists>e. h (xs ! i) = Some e \<and>
      el_prev e = Some (xs ! pred_skip (length xs) k i) \<and>
      el_next e = (if succ_skip k i < length xs then Some (xs ! succ_skip k i) else None)"
  shows "dl_list h (if length xs = 1 then None else Some (xs ! (if k = 0 then 1 else 0))) (without k xs)"
  unfolding dl_list_def
proof (intro conjI allI impI)
  show "(if length xs = 1 then None else Some (xs ! (if k = 0 then 1 else 0))) =
      (if without k xs = [] then None else Some (without k xs ! 0))"
  proof (cases "length xs = 1")
    case True
    with k show ?thesis by (simp add: without_def)
  next
    case False
    with k have "0 < length xs - 1" by simp
    then have "without k xs \<noteq> []" using length_without [OF k] by force
    then show ?thesis using False k by (auto simp: nth_without)
  qed
next
  fix j assume "j < length (without k xs)"
  then have j: "j < length xs - 1" using k by simp
  let ?i = "if j < k then j else Suc j"
  have i: "?i < length xs" "?i \<noteq> k" using j k by auto
  have p: "without k xs ! (if j = 0 then length (without k xs) - 1 else j - 1) = xs ! pred_skip (length xs) k ?i"
  proof -
    let ?q = "if j = 0 then length (without k xs) - 1 else j - 1"
    have "?q < length xs - 1" "(if ?q < k then ?q else Suc ?q) = pred_skip (length xs) k ?i"
      using j k by (auto simp: pred_skip_def Let_def)
    then show ?thesis using k by (simp only: nth_without)
  qed
  have s: "(if Suc j < length (without k xs) then Some (without k xs ! Suc j) else None) =
      (if succ_skip k ?i < length xs then Some (xs ! succ_skip k ?i) else None)"
    using j k by (auto simp: nth_without succ_skip_def)
  show "\<exists>e. h (without k xs ! j) = Some e \<and>
      el_prev e = Some (without k xs ! (if j = 0 then length (without k xs) - 1 else j - 1)) \<and>
      el_next e = (if Suc j < length (without k xs) then Some (without k xs ! Suc j) else None)"
    unfolding p s nth_without [OF k j] by (rule nodes [OF i])
qed (use assms(1) in \<open>rule distinct_without\<close>)

text \<open>The four places a node can be in, with the list's nodes named.\<close>

definition skips :: "el_heap \<Rightarrow> addr list \<Rightarrow> nat \<Rightarrow> bool" where
  "skips h' xs k \<longleftrightarrow> (\<forall>i < length xs. i \<noteq> k \<longrightarrow> (\<exists>e. h' (xs ! i) = Some e \<and>
     el_prev e = Some (xs ! pred_skip (length xs) k i) \<and>
     el_next e = (if succ_skip k i < length xs then Some (xs ! succ_skip k i) else None)))"

lemma skipsI:
  "(\<And>i. i < length xs \<Longrightarrow> i \<noteq> k \<Longrightarrow> h' (xs ! i) = Some (nd' i) \<and>
      el_prev (nd' i) = Some (xs ! pred_skip (length xs) k i) \<and>
      el_next (nd' i) = (if succ_skip k i < length xs then Some (xs ! succ_skip k i) else None)) \<Longrightarrow>
    skips h' xs k"
  unfolding skips_def by blast

definition dl_nodes :: "el_heap \<Rightarrow> addr list \<Rightarrow> (nat \<Rightarrow> el) \<Rightarrow> bool" where
  "dl_nodes h xs nd \<longleftrightarrow> distinct xs \<and> (\<forall>i < length xs. h (xs ! i) = Some (nd i) \<and>
     el_prev (nd i) = Some (xs ! (if i = 0 then length xs - 1 else i - 1)) \<and>
     el_next (nd i) = (if Suc i < length xs then Some (xs ! Suc i) else None))"

lemma dl_list_nodes:
  assumes "dl_list h head xs"
  obtains nd where "dl_nodes h xs nd"
proof -
  from assms have "\<forall>i. \<exists>e. i < length xs \<longrightarrow> h (xs ! i) = Some e \<and>
      el_prev e = Some (xs ! (if i = 0 then length xs - 1 else i - 1)) \<and>
      el_next e = (if Suc i < length xs then Some (xs ! Suc i) else None)"
    unfolding dl_list_def by blast
  then obtain nd where "\<forall>i. i < length xs \<longrightarrow> h (xs ! i) = Some (nd i) \<and>
      el_prev (nd i) = Some (xs ! (if i = 0 then length xs - 1 else i - 1)) \<and>
      el_next (nd i) = (if Suc i < length xs then Some (xs ! Suc i) else None)"
    by metis
  with assms have "dl_nodes h xs nd" unfolding dl_nodes_def dl_list_def by blast
  then show ?thesis by (rule that)
qed

lemma dl_nodesD:
  assumes "dl_nodes h xs nd" and "i < length xs"
  shows "h (xs ! i) = Some (nd i)"
    and "el_prev (nd i) = Some (xs ! (if i = 0 then length xs - 1 else i - 1))"
    and "el_next (nd i) = (if Suc i < length xs then Some (xs ! Suc i) else None)"
    and "j < length xs \<Longrightarrow> xs ! i = xs ! j \<longleftrightarrow> i = j"
  using assms by (auto simp: dl_nodes_def nth_eq_iff_index_eq)

lemma dl_delete_only:
  assumes "dl_nodes h [a] nd"
  shows "dl_delete (Some a) (Some a) h = Some (None, h)"
  using dl_nodesD(1,2) [OF assms, of 0] by (simp add: dl_delete_def get_prev_def)

lemma dl_delete_first:
  assumes nd: "dl_nodes h xs nd" and n: "1 < length xs"
  shows "\<exists>h'. dl_delete (Some (xs ! 0)) (Some (xs ! 0)) h = Some (Some (xs ! 1), h') \<and> skips h' xs 0"
proof -
  let ?n = "length xs"
  let ?h = "h(xs ! 1 \<mapsto> (nd 1)\<lparr>el_prev := Some (xs ! (?n - 1))\<rparr>)"
  have i: "0 < ?n" "?n - 1 < ?n" using n by linarith+
  note eq = dl_nodesD(4) [OF nd]
  have neq: "xs ! 0 \<noteq> xs ! 1" "xs ! (?n - 1) \<noteq> xs ! 0" "xs ! 1 \<noteq> xs ! 0"
    using n eq [OF i(1) n] eq [OF i(2) i(1)] by auto
  have "dl_delete (Some (xs ! 0)) (Some (xs ! 0)) h = Some (Some (xs ! 1), ?h)"
    using dl_nodesD [OF nd i(1)] dl_nodesD(1) [OF nd n] n neq
    by (simp add: dl_delete_def get_prev_def get_next_def set_prev_def)
  moreover have "skips ?h xs 0"
  proof (rule skipsI)
    fix i assume i: "i < ?n" "i \<noteq> 0"
    show "?h (xs ! i) = Some (if i = 1 then (nd 1)\<lparr>el_prev := Some (xs ! (?n - 1))\<rparr> else nd i) \<and>
        el_prev (if i = 1 then (nd 1)\<lparr>el_prev := Some (xs ! (?n - 1))\<rparr> else nd i) =
          Some (xs ! pred_skip ?n 0 i) \<and>
        el_next (if i = 1 then (nd 1)\<lparr>el_prev := Some (xs ! (?n - 1))\<rparr> else nd i) =
          (if succ_skip 0 i < ?n then Some (xs ! succ_skip 0 i) else None)"
      using i dl_nodesD [OF nd i(1)] eq [OF i(1) n] n by (auto simp: pred_skip_def succ_skip_def Let_def)
  qed
  ultimately show ?thesis by blast
qed

lemma dl_delete_middle:
  assumes nd: "dl_nodes h xs nd" and k: "0 < k" "Suc k < length xs"
  shows "\<exists>h'. dl_delete (Some (xs ! 0)) (Some (xs ! k)) h = Some (Some (xs ! 0), h') \<and> skips h' xs k"
proof -
  let ?e = "(nd (k - 1))\<lparr>el_next := Some (xs ! Suc k)\<rparr>"
  let ?f = "(nd (Suc k))\<lparr>el_prev := Some (xs ! (k - 1))\<rparr>"
  let ?h = "h(xs ! (k - 1) \<mapsto> ?e, xs ! Suc k \<mapsto> ?f)"
  have i: "k < length xs" "k - 1 < length xs" "0 < length xs" using k by linarith+
  note eq = dl_nodesD(4) [OF nd]
  have neq: "xs ! k \<noteq> xs ! 0" "xs ! (k - 1) \<noteq> xs ! k" "xs ! (k - 1) \<noteq> xs ! Suc k" "xs ! Suc k \<noteq> xs ! k"
    using k i by (simp_all add: eq)
  have "dl_delete (Some (xs ! 0)) (Some (xs ! k)) h = Some (Some (xs ! 0), ?h)"
    using dl_nodesD [OF nd i(1)] dl_nodesD(1) [OF nd i(2)] dl_nodesD(1) [OF nd k(2)] k neq
    by (simp add: dl_delete_def get_prev_def get_next_def set_prev_def set_next_def)
  moreover have "skips ?h xs k"
  proof (rule skipsI)
    fix i assume j: "i < length xs" "i \<noteq> k"
    have skip: "pred_skip (length xs) k i = (if i = Suc k then k - 1 else if i = 0 then length xs - 1 else i - 1)"
      "succ_skip k i = (if i = k - 1 then Suc k else Suc i)"
      using k j by (auto simp: pred_skip_def succ_skip_def Let_def)
    have "?h (xs ! i) = Some (if i = Suc k then ?f else if i = k - 1 then ?e else nd i)"
      using dl_nodesD(1) [OF nd j(1)] eq [OF j(1) k(2)] eq [OF j(1) i(2)] by simp
    then show "?h (xs ! i) = Some (if i = Suc k then ?f else if i = k - 1 then ?e else nd i) \<and>
        el_prev (if i = Suc k then ?f else if i = k - 1 then ?e else nd i) =
          Some (xs ! pred_skip (length xs) k i) \<and>
        el_next (if i = Suc k then ?f else if i = k - 1 then ?e else nd i) =
          (if succ_skip k i < length xs then Some (xs ! succ_skip k i) else None)"
      unfolding skip
      using dl_nodesD(2,3) [OF nd j(1)] dl_nodesD(2) [OF nd i(2)] dl_nodesD(3) [OF nd k(2)] k by auto
  qed
  ultimately show ?thesis by blast
qed

lemma dl_delete_last:
  assumes nd: "dl_nodes h xs nd" and k: "0 < k" "Suc k = length xs"
  shows "\<exists>h'. dl_delete (Some (xs ! 0)) (Some (xs ! k)) h = Some (Some (xs ! 0), h') \<and> skips h' xs k"
proof -
  let ?e = "(nd (k - 1))\<lparr>el_next := None\<rparr>"
  let ?f = "(if k = 1 then ?e else nd 0)\<lparr>el_prev := Some (xs ! (k - 1))\<rparr>"
  let ?h = "h(xs ! (k - 1) \<mapsto> ?e, xs ! 0 \<mapsto> ?f)"
  have i: "k < length xs" "k - 1 < length xs" "0 < length xs" using k by linarith+
  note eq = dl_nodesD(4) [OF nd]
  have neq: "xs ! k \<noteq> xs ! 0" "xs ! (k - 1) \<noteq> xs ! k" "xs ! (k - 1) = xs ! 0 \<longleftrightarrow> k = 1"
      "xs ! 0 = xs ! (k - 1) \<longleftrightarrow> k = 1"
    using k i by (auto simp: eq)
  have run: "dl_delete (Some (xs ! 0)) (Some (xs ! k)) h = Some (Some (xs ! 0), ?h)"
    using dl_nodesD [OF nd i(1)] dl_nodesD(1) [OF nd i(2)] dl_nodesD(1) [OF nd i(3)] k neq
    by (simp add: dl_delete_def get_prev_def get_next_def set_prev_def set_next_def)
  have "skips ?h xs k"
  proof (rule skipsI)
    fix i assume j: "i < length xs" "i \<noteq> k"
    have skip: "pred_skip (length xs) k i = (if i = 0 then k - 1 else i - 1)"
      "succ_skip k i = (if i = k - 1 then Suc k else Suc i)"
      using k j by (auto simp: pred_skip_def succ_skip_def Let_def)
    have "?h (xs ! i) = Some (if i = 0 then ?f else if i = k - 1 then ?e else nd i)"
      using dl_nodesD(1) [OF nd j(1)] eq [OF j(1) i(3)] eq [OF j(1) i(2)] by simp
    then show "?h (xs ! i) = Some (if i = 0 then ?f else if i = k - 1 then ?e else nd i) \<and>
        el_prev (if i = 0 then ?f else if i = k - 1 then ?e else nd i) =
          Some (xs ! pred_skip (length xs) k i) \<and>
        el_next (if i = 0 then ?f else if i = k - 1 then ?e else nd i) =
          (if succ_skip k i < length xs then Some (xs ! succ_skip k i) else None)"
      unfolding skip
      using dl_nodesD(2,3) [OF nd j(1)] dl_nodesD(2) [OF nd i(2)] dl_nodesD(3) [OF nd i(3)] k by auto
  qed
  with run show ?thesis by blast
qed

lemma dl_delete_run:
  assumes l: "dl_list h head xs" and k: "k < length xs"
  shows "\<exists>h'. dl_delete head (Some (xs ! k)) h =
      Some (if length xs = 1 then None else Some (xs ! (if k = 0 then 1 else 0)), h') \<and> skips h' xs k"
proof -
  have head: "head = Some (xs ! 0)" using l k by (auto simp: dl_list_def)
  obtain nd where nd: "dl_nodes h xs nd" by (rule dl_list_nodes [OF l])
  consider (only) "length xs = 1" | (first) "1 < length xs" "k = 0" | (middle) "0 < k" "Suc k < length xs"
    | (last) "0 < k" "Suc k = length xs"
    using k by linarith
  then show ?thesis
  proof cases
    case only
    then obtain a where "xs = [a]" by (metis One_nat_def length_0_conv length_Suc_conv)
    with only k head nd dl_delete_only [of h a nd] show ?thesis by (auto simp: skips_def)
  next
    case first
    then show ?thesis using dl_delete_first [OF nd first(1)] head by simp
  next
    case middle
    then show ?thesis using dl_delete_middle [OF nd middle] head by simp
  next
    case last
    then show ?thesis using dl_delete_last [OF nd last] head by simp
  qed
qed

lemma dl_delete_spec:
  assumes "dl_list h head xs" and "a \<in> set xs"
  shows "\<exists>head' h'. dl_delete head (Some a) h = Some (head', h') \<and> dl_list h' head' (remove1 a xs)"
proof -
  obtain k where k: "k < length xs" "xs ! k = a" using assms(2) by (auto simp: in_set_conv_nth)
  have d: "distinct xs" using assms(1) by (simp add: dl_list_def)
  from dl_delete_run [OF assms(1) k(1)] obtain h' where
    run: "dl_delete head (Some (xs ! k)) h =
      Some (if length xs = 1 then None else Some (xs ! (if k = 0 then 1 else 0)), h')"
    and nodes: "skips h' xs k"
    by blast
  have "dl_list h' (if length xs = 1 then None else Some (xs ! (if k = 0 then 1 else 0))) (without k xs)"
    by (rule dl_list_without [OF d k(1)]) (use nodes in \<open>simp_all add: skips_def\<close>)
  with run k d show ?thesis by (auto simp: without_remove1)
qed

section \<open>DL\_SEARCH\<close>

text \<open>The token of a node as a string; every node of the list has one.\<close>

definition token_at :: "el_heap \<Rightarrow> addr \<Rightarrow> byte list" where
  "token_at h a = the (c_str (el_token (the (h a))))"

definition tokens_ok :: "el_heap \<Rightarrow> addr list \<Rightarrow> bool" where
  "tokens_ok h xs \<longleftrightarrow> (\<forall>a \<in> set xs. \<forall>e. h a = Some e \<longrightarrow> c_str (el_token e) \<noteq> None)"

lemma namecmp_strings:
  "c_str (el_token a) = Some s \<Longrightarrow> c_str (el_token b) = Some t \<Longrightarrow> namecmp a b = Some (s = t)"
  using c_str_split [of "el_token a" s] c_str_split [of "el_token b" t]
    c_str_no_NUL [of "el_token a" s] c_str_no_NUL [of "el_token b" t]
  by (auto simp: namecmp_def strcmp_eq_strings)

lemma dl_search_from:
  assumes l: "dl_list h head xs" and ok: "tokens_ok h xs" and t: "c_str (el_token elt) = Some t"
    and "i \<le> length xs"
  shows "dl_search (if i < length xs then Some (xs ! i) else None) elt h =
    Some (find (\<lambda>a. token_at h a = t) (drop i xs))"
  using assms(4)
proof (induction "length xs - i" arbitrary: i)
  case 0
  then show ?case by (simp add: dl_search.simps)
next
  case (Suc m)
  then have i: "i < length xs" by simp
  obtain e where e: "h (xs ! i) = Some e"
    "el_next e = (if Suc i < length xs then Some (xs ! Suc i) else None)"
    using dl_list_node [OF l i] by blast
  then obtain s where s: "c_str (el_token e) = Some s"
    using ok nth_mem [OF i] unfolding tokens_ok_def by blast
  have "dl_search (el_next e) elt h = Some (find (\<lambda>a. token_at h a = t) (drop (Suc i) xs))"
    unfolding e(2) by (rule Suc.hyps(1)) (use Suc.hyps(2) i in auto)
  moreover have "drop i xs = xs ! i # drop (Suc i) xs" using i by (simp add: Cons_nth_drop_Suc)
  moreover have "token_at h (xs ! i) = s" using e s by (simp add: token_at_def)
  ultimately show ?case
    using i e(1) namecmp_strings [OF s t] by (simp add: dl_search.simps [of "Some _"])
qed

lemma dl_search_spec:
  assumes "dl_list h head xs" and "tokens_ok h xs" and "c_str (el_token elt) = Some t"
  shows "dl_search head elt h = Some (find (\<lambda>a. token_at h a = t) xs)"
proof -
  have "head = (if 0 < length xs then Some (xs ! 0) else None)"
    using assms(1) by (simp add: dl_list_def)
  then show ?thesis using dl_search_from [OF assms, of 0] by simp
qed

lemma same_data_tokens:
  assumes "same_data h h'"
  shows "token_at h' a = token_at h a" and "tokens_ok h' xs = tokens_ok h xs"
    and "(h' a = None) = (h a = None)"
proof -
  have d: "map_option el_data (h' a) = map_option el_data (h a)" for a
    using assms by (simp add: same_data_def)
  have t: "map_option el_token (h' a) = map_option el_token (h a)" for a
    using d [of a] by (cases "h a"; cases "h' a") (auto simp: el_data_def)
  show "token_at h' a = token_at h a"
    using t [of a] by (cases "h a"; cases "h' a") (auto simp: token_at_def)
  show "(h' a = None) = (h a = None)" using d [of a] by (metis map_option_is_None)
  have iff: "(\<forall>e. h' a = Some e \<longrightarrow> c_str (el_token e) \<noteq> None) =
      (\<forall>e. h a = Some e \<longrightarrow> c_str (el_token e) \<noteq> None)" for a
    using t [of a] by (cases "h a"; cases "h' a") auto
  show "tokens_ok h' xs = tokens_ok h xs" by (simp only: tokens_ok_def iff)
qed

section \<open>The interface to accept\_connection\<close>

text \<open>
  What \<open>accept_connection\<close> relies on: a store of waiting connections that can be searched by
  token, extended at the end and shrunk by one.  \<open>holds s xs\<close> says that the store \<open>s\<close> holds the
  entries \<open>xs\<close>, oldest first.
\<close>

locale waiting_store =
  fixes holds :: "'s \<Rightarrow> 'a list \<Rightarrow> bool"
    and key :: "'s \<Rightarrow> 'a \<Rightarrow> 'k"
    and fresh :: "'s \<Rightarrow> 'a \<Rightarrow> bool"
    and search :: "'k \<Rightarrow> 's \<Rightarrow> 'a option option"
    and append :: "'a \<Rightarrow> 's \<Rightarrow> 's option"
    and delete :: "'a \<Rightarrow> 's \<Rightarrow> 's option"
  assumes search: "holds s xs \<Longrightarrow> search k s = Some (find (\<lambda>a. key s a = k) xs)"
    and append: "holds s xs \<Longrightarrow> fresh s a \<Longrightarrow> a \<notin> set xs \<Longrightarrow>
      \<exists>s'. append a s = Some s' \<and> holds s' (xs @ [a]) \<and> key s' = key s"
    and delete: "holds s xs \<Longrightarrow> a \<in> set xs \<Longrightarrow>
      \<exists>s'. delete a s = Some s' \<and> holds s' (remove1 a xs) \<and> key s' = key s"
begin

text \<open>No two entries wait under one token, and the operations keep it so.\<close>

definition unique :: "'s \<Rightarrow> 'a list \<Rightarrow> bool" where
  "unique s xs \<longleftrightarrow> distinct (map (key s) xs)"

lemma append_unique:
  assumes "holds s xs" and "unique s xs" and "fresh s a" and "search (key s a) s = Some None"
  shows "\<exists>s'. append a s = Some s' \<and> holds s' (xs @ [a]) \<and> key s' = key s \<and> unique s' (xs @ [a])"
proof -
  have "find (\<lambda>b. key s b = key s a) xs = None" using assms(1,4) search by simp
  then have none: "\<forall>b \<in> set xs. key s b \<noteq> key s a" by (simp add: find_None_iff)
  then have "a \<notin> set xs" by blast
  then obtain s' where "append a s = Some s'" "holds s' (xs @ [a])" "key s' = key s"
    using append [OF assms(1,3)] by blast
  then show ?thesis using assms(2) none by (auto simp: unique_def)
qed

lemma delete_unique:
  assumes "holds s xs" and "unique s xs" and "search k s = Some (Some a)"
  shows "\<exists>s'. delete a s = Some s' \<and> holds s' (remove1 a xs) \<and> key s' = key s \<and>
    unique s' (remove1 a xs) \<and> key s a = k \<and> search k s' = Some None"
proof -
  have "find (\<lambda>b. key s b = k) xs = Some a" using assms(1,3) search by simp
  then have a: "a \<in> set xs" "key s a = k" by (auto simp: find_Some_iff)
  then obtain s' where s': "delete a s = Some s'" "holds s' (remove1 a xs)" "key s' = key s"
    using delete [OF assms(1)] by blast
  have d: "distinct xs" "inj_on (key s) (set xs)"
    using assms(2) by (auto simp: unique_def distinct_map)
  then have "\<forall>b \<in> set (remove1 a xs). key s b \<noteq> k"
    using a by (auto simp: inj_on_def)
  then have "search k s' = Some None"
    using search [OF s'(2)] s'(3) by (simp add: find_None_iff)
  moreover have "unique s' (remove1 a xs)"
    using d s'(3) by (auto simp: unique_def distinct_map intro: inj_on_subset dest: notin_set_remove1)
  ultimately show ?thesis using s' a(2) by blast
qed

end

text \<open>The code's list provides it: a store is the head pointer with the heap, an entry an address.\<close>

definition dl_holds :: "ptr \<times> el_heap \<Rightarrow> addr list \<Rightarrow> bool" where
  "dl_holds s xs \<longleftrightarrow> dl_list (snd s) (fst s) xs \<and> tokens_ok (snd s) xs"

definition dl_key :: "ptr \<times> el_heap \<Rightarrow> addr \<Rightarrow> byte list" where
  "dl_key s a = token_at (snd s) a"

definition dl_fresh :: "ptr \<times> el_heap \<Rightarrow> addr \<Rightarrow> bool" where
  "dl_fresh s a \<longleftrightarrow> (\<exists>e. snd s a = Some e \<and> c_str (el_token e) \<noteq> None)"

text \<open>Searching for a token is searching for a connection that carries it.\<close>

definition probe :: "byte list \<Rightarrow> el" where
  "probe k = \<lparr>el_token = k @ [NUL], el_socket = 0, el_info = [], el_next = None, el_prev = None\<rparr>"

definition dl_find :: "byte list \<Rightarrow> ptr \<times> el_heap \<Rightarrow> ptr option" where
  "dl_find k s = (if NUL \<in> set k then Some None else dl_search (fst s) (probe k) (snd s))"

lemma token_at_no_NUL: "tokens_ok h xs \<Longrightarrow> a \<in> set xs \<Longrightarrow> h a \<noteq> None \<Longrightarrow> NUL \<notin> set (token_at h a)"
  unfolding tokens_ok_def token_at_def by (metis c_str_no_NUL option.exhaust_sel option.sel)

lemma dl_list_allocated: "dl_list h head xs \<Longrightarrow> a \<in> set xs \<Longrightarrow> h a \<noteq> None"
  by (auto simp: in_set_conv_nth elim!: dl_list_node)

lemma dl_find_spec: "dl_holds s xs \<Longrightarrow> dl_find k s = Some (find (\<lambda>a. dl_key s a = k) xs)"
proof -
  assume s: "dl_holds s xs"
  show ?thesis
  proof (cases "NUL \<in> set k")
    case True
    then have "\<forall>a \<in> set xs. dl_key s a \<noteq> k"
      using s token_at_no_NUL dl_list_allocated by (metis dl_holds_def dl_key_def)
    then have "find (\<lambda>a. dl_key s a = k) xs = None" by (simp add: find_None_iff)
    with True show ?thesis by (simp add: dl_find_def)
  next
    case False
    then have "c_str (el_token (probe k)) = Some k" by (simp add: probe_def)
    with s False show ?thesis by (simp add: dl_find_def dl_holds_def dl_key_def dl_search_spec)
  qed
qed

text \<open>Only the token of the connection searched for matters.\<close>

lemma dl_search_find:
  "dl_holds s xs \<Longrightarrow> c_str (el_token elt) = Some t \<Longrightarrow> dl_search (fst s) elt (snd s) = dl_find t s"
  using dl_find_spec [of s xs t] by (simp add: dl_holds_def dl_key_def dl_search_spec)

lemma dl_append_spec:
  assumes "dl_holds s xs" and "dl_fresh s a" and "a \<notin> set xs"
  shows "\<exists>s'. dl_append (fst s) (Some a) (snd s) = Some s' \<and> dl_holds s' (xs @ [a]) \<and> dl_key s' = dl_key s"
proof -
  obtain e where e: "snd s a = Some e" "c_str (el_token e) \<noteq> None" using assms(2) by (auto simp: dl_fresh_def)
  have l: "dl_list (snd s) (fst s) xs" using assms(1) by (simp add: dl_holds_def)
  have "\<exists>head' h'. dl_append (fst s) (Some a) (snd s) = Some (head', h') \<and> dl_list h' head' (xs @ [a])"
  proof (cases "xs = []")
    case True
    then show ?thesis using l dl_append_empty [of "snd s" a e] e(1) by auto
  next
    case False
    then show ?thesis using dl_append_cons [of "snd s" "fst s" xs a e] l e(1) assms(3) by auto
  qed
  then obtain head' h' where run: "dl_append (fst s) (Some a) (snd s) = Some (head', h')"
    "dl_list h' head' (xs @ [a])" by blast
  note same = same_data_tokens [OF dl_append_same_data [OF run(1)]]
  have "tokens_ok (snd s) (xs @ [a])" using assms(1) e by (auto simp: dl_holds_def tokens_ok_def)
  with run same show ?thesis by (auto simp: dl_holds_def dl_key_def fun_eq_iff)
qed

lemma dl_remove_spec:
  assumes "dl_holds s xs" and "a \<in> set xs"
  shows "\<exists>s'. dl_delete (fst s) (Some a) (snd s) = Some s' \<and> dl_holds s' (remove1 a xs) \<and> dl_key s' = dl_key s"
proof -
  have l: "dl_list (snd s) (fst s) xs" using assms(1) by (simp add: dl_holds_def)
  from dl_delete_spec [OF l assms(2)] obtain head' h'
    where run: "dl_delete (fst s) (Some a) (snd s) = Some (head', h')" "dl_list h' head' (remove1 a xs)"
    by blast
  note same = same_data_tokens [OF dl_delete_same_data [OF run(1)]]
  have "tokens_ok (snd s) (remove1 a xs)"
    using assms(1) by (auto simp: dl_holds_def tokens_ok_def dest: notin_set_remove1)
  with run same show ?thesis by (auto simp: dl_holds_def dl_key_def fun_eq_iff)
qed

interpretation dl: waiting_store dl_holds dl_key dl_fresh dl_find
  "\<lambda>a s. dl_append (fst s) (Some a) (snd s)" "\<lambda>a s. dl_delete (fst s) (Some a) (snd s)"
  by unfold_locales (rule dl_find_spec dl_append_spec dl_remove_spec; assumption)+

end
