(* ===== verification/Client_List.thy ===== *)
theory Client_List
  imports Utlist
begin

text \<open>
  The server's list of running clients: \<^verbatim>\<open>struct client_info\<close> of \<^verbatim>\<open>src/server.h\<close>, the
  insertion in \<open>main\<close>, the removal in \<open>dealloc\<close> and the walk of \<open>signal_handler\<close> in
  \<^verbatim>\<open>src/server.c\<close>, on an explicit heap of clients.  \<open>None\<close> as a result is a null or dangling
  dereference.  The list runs from the oldest client to \<open>last_client\<close>.
\<close>

record client_info =
  command_info :: sockaddr
  data_info :: sockaddr
  ip_address :: "byte list"
  command_socket :: fd
  data_socket :: fd
  server_socket :: fd
  file_path :: "byte list"
  thr :: int
  ci_next :: ptr
  ci_before :: ptr

type_synonym client_heap = "addr \<Rightarrow> client_info option"

section \<open>Operations\<close>

definition upd_client :: "ptr \<Rightarrow> (client_info \<Rightarrow> client_info) \<Rightarrow> client_heap \<Rightarrow> client_heap option" where
  "upd_client p f h = do { a \<leftarrow> p; c \<leftarrow> h a; Some (h(a \<mapsto> f c)) }"

definition get_client :: "ptr \<Rightarrow> client_heap \<Rightarrow> client_info option" where
  "get_client p h = do { a \<leftarrow> p; h a }"

text \<open>The linked-list part of \<open>main\<close>'s loop: put a new client behind \<open>last_client\<close>.\<close>

definition link_client :: "ptr \<Rightarrow> ptr \<Rightarrow> client_heap \<Rightarrow> (ptr \<times> client_heap) option" where
  "link_client client last_client h = do {
     h \<leftarrow> upd_client client (\<lambda>c. c\<lparr>ci_next := None\<rparr>) h;
     h \<leftarrow> upd_client client (\<lambda>c. c\<lparr>ci_before := last_client\<rparr>) h;
     c \<leftarrow> get_client client h;
     h \<leftarrow> (if ci_before c \<noteq> None then upd_client last_client (\<lambda>c. c\<lparr>ci_next := client\<rparr>) h else Some h);
     Some (client, h)
   }"

text \<open>The relinking and the \<^verbatim>\<open>free\<close> of \<open>dealloc\<close>.  The second assignment of the first branch is
  the code's \<^verbatim>\<open>client->next->before = client->next->before\<close>.\<close>

definition unlink_client :: "ptr \<Rightarrow> ptr \<Rightarrow> client_heap \<Rightarrow> (ptr \<times> client_heap) option" where
  "unlink_client client last_client h = do {
     c \<leftarrow> get_client client h;
     (last_client, h) \<leftarrow>
       (if ci_next c \<noteq> None \<and> ci_before c \<noteq> None then do {
          h \<leftarrow> upd_client (ci_before c) (\<lambda>b. b\<lparr>ci_next := ci_next c\<rparr>) h;
          n \<leftarrow> get_client (ci_next c) h;
          h \<leftarrow> upd_client (ci_next c) (\<lambda>m. m\<lparr>ci_before := ci_before n\<rparr>) h;
          Some (last_client, h)
        } else if ci_before c \<noteq> None then do {
          h \<leftarrow> upd_client (ci_before c) (\<lambda>b. b\<lparr>ci_next := None\<rparr>) h;
          Some (ci_before c, h)
        } else if ci_next c \<noteq> None then do {
          h \<leftarrow> upd_client (ci_next c) (\<lambda>m. m\<lparr>ci_before := None\<rparr>) h;
          Some (last_client, h)
        } else Some (None, h));
     a \<leftarrow> client;
     Some (last_client, h(a := None))
   }"

text \<open>The loop of \<open>signal_handler\<close>: the descriptors closed, in order, and the heap left.\<close>

partial_function (option) close_clients :: "ptr \<Rightarrow> client_heap \<Rightarrow> fd list \<Rightarrow> (fd list \<times> client_heap) option" where
  "close_clients last_client h fds =
     (case last_client of
        None \<Rightarrow> Some (fds, h)
      | Some a \<Rightarrow>
          (case h a of
             None \<Rightarrow> None
           | Some c \<Rightarrow>
               (let fds' = fds @ [command_socket c, data_socket c, server_socket c] in
                if ci_before c = None then Some (fds', h(a := None))
                else close_clients (ci_before c) (h(a := None)) fds')))"

section \<open>The list on the heap\<close>

definition client_list :: "client_heap \<Rightarrow> ptr \<Rightarrow> addr list \<Rightarrow> bool" where
  "client_list h lst xs \<longleftrightarrow>
     distinct xs \<and> lst = (if xs = [] then None else Some (xs ! (length xs - 1))) \<and>
     (\<forall>i < length xs. \<exists>c. h (xs ! i) = Some c \<and>
        ci_before c = (if i = 0 then None else Some (xs ! (i - 1))) \<and>
        ci_next c = (if Suc i < length xs then Some (xs ! Suc i) else None))"

lemma client_list_node:
  assumes "client_list h lst xs" and "i < length xs"
  obtains c where "h (xs ! i) = Some c"
    "ci_before c = (if i = 0 then None else Some (xs ! (i - 1)))"
    "ci_next c = (if Suc i < length xs then Some (xs ! Suc i) else None)"
  using assms unfolding client_list_def by blast

lemma client_list_nodes:
  assumes "client_list h lst xs"
  obtains nd where "\<And>i. i < length xs \<Longrightarrow> h (xs ! i) = Some (nd i)"
    "\<And>i. i < length xs \<Longrightarrow> ci_before (nd i) = (if i = 0 then None else Some (xs ! (i - 1)))"
    "\<And>i. i < length xs \<Longrightarrow> ci_next (nd i) = (if Suc i < length xs then Some (xs ! Suc i) else None)"
proof -
  have "\<forall>i. \<exists>c. i < length xs \<longrightarrow> h (xs ! i) = Some c \<and>
      ci_before c = (if i = 0 then None else Some (xs ! (i - 1))) \<and>
      ci_next c = (if Suc i < length xs then Some (xs ! Suc i) else None)"
    using assms unfolding client_list_def by blast
  then show ?thesis using that by metis
qed

lemma client_list_eq:
  "client_list h lst xs \<Longrightarrow> i < length xs \<Longrightarrow> j < length xs \<Longrightarrow> xs ! i = xs ! j \<longleftrightarrow> i = j"
  by (simp add: client_list_def nth_eq_iff_index_eq)

section \<open>Adding a client\<close>

lemma link_client_spec:
  assumes l: "client_list h lst xs" and new: "h a = Some c" "a \<notin> set xs"
  shows "\<exists>h'. link_client (Some a) lst h = Some (Some a, h') \<and> client_list h' (Some a) (xs @ [a])"
proof (cases "xs = []")
  case True
  with l new show ?thesis
    by (simp add: link_client_def upd_client_def get_client_def client_list_def)
next
  case ne: False
  let ?n = "length xs"
  obtain nd where nd: "\<And>i. i < ?n \<Longrightarrow> h (xs ! i) = Some (nd i)"
    "\<And>i. i < ?n \<Longrightarrow> ci_before (nd i) = (if i = 0 then None else Some (xs ! (i - 1)))"
    "\<And>i. i < ?n \<Longrightarrow> ci_next (nd i) = (if Suc i < ?n then Some (xs ! Suc i) else None)"
    using client_list_nodes [OF l] by blast
  let ?t = "xs ! (?n - 1)"
  have fresh: "xs ! i \<noteq> a" if "i < ?n" for i using new(2) that by auto
  have lst: "lst = Some ?t" using l ne by (simp add: client_list_def)
  let ?h = "h(a \<mapsto> c\<lparr>ci_next := None, ci_before := Some ?t\<rparr>, ?t \<mapsto> (nd (?n - 1))\<lparr>ci_next := Some a\<rparr>)"
  have pos: "?n - 1 < ?n" using ne by simp
  have run: "link_client (Some a) lst h = Some (Some a, ?h)"
    using new(1) nd(1) [OF pos] fresh [OF pos] unfolding lst
    by (simp add: link_client_def upd_client_def get_client_def)
  have old: "?h (xs ! i) = Some (if i = ?n - 1 then (nd i)\<lparr>ci_next := Some a\<rparr> else nd i)" if "i < ?n" for i
    using nd(1) [OF that] client_list_eq [OF l that pos] fresh [OF that] by simp
  have "client_list ?h (Some a) (xs @ [a])"
    unfolding client_list_def
  proof (intro conjI allI impI)
    fix i assume "i < length (xs @ [a])"
    then consider "i < ?n" | "i = ?n" by fastforce
    then show "\<exists>c. ?h ((xs @ [a]) ! i) = Some c \<and>
        ci_before c = (if i = 0 then None else Some ((xs @ [a]) ! (i - 1))) \<and>
        ci_next c = (if Suc i < length (xs @ [a]) then Some ((xs @ [a]) ! Suc i) else None)"
    proof cases
      case 1
      then show ?thesis using old [OF 1] nd(2,3) [OF 1] by (auto simp: nth_append)
    next
      case 2
      then show ?thesis using ne fresh [OF pos] by (auto simp: nth_append)
    qed
  qed (use l new(2) in \<open>auto simp: client_list_def\<close>)
  with run show ?thesis by blast
qed

section \<open>Removing a client\<close>

lemma client_list_without:
  assumes "distinct xs" and k: "k < length xs"
    and "lst = (if length xs = 1 then None
      else Some (xs ! (if Suc k = length xs then length xs - 2 else length xs - 1)))"
    and nodes: "\<And>i. i < length xs \<Longrightarrow> i \<noteq> k \<Longrightarrow> \<exists>c. h (xs ! i) = Some c \<and>
      ci_before c = (if i = 0 \<or> (k = 0 \<and> i = 1) then None else Some (xs ! (if i = Suc k then k - 1 else i - 1))) \<and>
      ci_next c = (if succ_skip k i < length xs then Some (xs ! succ_skip k i) else None)"
  shows "client_list h lst (without k xs)"
  unfolding client_list_def
proof (intro conjI allI impI)
  show "lst = (if without k xs = [] then None else Some (without k xs ! (length (without k xs) - 1)))"
  proof (cases "length xs = 1")
    case True
    with k assms(3) show ?thesis by (simp add: without_def)
  next
    case False
    with k have n: "0 < length xs - 1" by simp
    then have "without k xs \<noteq> []" using length_without [OF k] by force
    moreover have "length xs - 2 < length xs - 1"
      "(if length xs - 2 < k then length xs - 2 else Suc (length xs - 2)) =
        (if Suc k = length xs then length xs - 2 else length xs - 1)"
      using n k by auto
    ultimately show ?thesis
      using False k assms(3) nth_without [OF k, of "length xs - 2"] by (simp add: numeral_2_eq_2)
  qed
next
  fix j assume "j < length (without k xs)"
  then have j: "j < length xs - 1" using k by simp
  let ?i = "if j < k then j else Suc j"
  have i: "?i < length xs" "?i \<noteq> k" using j k by auto
  have b: "(if j = 0 then None else Some (without k xs ! (j - 1))) =
      (if ?i = 0 \<or> (k = 0 \<and> ?i = 1) then None else Some (xs ! (if ?i = Suc k then k - 1 else ?i - 1)))"
    using j k by (auto simp: nth_without)
  have s: "(if Suc j < length (without k xs) then Some (without k xs ! Suc j) else None) =
      (if succ_skip k ?i < length xs then Some (xs ! succ_skip k ?i) else None)"
    using j k by (auto simp: nth_without succ_skip_def)
  show "\<exists>c. h (without k xs ! j) = Some c \<and>
      ci_before c = (if j = 0 then None else Some (without k xs ! (j - 1))) \<and>
      ci_next c = (if Suc j < length (without k xs) then Some (without k xs ! Suc j) else None)"
    unfolding b s nth_without [OF k j] by (rule nodes [OF i])
qed (use assms(1) in \<open>rule distinct_without\<close>)

text \<open>At either end of the list \<open>dealloc\<close> takes the client out.\<close>

lemma unlink_only:
  assumes "client_list h lst [a]"
  shows "unlink_client (Some a) lst h = Some (None, h(a := None))"
  using assms by (auto simp: client_list_def unlink_client_def get_client_def)

lemma unlink_last:
  assumes l: "client_list h lst xs" and n: "1 < length xs" and k: "Suc k = length xs"
  shows "\<exists>h'. unlink_client (Some (xs ! k)) lst h = Some (Some (xs ! (k - 1)), h') \<and>
    client_list h' (Some (xs ! (k - 1))) (without k xs)"
proof -
  obtain nd where nd: "\<And>i. i < length xs \<Longrightarrow> h (xs ! i) = Some (nd i)"
    "\<And>i. i < length xs \<Longrightarrow> ci_before (nd i) = (if i = 0 then None else Some (xs ! (i - 1)))"
    "\<And>i. i < length xs \<Longrightarrow> ci_next (nd i) = (if Suc i < length xs then Some (xs ! Suc i) else None)"
    using client_list_nodes [OF l] by blast
  have kk: "k < length xs" "k - 1 < length xs" "0 < k" using n k by auto
  note eq = client_list_eq [OF l]
  let ?h = "h(xs ! (k - 1) \<mapsto> (nd (k - 1))\<lparr>ci_next := None\<rparr>, xs ! k := None)"
  have run: "unlink_client (Some (xs ! k)) lst h = Some (Some (xs ! (k - 1)), ?h)"
    using nd(1) [OF kk(1)] nd(1) [OF kk(2)] nd(2,3) [OF kk(1)] kk k
    by (simp add: unlink_client_def get_client_def upd_client_def)
  have node: "?h (xs ! i) = Some (if i = k - 1 then (nd i)\<lparr>ci_next := None\<rparr> else nd i)"
    if "i < length xs" "i \<noteq> k" for i
    using nd(1) [OF that(1)] eq [OF that(1) kk(1)] eq [OF that(1) kk(2)] that(2) by simp
  have "client_list ?h (Some (xs ! (k - 1))) (without k xs)"
  proof (rule client_list_without)
    show "Some (xs ! (k - 1)) = (if length xs = 1 then None
        else Some (xs ! (if Suc k = length xs then length xs - 2 else length xs - 1)))"
    proof -
      have "k - 1 = length xs - 2" using k by simp
      then show ?thesis using n k by simp
    qed
  qed (use l node nd(2,3) kk k in \<open>auto simp: client_list_def succ_skip_def\<close>)
  with run show ?thesis by blast
qed

lemma unlink_first:
  assumes l: "client_list h lst xs" and n: "1 < length xs"
  shows "\<exists>h'. unlink_client (Some (xs ! 0)) lst h = Some (lst, h') \<and> client_list h' lst (without 0 xs)"
proof -
  obtain nd where nd: "\<And>i. i < length xs \<Longrightarrow> h (xs ! i) = Some (nd i)"
    "\<And>i. i < length xs \<Longrightarrow> ci_before (nd i) = (if i = 0 then None else Some (xs ! (i - 1)))"
    "\<And>i. i < length xs \<Longrightarrow> ci_next (nd i) = (if Suc i < length xs then Some (xs ! Suc i) else None)"
    using client_list_nodes [OF l] by blast
  have kk: "0 < length xs" using n by linarith
  note eq = client_list_eq [OF l]
  let ?h = "h(xs ! 1 \<mapsto> (nd 1)\<lparr>ci_before := None\<rparr>, xs ! 0 := None)"
  have run: "unlink_client (Some (xs ! 0)) lst h = Some (lst, ?h)"
    using nd(1) [OF kk] nd(1) [OF n] nd(2,3) [OF kk] n
    by (simp add: unlink_client_def get_client_def upd_client_def)
  have node: "?h (xs ! i) = Some (if i = 1 then (nd i)\<lparr>ci_before := None\<rparr> else nd i)"
    if "i < length xs" "i \<noteq> 0" for i
    using nd(1) [OF that(1)] eq [OF that(1) kk] eq [OF that(1) n] that(2) by simp
  have "client_list ?h lst (without 0 xs)"
  proof (rule client_list_without)
    show "lst = (if length xs = 1 then None
        else Some (xs ! (if Suc 0 = length xs then length xs - 2 else length xs - 1)))"
      using l n kk by (auto simp: client_list_def)
  qed (use l node nd(2,3) kk in \<open>auto simp: client_list_def succ_skip_def\<close>)
  with run show ?thesis by blast
qed

text \<open>In the middle it does not: the successor still points back to the freed client.\<close>

lemma unlink_middle:
  assumes l: "client_list h lst xs" and k: "0 < k" "Suc k < length xs"
  shows "\<exists>h'. unlink_client (Some (xs ! k)) lst h = Some (lst, h') \<and> h' (xs ! k) = None \<and>
    (\<forall>i < length xs. i \<noteq> k \<longrightarrow> (\<exists>c. h' (xs ! i) = Some c \<and>
      ci_before c = (if i = 0 then None else Some (xs ! (i - 1)))))"
proof -
  obtain nd where nd: "\<And>i. i < length xs \<Longrightarrow> h (xs ! i) = Some (nd i)"
    "\<And>i. i < length xs \<Longrightarrow> ci_before (nd i) = (if i = 0 then None else Some (xs ! (i - 1)))"
    "\<And>i. i < length xs \<Longrightarrow> ci_next (nd i) = (if Suc i < length xs then Some (xs ! Suc i) else None)"
    using client_list_nodes [OF l] by blast
  have kk: "k < length xs" "k - 1 < length xs" using k by auto
  note eq = client_list_eq [OF l]
  have neq: "xs ! (k - 1) \<noteq> xs ! k" "xs ! (k - 1) \<noteq> xs ! Suc k" "xs ! Suc k \<noteq> xs ! k"
    using k kk by (simp_all add: eq)
  let ?h = "h(xs ! (k - 1) \<mapsto> (nd (k - 1))\<lparr>ci_next := Some (xs ! Suc k)\<rparr>,
      xs ! Suc k \<mapsto> (nd (Suc k))\<lparr>ci_before := ci_before (nd (Suc k))\<rparr>, xs ! k := None)"
  have "unlink_client (Some (xs ! k)) lst h = Some (lst, ?h)"
    using nd(1) [OF kk(1)] nd(1) [OF kk(2)] nd(1) [OF k(2)] nd(2,3) [OF kk(1)] k neq
    by (simp add: unlink_client_def get_client_def upd_client_def)
  moreover have "?h (xs ! i) = Some (if i = k - 1 then (nd i)\<lparr>ci_next := Some (xs ! Suc k)\<rparr> else nd i)"
    if "i < length xs" "i \<noteq> k" for i
    using nd(1) [OF that(1)] eq [OF that(1) kk(1)] eq [OF that(1) kk(2)] eq [OF that(1) k(2)] that(2) k by auto
  ultimately show ?thesis using nd(2) by auto
qed

text \<open>So \<open>dealloc\<close> itself goes through for every client of the list.\<close>

lemma unlink_total:
  assumes l: "client_list h lst xs" and a: "a \<in> set xs"
  shows "\<exists>lst' h'. unlink_client (Some a) lst h = Some (lst', h') \<and> h' a = None"
proof -
  obtain k where k: "k < length xs" "xs ! k = a" using a by (auto simp: in_set_conv_nth)
  consider "length xs = 1" | "1 < length xs" "k = 0" | "1 < length xs" "Suc k = length xs"
    | "0 < k" "Suc k < length xs" using k by linarith
  then obtain lst' h' where "unlink_client (Some a) lst h = Some (lst', h')"
  proof cases
    case 1
    with k have "xs = [a]" by (cases xs) auto
    with l that show ?thesis using unlink_only by blast
  next
    case 2
    with l k that show ?thesis using unlink_first by blast
  next
    case 3
    with l k that show ?thesis using unlink_last by blast
  next
    case 4
    with l k that show ?thesis using unlink_middle by blast
  qed
  moreover from this have "h' a = None"
    by (auto simp: unlink_client_def split: bind_splits if_splits prod.splits)
  ultimately show ?thesis by blast
qed

lemma client_list_upd:
  assumes "client_list h lst xs" and "h a = Some c" and "ci_before c' = ci_before c" and "ci_next c' = ci_next c"
  shows "client_list (h(a \<mapsto> c')) lst xs"
  unfolding client_list_def
proof (intro conjI allI impI)
  fix i assume i: "i < length xs"
  obtain d where "h (xs ! i) = Some d" "ci_before d = (if i = 0 then None else Some (xs ! (i - 1)))"
    "ci_next d = (if Suc i < length xs then Some (xs ! Suc i) else None)"
    by (rule client_list_node [OF assms(1) i])
  with assms show "\<exists>c. (h(a \<mapsto> c')) (xs ! i) = Some c \<and>
      ci_before c = (if i = 0 then None else Some (xs ! (i - 1))) \<and>
      ci_next c = (if Suc i < length xs then Some (xs ! Suc i) else None)"
    by auto
qed (use assms(1) in \<open>auto simp: client_list_def\<close>)

section \<open>The walk of signal\_handler\<close>

definition socks :: "client_heap \<Rightarrow> addr \<Rightarrow> fd list" where
  "socks h a = (case h a of None \<Rightarrow> [] | Some c \<Rightarrow> [command_socket c, data_socket c, server_socket c])"

definition free_all :: "addr set \<Rightarrow> client_heap \<Rightarrow> client_heap" where
  "free_all A h = (\<lambda>a. if a \<in> A then None else h a)"

lemma free_all_simps [simp]: "free_all {} h = h" "free_all A (h(a := None)) = free_all (insert a A) h"
  by (auto simp: free_all_def fun_eq_iff)

lemma socks_upd: "a \<noteq> b \<Longrightarrow> socks (h(b := x)) a = socks h a"
  by (simp add: socks_def)

lemma close_clients_step:
  "h a = Some c \<Longrightarrow> close_clients (Some a) h fds =
     (if ci_before c = None then Some (fds @ socks h a, h(a := None))
      else close_clients (ci_before c) (h(a := None)) (fds @ socks h a))"
  by (simp add: close_clients.simps [of "Some a"] socks_def Let_def)

lemma close_clients_walk:
  assumes "distinct xs" and "k \<le> j" and "j < length xs"
    and "\<And>i. k < i \<Longrightarrow> i \<le> j \<Longrightarrow> \<exists>c. h (xs ! i) = Some c \<and> ci_before c = Some (xs ! (i - 1))"
  shows "close_clients (Some (xs ! j)) h fds =
    close_clients (Some (xs ! k)) (free_all ((!) xs ` {k<..j}) h)
      (fds @ concat (map (\<lambda>i. socks h (xs ! i)) (rev [Suc k..<Suc j])))"
  using assms(2-)
proof (induction j arbitrary: h fds)
  case 0
  then show ?case by simp
next
  case (Suc j)
  show ?case
  proof (cases "k = Suc j")
    case True
    then show ?thesis by simp
  next
    case False
    with Suc.prems(1) have kj: "k \<le> j" by simp
    obtain c where c: "h (xs ! Suc j) = Some c" "ci_before c = Some (xs ! j)"
      using Suc.prems(3) [of "Suc j"] kj by auto
    let ?h = "h(xs ! Suc j := None)"
    have other: "xs ! i \<noteq> xs ! Suc j" if "i \<le> j" for i
      using assms(1) Suc.prems(2) that by (simp add: nth_eq_iff_index_eq)
    have "close_clients (Some (xs ! j)) ?h (fds @ socks h (xs ! Suc j)) =
        close_clients (Some (xs ! k)) (free_all ((!) xs ` {k<..j}) ?h)
          ((fds @ socks h (xs ! Suc j)) @ concat (map (\<lambda>i. socks ?h (xs ! i)) (rev [Suc k..<Suc j])))"
      by (rule Suc.IH [OF kj]) (use Suc.prems other in auto)
    moreover have "insert (xs ! Suc j) ((!) xs ` {k<..j}) = (!) xs ` {k<..Suc j}"
      using kj by (auto simp: atLeastSucAtMost_greaterThanAtMost [symmetric] atLeastAtMostSuc_conv)
    moreover have "map (\<lambda>i. socks ?h (xs ! i)) (rev [Suc k..<Suc j]) =
        map (\<lambda>i. socks h (xs ! i)) (rev [Suc k..<Suc j])"
      by (intro map_cong refl socks_upd other) auto
    ultimately have "close_clients (Some (xs ! j)) ?h (fds @ socks h (xs ! Suc j)) =
        close_clients (Some (xs ! k)) (free_all ((!) xs ` {k<..Suc j}) h)
          ((fds @ socks h (xs ! Suc j)) @ concat (map (\<lambda>i. socks h (xs ! i)) (rev [Suc k..<Suc j])))"
      by (simp only: free_all_simps)
    moreover have "rev [Suc k..<Suc (Suc j)] = Suc j # rev [Suc k..<Suc j]" using kj by simp
    ultimately show ?thesis using c by (simp add: close_clients_step del: upt_Suc)
  qed
qed

lemma close_clients_all:
  assumes l: "client_list h lst xs"
  shows "close_clients lst h [] = Some (concat (map (socks h) (rev xs)), free_all (set xs) h)"
proof (cases "xs = []")
  case True
  with l show ?thesis by (simp add: client_list_def close_clients.simps)
next
  case False
  let ?j = "length xs - 1"
  have j: "?j < length xs" using False by simp
  have lst: "lst = Some (xs ! ?j)" and d: "distinct xs" using l False by (auto simp: client_list_def)
  have walk: "close_clients lst h [] = close_clients (Some (xs ! 0)) (free_all ((!) xs ` {0<..?j}) h)
      ([] @ concat (map (\<lambda>i. socks h (xs ! i)) (rev [Suc 0..<Suc ?j])))"
    unfolding lst
  proof (rule close_clients_walk [OF d _ j])
    fix i assume i: "0 < i" "i \<le> ?j"
    then have "i < length xs" using j by linarith
    from client_list_node [OF l this] i(1)
    show "\<exists>c. h (xs ! i) = Some c \<and> ci_before c = Some (xs ! (i - 1))" by auto
  qed simp
  obtain c where c: "h (xs ! 0) = Some c" "ci_before c = None"
    using client_list_node [OF l, of 0] False by auto
  have "xs ! 0 \<notin> (!) xs ` {0<..?j}"
    using d False by (auto simp: nth_eq_iff_index_eq)
  then have first: "free_all ((!) xs ` {0<..?j}) h (xs ! 0) = Some c" by (simp add: free_all_def c)
  have whole: "xs = xs ! 0 # map ((!) xs) [Suc 0..<Suc ?j]"
    using False map_nth [of xs] by (simp add: upt_rec [of 0])
  then have st: "set xs = insert (xs ! 0) ((!) xs ` {0<..?j})"
    by (metis list.simps(15) set_map set_upt atLeastLessThanSuc_atLeastAtMost
        atLeastSucAtMost_greaterThanAtMost)
  have "rev xs = map ((!) xs) (rev [Suc 0..<Suc ?j]) @ [xs ! 0]"
    by (metis whole rev.simps(2) rev_map)
  then have socks_all: "concat (map (socks h) (rev xs)) =
      concat (map (\<lambda>i. socks h (xs ! i)) (rev [Suc 0..<Suc ?j])) @ socks h (xs ! 0)"
    by (simp add: comp_def)
  have "socks (free_all ((!) xs ` {0<..?j}) h) (xs ! 0) = socks h (xs ! 0)"
    using first c by (simp add: socks_def)
  moreover have "(free_all ((!) xs ` {0<..?j}) h)(xs ! 0 := None) = free_all (set xs) h"
    unfolding st by (auto simp: free_all_def)
  ultimately show ?thesis
    unfolding walk socks_all 
    using close_clients_step [of "free_all ((!) xs ` {0<..?j}) h" "xs ! 0", OF first] c(2) by simp
qed

text \<open>After a client in the middle has gone, the walk runs into the freed client.\<close>

lemma close_clients_dangling:
  assumes l: "client_list h lst xs" and k: "0 < k" "Suc k < length xs"
    and "unlink_client (Some (xs ! k)) lst h = Some (lst', h')"
  shows "close_clients lst' h' [] = None"
proof -
  from unlink_middle [OF l k] assms(4) have lst: "lst' = lst" and freed: "h' (xs ! k) = None"
    and nodes: "\<forall>i < length xs. i \<noteq> k \<longrightarrow> (\<exists>c. h' (xs ! i) = Some c \<and>
      ci_before c = (if i = 0 then None else Some (xs ! (i - 1))))" by auto
  let ?j = "length xs - 1"
  have d: "distinct xs" and last: "lst = Some (xs ! ?j)" using l k by (auto simp: client_list_def)
  have j: "k \<le> ?j" "?j < length xs" using k by auto
  have "close_clients lst' h' [] = close_clients (Some (xs ! k)) (free_all ((!) xs ` {k<..?j}) h')
      ([] @ concat (map (\<lambda>i. socks h' (xs ! i)) (rev [Suc k..<Suc ?j])))"
    unfolding lst last
  proof (rule close_clients_walk [OF d j])
    fix i assume i: "k < i" "i \<le> ?j"
    then have "i < length xs" "i \<noteq> k" "i \<noteq> 0" using j by linarith+
    with nodes show "\<exists>c. h' (xs ! i) = Some c \<and> ci_before c = Some (xs ! (i - 1))" by auto
  qed
  also have "\<dots> = None"
    using freed by (simp add: close_clients.simps [of "Some _"] free_all_def)
  finally show ?thesis .
qed

end
