(* ===== verification/Server_State.thy ===== *)
theory Server_State
  imports Libllncp Client_List
begin

text \<open>
  The state of the server of \<^verbatim>\<open>src/server.c\<close> and the operations every handler uses: the log,
  \<open>dealloc\<close> and the wrappers around the library's routines, which end the client's thread when the
  routine fails.  A thread's end (\<^verbatim>\<open>pthread_exit\<close>) is the outcome \<open>Exit\<close>.

  The state has the globals of the program, the heap with the clients and the half-open
  connections, and what the operating system does: the connections the coming \<^verbatim>\<open>accept\<close> calls
  return (\<open>None\<close> for a failing call), the file system, and for the coming \<^verbatim>\<open>fopen\<close>, \<^verbatim>\<open>mkdir\<close>
  and \<^verbatim>\<open>fwrite\<close> calls whether they fail, and with which error number; a call with no entry left
  succeeds.  \<open>now\<close> is the text of the current time, \<open>errtext\<close> is \<^verbatim>\<open>strerror\<close> and \<open>ntoa\<close> is
  \<^verbatim>\<open>inet_ntoa\<close>.  \<^verbatim>\<open>malloc\<close> never fails and returns a new address.
\<close>

record server = net +
  clients :: client_heap
  last_client :: ptr
  els :: el_heap
  head :: ptr
  fresh_addr :: addr
  password :: "byte list"
  dest_chroot :: "byte list"
  is_dest_chroot :: bool
  accepts :: "(fd \<times> sockaddr) option list"
  fs :: "byte list \<Rightarrow> node option"
  fopen_evs :: "int option list"
  mkdir_evs :: "int option list"
  fwrite_evs :: "int option list"
  logfile :: "byte list"
  now :: "byte list"
  errtext :: "int \<Rightarrow> byte list"
  ntoa :: "sockaddr \<Rightarrow> byte list"

type_synonym 'a srv = "(server, 'a) prog"

section \<open>The log\<close>

definition quoted :: "byte list \<Rightarrow> byte list" where
  "quoted path = [CHR 0x27] @ path @ [CHR 0x27]"

definition log_line :: "byte list \<Rightarrow> byte list \<Rightarrow> byte list \<Rightarrow> byte list option \<Rightarrow> bool \<Rightarrow> byte list" where
  "log_line timebuffer ip message path error =
     timebuffer @ '': Client '' @ ip @
     (case path of
        None \<Rightarrow> (if \<not> error then '' '' else '' Error: '') @ message
      | Some path \<Rightarrow> (if \<not> error then '': '' else '' Error: '') @ quoted path @ '' '' @ message) @
     [CHR 0x0A]"

definition print_log_message :: "byte list \<Rightarrow> byte list \<Rightarrow> byte list option \<Rightarrow> bool \<Rightarrow> unit srv" where
  "print_log_message ip message path error =
     modifyM (\<lambda>w. w\<lparr>logfile := logfile w @ log_line (now w) ip message path error\<rparr>)"

section \<open>Clients\<close>

text \<open>Reading and writing through \<^verbatim>\<open>struct client_info *client\<close>.\<close>

definition client_at :: "addr \<Rightarrow> client_info srv" where
  "client_at client w = orUb (clients w client) w"

definition update_client :: "addr \<Rightarrow> (client_info \<Rightarrow> client_info) \<Rightarrow> unit srv" where
  "update_client client f w =
     (case clients w client of
        None \<Rightarrow> (Ub, w)
      | Some c \<Rightarrow> (Ret (), w\<lparr>clients := (clients w)(client \<mapsto> f c)\<rparr>))"

definition dealloc :: "addr \<Rightarrow> unit srv" where
  "dealloc client =
     bindM (client_at client) (\<lambda>c.
     bindM (os_close (command_socket c)) (\<lambda>_.
     bindM (os_close (data_socket c)) (\<lambda>_.
     bindM (getM (\<lambda>w. unlink_client (Some client) (last_client w) (clients w))) (\<lambda>r.
     bindM (orUb r) (\<lambda>(last, h).
       modifyM (\<lambda>w. w\<lparr>last_client := last, clients := h\<rparr>))))))"

section \<open>The wrappers\<close>

text \<open>What all of them do on an error.\<close>

definition disconnected :: "addr \<Rightarrow> 'a srv" where
  "disconnected client =
     bindM (client_at client) (\<lambda>c.
     bindM (print_log_message (ip_address c) ''Disconnected'' None False) (\<lambda>_.
     bindM (dealloc client) (\<lambda>_. failM (Exit 0))))"

definition srv_receive_message_wrapper :: "fd \<Rightarrow> byte \<Rightarrow> byte list \<Rightarrow> addr \<Rightarrow> (byte \<times> byte list) srv" where
  "srv_receive_message_wrapper sock message_flag message client =
     bindM (receive_message sock message_flag message) (\<lambda>(error, flag, message).
       if error \<noteq> EXIT_SUCCESS then disconnected client else retM (flag, message))"

definition srv_recv_bytes_wrapper :: "byte list \<Rightarrow> nat \<Rightarrow> fd \<Rightarrow> u64 \<Rightarrow> addr \<Rightarrow> byte list srv" where
  "srv_recv_bytes_wrapper buf off sock bytes client =
     bindM (recv_bytes buf off sock bytes) (\<lambda>(error, buf).
       if error \<noteq> EXIT_SUCCESS then disconnected client else retM buf)"

definition srv_send_message_wrapper :: "fd \<Rightarrow> byte \<Rightarrow> byte list \<Rightarrow> addr \<Rightarrow> unit srv" where
  "srv_send_message_wrapper sock message_flag message client =
     bindM (send_message sock message_flag message) (\<lambda>error.
       if error \<noteq> EXIT_SUCCESS then disconnected client else retM ())"

text \<open>The path goes into \<open>client->file_path\<close>, behind the chroot directory and a slash when there is
  one.  The offset is \<^verbatim>\<open>dest_chroot_len + *is_dest_chroot\<close>.\<close>

definition chroot_prefix :: "byte list \<Rightarrow> bool \<Rightarrow> byte list \<Rightarrow> (nat \<times> byte list) option" where
  "chroot_prefix chroot chrooted path =
     (if chrooted then do {
        dest_chroot_len \<leftarrow> strnlen chroot PATH_MAX;
        d \<leftarrow> buf_read chroot 0 dest_chroot_len;
        path \<leftarrow> buf_write path 0 d;
        path \<leftarrow> buf_write path dest_chroot_len ''/'';
        Some (dest_chroot_len, path)
      } else Some (0, path))"

definition bad_path :: "addr \<Rightarrow> byte list \<Rightarrow> 'a srv" where
  "bad_path client path =
     bindM (client_at client) (\<lambda>c.
     bindM (srv_send_message_wrapper (command_socket c) (as_char FORCED_SOCKET_CLOSED) (cs ''BAD PATH'') client) (\<lambda>_.
     bindM (print_log_message (ip_address c) ''BAD PATH'' (Some path) True) (\<lambda>_.
     bindM (dealloc client) (\<lambda>_. failM (Exit 0)))))"

definition srv_load_path_wrapper :: "int \<Rightarrow> addr \<Rightarrow> int srv" where
  "srv_load_path_wrapper path_len client =
     bindM (client_at client) (\<lambda>c.
     bindM (getM (\<lambda>w. chroot_prefix (dest_chroot w) (is_dest_chroot w) (file_path c))) (\<lambda>r.
     bindM (orUb r) (\<lambda>(dest_chroot_len, path).
     bindM (getM is_dest_chroot) (\<lambda>chrooted.
     bindM (load_path path_len (data_socket c) path (dest_chroot_len + (if chrooted then 1 else 0))) (\<lambda>(error, path).
     bindM (update_client client (\<lambda>c. c\<lparr>file_path := path\<rparr>)) (\<lambda>_.
     if error \<noteq> EXIT_SUCCESS then disconnected client
     else bindM (orUb (c_str path)) (\<lambda>s.
       if strstr s ''../'' then bad_path client s
       else retM (path_len + int dest_chroot_len))))))))"

section \<open>What a thread keeps while it runs\<close>

text \<open>The client is there with its command socket, and the queue of that socket has not grown.\<close>

definition thread_inv :: "addr \<Rightarrow> fd \<Rightarrow> nat \<Rightarrow> server \<Rightarrow> bool" where
  "thread_inv client s n w \<longleftrightarrow>
     (\<exists>c. clients w client = Some c \<and> command_socket c = s) \<and> q_size (rx w s) \<le> n"

lemma thread_inv_net [simp]:
  "thread_inv a s n (w\<lparr>tx := x1\<rparr>) = thread_inv a s n w"
  "thread_inv a s n (w\<lparr>snd_evs := x2\<rparr>) = thread_inv a s n w"
  "thread_inv a s n (w\<lparr>errno := x3\<rparr>) = thread_inv a s n w"
  "thread_inv a s n (w\<lparr>logfile := x4\<rparr>) = thread_inv a s n w"
  "thread_inv a s n (w\<lparr>fs := x5\<rparr>) = thread_inv a s n w"
  "thread_inv a s n (w\<lparr>fopen_evs := x6\<rparr>) = thread_inv a s n w"
  "thread_inv a s n (w\<lparr>mkdir_evs := x7\<rparr>) = thread_inv a s n w"
  "thread_inv a s n (w\<lparr>fwrite_evs := x8\<rparr>) = thread_inv a s n w"
  by (simp_all add: thread_inv_def)

lemma thread_inv_rx:
  "thread_inv a s n w \<Longrightarrow> q_size q \<le> q_size (rx w t) \<Longrightarrow> thread_inv a s n (w\<lparr>rx := (rx w)(t := q)\<rparr>)"
  by (auto simp: thread_inv_def)

lemma on_ret_recv_bytes [on_ret_intros]: "on_ret (thread_inv a s n) (recv_bytes buf off t bytes)"
  by (rule on_retI) (auto dest!: recv_bytes_frame intro!: thread_inv_rx)

lemma on_ret_receive_message [on_ret_intros]: "on_ret (thread_inv a s n) (receive_message t flag m)"
  by (rule on_retI) (auto dest!: receive_message_frame intro!: thread_inv_rx)

lemma on_ret_send_message [on_ret_intros]: "on_ret (thread_inv a s n) (send_message t flag m)"
  by (rule on_retI) (auto dest!: send_message_frame)

lemma on_ret_print_log [on_ret_intros]: "on_ret (thread_inv a s n) (print_log_message ip m p e)"
  by (simp add: print_log_message_def on_ret_modifyM)

lemma on_ret_client_at [on_ret_intros]: "on_ret P (client_at a)"
  by (auto simp: on_ret_def client_at_def orUb_def split: option.splits)

lemma on_ret_update_client [on_ret_intros]:
  "(\<And>c. command_socket (f c) = command_socket c) \<Longrightarrow> on_ret (thread_inv a s n) (update_client b f)"
  by (auto simp: on_ret_def update_client_def thread_inv_def split: option.splits)

lemma disconnected_no_ret [simp]: "disconnected client w \<noteq> (Ret a, t)"
  by (simp add: disconnected_def bindM_eq_Ret)

lemma bad_path_no_ret [simp]: "bad_path client path w \<noteq> (Ret a, t)"
  by (simp add: bad_path_def bindM_eq_Ret)

lemma on_ret_ends [on_ret_intros]: "on_ret P (disconnected client)" "on_ret P (bad_path client path)"
  by (simp_all add: on_ret_def)

lemma on_ret_srv_wrappers [on_ret_intros]:
  "on_ret (thread_inv a s n) (srv_recv_bytes_wrapper buf off t bytes client)"
  "on_ret (thread_inv a s n) (srv_send_message_wrapper t flag m client)"
  "on_ret (thread_inv a s n) (srv_load_path_wrapper len client)"
  unfolding srv_recv_bytes_wrapper_def srv_send_message_wrapper_def srv_load_path_wrapper_def load_path_def
  by (intro on_ret_intros; simp)+

end
