(* ===== verification/Decimal.thy ===== *)
theory Decimal
  imports Prelude_LLNCP
begin

text \<open>
  The decimal conversions of the C library that the headers are written and read with:
  \<^verbatim>\<open>sprintf\<close> with \<^verbatim>\<open>%ld\<close> and \<^verbatim>\<open>%llu\<close>, \<^verbatim>\<open>strtol\<close> and \<^verbatim>\<open>strtoull\<close> in base 10 (leading
  white space, a sign, digits up to the first other byte, clamping on overflow).  Reading goes on
  to the first byte that is no digit: \<open>None\<close> if the array ends before one.
\<close>

section \<open>Printing\<close>

definition digit :: "nat \<Rightarrow> byte" where
  "digit d = byte_of (48 + d)"

fun decimal :: "nat \<Rightarrow> byte list" where
  "decimal n = (if n < 10 then [digit n] else decimal (n div 10) @ [digit (n mod 10)])"

declare decimal.simps [simp del]

definition sprintf_ld :: "int \<Rightarrow> byte list" where
  "sprintf_ld n = (if n < 0 then CHR ''-'' # decimal (nat (- n)) else decimal (nat n))"

definition sprintf_llu :: "u64 \<Rightarrow> byte list" where
  "sprintf_llu n = decimal (unat n)"

section \<open>Reading\<close>

definition digit_val :: "byte \<Rightarrow> nat option" where
  "digit_val c = (if 48 \<le> nat_of c \<and> nat_of c \<le> 57 then Some (nat_of c - 48) else None)"

definition is_space :: "byte \<Rightarrow> bool" where
  "is_space c \<longleftrightarrow> nat_of c = 32 \<or> (9 \<le> nat_of c \<and> nat_of c \<le> 13)"

fun scan_digits :: "nat \<Rightarrow> byte list \<Rightarrow> nat option" where
  "scan_digits acc [] = None"
| "scan_digits acc (c # s) =
     (case digit_val c of Some d \<Rightarrow> scan_digits (10 * acc + d) s | None \<Rightarrow> Some acc)"

text \<open>Sign and magnitude.\<close>

fun scan_number :: "byte list \<Rightarrow> (bool \<times> nat) option" where
  "scan_number [] = None"
| "scan_number (c # s) =
     (if is_space c then scan_number s
      else if c = CHR ''-'' then map_option (Pair True) (scan_digits 0 s)
      else if c = CHR ''+'' then map_option (Pair False) (scan_digits 0 s)
      else map_option (Pair False) (scan_digits 0 (c # s)))"

definition strtol :: "byte list \<Rightarrow> int option" where
  "strtol s = map_option (\<lambda>(neg, m).
     if neg then max (- (2 ^ 63)) (- int m) else min (2 ^ 63 - 1) (int m)) (scan_number s)"

definition strtoull :: "byte list \<Rightarrow> u64 option" where
  "strtoull s = map_option (\<lambda>(neg, m).
     if 2 ^ 64 \<le> m then - 1 else if neg then - of_nat m else of_nat m) (scan_number s)"

section \<open>What is printed is read back\<close>

lemma digit_val_digit [simp]: "d < 10 \<Longrightarrow> digit_val (digit d) = Some d"
  by (simp add: digit_val_def digit_def)

lemma digit_val_NUL [simp]: "digit_val NUL = None"
  by (simp add: digit_val_def)

lemma digit_not_special [simp]:
  "d < 10 \<Longrightarrow> \<not> is_space (digit d)" "d < 10 \<Longrightarrow> digit d \<noteq> CHR ''-''"
  "d < 10 \<Longrightarrow> digit d \<noteq> CHR ''+''" "d < 10 \<Longrightarrow> digit d \<noteq> NUL"
proof -
  assume d: "d < 10"
  then have n: "nat_of (digit d) = 48 + d" by (simp add: digit_def)
  with d show "\<not> is_space (digit d)" by (simp add: is_space_def)
  have "nat_of CHR ''-'' = 45" "nat_of CHR ''+'' = 43" by (simp_all add: nat_of_def)
  with n show "digit d \<noteq> CHR ''-''" "digit d \<noteq> CHR ''+''" "digit d \<noteq> NUL" by auto
qed

lemma decimal_digits: "c \<in> set (decimal n) \<Longrightarrow> \<exists>d<10. c = digit d"
  by (induction n rule: decimal.induct) (subst (asm) decimal.simps, force split: if_splits)

lemma decimal_no_NUL [simp]: "NUL \<notin> set (decimal n)"
  using decimal_digits digit_not_special(4) by metis

lemma decimal_not_Nil [simp]: "decimal n \<noteq> []"
  by (subst decimal.simps) simp

lemma scan_digits_append:
  "\<forall>c \<in> set s. \<exists>d<10. c = digit d \<Longrightarrow>
     scan_digits acc (s @ t) = scan_digits (foldl (\<lambda>a c. 10 * a + the (digit_val c)) acc s) t"
  by (induction s arbitrary: acc) (auto split: option.splits)

lemma foldl_decimal: "foldl (\<lambda>a c. 10 * a + the (digit_val c)) 0 (decimal n) = n"
proof (induction n rule: decimal.induct)
  case (1 n)
  show ?case
  proof (cases "n < 10")
    case True
    then show ?thesis by (subst decimal.simps) simp
  next
    case False
    with 1 have "foldl (\<lambda>a c. 10 * a + the (digit_val c)) 0 (decimal (n div 10)) = n div 10" by simp
    then show ?thesis using False by (subst decimal.simps) simp
  qed
qed

lemma scan_digits_decimal: "scan_digits 0 (decimal n @ NUL # rest) = Some n"
  using decimal_digits [of _ n] by (subst scan_digits_append) (auto simp: foldl_decimal)

lemma scan_number_decimal: "scan_number (decimal n @ NUL # rest) = Some (False, n)"
proof -
  obtain c s where cons: "decimal n = c # s" by (metis decimal_not_Nil list.exhaust)
  then obtain d where "d < 10" "c = digit d" using decimal_digits [of c n] by auto
  then show ?thesis using scan_digits_decimal [of n rest] cons by simp
qed

lemma strtoull_sprintf_llu: "strtoull (sprintf_llu n @ NUL # rest) = Some n"
proof -
  have "unat n < 2 ^ 64" using unsigned_less [of n, where ?'a = nat] by simp
  then show ?thesis by (simp add: strtoull_def sprintf_llu_def scan_number_decimal)
qed

lemma is_space_minus [simp]: "\<not> is_space CHR ''-''"
  by (simp add: is_space_def nat_of_def)

lemma strtol_sprintf_ld:
  assumes "- (2 ^ 63) \<le> n" and "n < 2 ^ 63"
  shows "strtol (sprintf_ld n @ NUL # rest) = Some n"
proof (cases "n < 0")
  case True
  then show ?thesis using assms scan_digits_decimal [of "nat (- n)" rest]
    by (simp add: strtol_def sprintf_ld_def)
next
  case False
  then show ?thesis using assms
    by (simp add: strtol_def sprintf_ld_def scan_number_decimal)
qed

lemma sprintf_no_NUL [simp]: "NUL \<notin> set (sprintf_ld n)" "NUL \<notin> set (sprintf_llu m)"
  by (auto simp: sprintf_ld_def sprintf_llu_def)

text \<open>What is behind the NUL does not matter.\<close>

lemma scan_digits_NUL: "scan_digits acc (a @ NUL # r) = scan_digits acc (a @ [NUL])"
  by (induction a arbitrary: acc) (auto split: option.splits)

lemma is_space_NUL [simp]: "\<not> is_space NUL"
  by (simp add: is_space_def)

lemma scan_number_NUL: "scan_number (a @ NUL # r) = scan_number (a @ [NUL])"
proof (induction a)
  case (Cons c a)
  then show ?case
    using scan_digits_NUL [of 0 "c # a" r] scan_digits_NUL [of 0 a r] by simp
qed simp

lemma strtol_NUL: "strtol (a @ NUL # r) = strtol (a @ [NUL])"
  and strtoull_NUL: "strtoull (a @ NUL # r) = strtoull (a @ [NUL])"
  by (simp_all add: strtol_def strtoull_def scan_number_NUL [of a r])

section \<open>How long the numbers get\<close>

lemma length_decimal_le: "0 < k \<Longrightarrow> length (decimal n) \<le> k \<longleftrightarrow> n < 10 ^ k"
proof (induction n arbitrary: k rule: decimal.induct)
  case (1 n)
  show ?case
  proof (cases "n < 10")
    case True
    have "(10::nat) ^ 1 \<le> 10 ^ k" using 1(2) by (intro power_increasing) simp_all
    with True 1(2) show ?thesis by (subst decimal.simps) auto
  next
    case False
    have step: "length (decimal n) = Suc (length (decimal (n div 10)))"
      using False by (subst decimal.simps) simp
    show ?thesis
    proof (cases "k = 1")
      case True
      have "0 < length (decimal (n div 10))" by simp
      with True False step show ?thesis by simp
    next
      case k: False
      then obtain j where j: "k = Suc j" "0 < j" using 1(2) by (cases k) auto
      have "length (decimal n) \<le> k \<longleftrightarrow> n div 10 < 10 ^ j"
        using step j 1(1) [OF False j(2)] by simp
      also have "\<dots> \<longleftrightarrow> n < 10 ^ k"
        using j by (simp add: less_mult_imp_div_less div_less_iff_less_mult mult.commute)
      finally show ?thesis .
    qed
  qed
qed

lemma length_decimal_pos [simp]: "0 < length (decimal n)"
  by simp

lemma length_sprintf_ld:
  assumes "- (2 ^ 63) \<le> n" and "n < 2 ^ 63"
  shows "length (sprintf_ld n) \<le> 20"
proof (cases "n < 0")
  case True
  have "nat (- n) < 10 ^ 19" using assms by (simp add: nat_less_iff)
  then have "length (decimal (nat (- n))) \<le> 19" by (subst length_decimal_le) simp_all
  with True show ?thesis by (simp add: sprintf_ld_def)
next
  case False
  have "nat n < 10 ^ 20" using assms by (simp add: nat_less_iff)
  then have "length (decimal (nat n)) \<le> 20" by (subst length_decimal_le) simp_all
  with False show ?thesis by (simp add: sprintf_ld_def)
qed

lemma length_sprintf_llu: "length (sprintf_llu n) \<le> 20"
proof -
  have "unat n < 10 ^ 20" using unsigned_less [of n, where ?'a = nat] by simp
  then show ?thesis by (simp add: sprintf_llu_def length_decimal_le)
qed

end
