(* ===== verification/Request_Header.thy ===== *)
theory Request_Header
  imports Libllncp Decimal "HOL-Library.Monad_Syntax"
begin

text \<open>
  The header of a request, from the client to the daemon:
  \<^verbatim>\<open>file_attrs_len\0source_path_len\0destination_path_len\0\<close>, the two lengths in decimal.
  It is written by \<open>create_file_attrs\<close> of \<^verbatim>\<open>src/client.c\<close> and read by \<open>load_file_attrs\<close> of
  \<^verbatim>\<open>src/client_daemon.c\<close>; both work in arrays of \<open>MAX_FILE_ATTRS_LEN\<close> bytes.
\<close>

section \<open>The client's side\<close>

record client_attrs =
  ca_file_attrs_len :: u8
  ca_source_path_len :: int
  ca_destination_path_len :: int
  ca_source_path :: "byte list"
  ca_destination_path :: "byte list"

text \<open>\<^verbatim>\<open>sprintf\<close> into an array of the given size: the text and its NUL have to fit.\<close>

definition sprintf_into :: "nat \<Rightarrow> byte list \<Rightarrow> byte list option" where
  "sprintf_into room text = (if length text + 1 \<le> room then Some text else None)"

definition create_file_attrs :: "client_attrs \<Rightarrow> byte list \<Rightarrow> (client_attrs \<times> byte list) option" where
  "create_file_attrs file_attrs file_attrs_buffer = do {
     source_path_len_string \<leftarrow> sprintf_into MAX_FILE_ATTRS_LEN (sprintf_ld (ca_source_path_len file_attrs));
     destination_path_len_string \<leftarrow> sprintf_into MAX_FILE_ATTRS_LEN (sprintf_ld (ca_destination_path_len file_attrs));
     let source_path_len_raw = length source_path_len_string;
     let destination_path_len_raw = length destination_path_len_string;
     let file_attrs_len = (of_nat (1 + 1 + source_path_len_raw + 1 + destination_path_len_raw + 1) :: u8);
     buf \<leftarrow> buf_write file_attrs_buffer 0 [byte_of (unat file_attrs_len)];
     buf \<leftarrow> buf_write buf 1 [NUL];
     buf \<leftarrow> buf_write buf 2 (source_path_len_string @ [NUL]);
     let tmp = 2 + source_path_len_raw + 1;
     buf \<leftarrow> buf_write buf tmp (destination_path_len_string @ [NUL]);
     Some (file_attrs\<lparr>ca_file_attrs_len := file_attrs_len\<rparr>, buf)
   }"

text \<open>The daemon's structure; \<open>Daemon_Request\<close> has the code that fills it.\<close>

record file_attrs =
  fa_structure_len :: u8
  fa_source_path_len :: int
  fa_destination_path_len :: int
  fa_source :: "byte list"
  fa_destination :: "byte list"

section \<open>The format\<close>

definition enc_request :: "int \<times> int \<Rightarrow> byte list" where
  "enc_request r =
     (let a = sprintf_ld (fst r); b = sprintf_ld (snd r) in
      byte_of (length a + length b + 4) # NUL # a @ NUL # b @ [NUL])"

text \<open>The header read off a stream: the length byte says where it ends, and the lengths of the two
  numbers have to add up to it.\<close>

definition dec_request :: "byte list \<Rightarrow> ((int \<times> int) \<times> byte list) option" where
  "dec_request bs = do {
     l \<leftarrow> (if bs = [] then None else Some (nat_of (hd bs)));
     if l < MIN_FILE_ATTRS_LEN \<or> length bs < l \<or> MAX_FILE_ATTRS_LEN < l then None else do {
       let h = drop 2 (take l bs);
       a \<leftarrow> c_str h;
       b \<leftarrow> c_str (drop (length a + 1) h);
       x \<leftarrow> strtol (a @ [NUL]);
       y \<leftarrow> strtol (b @ [NUL]);
       if l \<noteq> length a + length b + 4 then None else Some ((x, y), drop l bs)
     }
   }"

definition valid_request :: "int \<times> int \<Rightarrow> bool" where
  "valid_request r \<longleftrightarrow> (case r of (a, b) \<Rightarrow>
     - (2 ^ 63) \<le> a \<and> a < 2 ^ 63 \<and> - (2 ^ 63) \<le> b \<and> b < 2 ^ 63 \<and>
     length (sprintf_ld a) + length (sprintf_ld b) + 4 \<le> MAX_FILE_ATTRS_LEN)"

lemma sprintf_ld_not_Nil [simp]: "sprintf_ld n \<noteq> []"
  by (simp add: sprintf_ld_def)

lemma dec_enc_request:
  assumes "valid_request r"
  shows "dec_request (enc_request r @ rest) = Some (r, rest)"
proof -
  obtain a b where r: "r = (a, b)" by fastforce
  let ?a = "sprintf_ld a" and ?b = "sprintf_ld b"
  let ?l = "length ?a + length ?b + 4"
  have v: "- (2 ^ 63) \<le> a" "a < 2 ^ 63" "- (2 ^ 63) \<le> b" "b < 2 ^ 63" "?l \<le> 20"
    using assms r by (auto simp: valid_request_def MAX_FILE_ATTRS_LEN_def)
  have pos: "0 < length ?a" "0 < length ?b" by simp_all
  then have "6 \<le> ?l" by linarith
  have e: "enc_request r = byte_of ?l # NUL # ?a @ NUL # ?b @ [NUL]"
    using r by (simp add: enc_request_def Let_def)
  have h: "drop 2 (take ?l (enc_request r @ rest)) = ?a @ NUL # ?b @ [NUL]"
    and t: "drop ?l (enc_request r @ rest) = rest"
    by (simp_all add: e numeral_eq_Suc)
  have len: "?l \<le> length (enc_request r @ rest)"
    and hd: "nat_of (hd (enc_request r @ rest)) = ?l" "enc_request r @ rest \<noteq> []"
    using v(5) by (simp_all add: e)
  show ?thesis
    using v \<open>6 \<le> ?l\<close> h r t hd len
      strtol_sprintf_ld [OF v(1,2), of "[]"] strtol_sprintf_ld [OF v(3,4), of "[]"]
    by (simp add: dec_request_def Let_def sizes)
qed

interpretation requests: prefix_codec valid_request enc_request dec_request
  by unfold_locales (rule dec_enc_request)

section \<open>Both sides keep the format\<close>

lemma u8_of_nat: "n < 256 \<Longrightarrow> unat (of_nat n :: u8) = n"
  by (simp add: unat_of_nat take_bit_eq_mod)

lemma create_file_attrs_enc:
  assumes "valid_request (ca_source_path_len a, ca_destination_path_len a)"
    and "length buf = MAX_FILE_ATTRS_LEN"
  shows "create_file_attrs a buf =
    Some (a\<lparr>ca_file_attrs_len :=
        of_nat (length (enc_request (ca_source_path_len a, ca_destination_path_len a)))\<rparr>,
      patched buf 0 (enc_request (ca_source_path_len a, ca_destination_path_len a)))"
proof -
  let ?s = "sprintf_ld (ca_source_path_len a)" and ?d = "sprintf_ld (ca_destination_path_len a)"
  have l: "length ?s + length ?d \<le> 16"
    using assms(1) by (simp add: valid_request_def MAX_FILE_ATTRS_LEN_def)
  have room: "length buf = 20" using assms(2) by (simp add: MAX_FILE_ATTRS_LEN_def)
  let ?n = "1 + 1 + length ?s + 1 + length ?d + 1"
  let ?x = "byte_of (unat (of_nat ?n :: u8))"
  have into: "sprintf_into MAX_FILE_ATTRS_LEN ?s = Some ?s" "sprintf_into MAX_FILE_ATTRS_LEN ?d = Some ?d"
    using l by (simp_all add: sprintf_into_def MAX_FILE_ATTRS_LEN_def)
  have w1: "buf_write buf 0 [?x] = Some (patched buf 0 [?x])"
    using room by (intro buf_write_Some) simp
  have w: "buf_write (patched buf 0 [?x]) 1 [NUL] = Some (patched buf 0 ([?x] @ [NUL]))"
    "buf_write (patched buf 0 ([?x] @ [NUL])) 2 (?s @ [NUL]) =
      Some (patched buf 0 (([?x] @ [NUL]) @ ?s @ [NUL]))"
    "buf_write (patched buf 0 (([?x] @ [NUL]) @ ?s @ [NUL])) (2 + length ?s + 1) (?d @ [NUL]) =
      Some (patched buf 0 ((([?x] @ [NUL]) @ ?s @ [NUL]) @ ?d @ [NUL]))"
    using l room by (intro buf_write_next; simp)+
  have "unat (of_nat ?n :: u8) = ?n" using l by (intro u8_of_nat) linarith
  moreover have "?n = length ?s + length ?d + 4" by simp
  ultimately have x: "?x = byte_of (length ?s + length ?d + 4)" by (simp only:)
  have e: "(([?x] @ [NUL]) @ ?s @ [NUL]) @ ?d @ [NUL] =
      enc_request (ca_source_path_len a, ca_destination_path_len a)"
    unfolding x by (simp add: enc_request_def Let_def)
  have len: "length (enc_request (ca_source_path_len a, ca_destination_path_len a)) = ?n"
    by (simp add: enc_request_def Let_def)
  show ?thesis
    unfolding create_file_attrs_def Let_def into w1 w Option.bind_lunit e len by (rule refl)
qed

text \<open>What the reads of \<open>load_file_attrs\<close> leave in the array: the whole header.\<close>

lemma dec_requestD:
  assumes "dec_request bs = Some ((x, y), rest)"
  obtains l a b c where
    "l = length a + length b + 4" "6 \<le> l" "l \<le> 20" "l \<le> length bs" "rest = drop l bs"
    "take l bs = byte_of l # c # a @ NUL # b @ [NUL]"
    "NUL \<notin> set a" "NUL \<notin> set b" "strtol (a @ [NUL]) = Some x" "strtol (b @ [NUL]) = Some y"
proof -
  let ?l = "nat_of (hd bs)"
  let ?h = "drop 2 (take ?l bs)"
  from assms obtain a b where ab: "c_str ?h = Some a" "c_str (drop (length a + 1) ?h) = Some b"
    and n: "strtol (a @ [NUL]) = Some x" "strtol (b @ [NUL]) = Some y"
    and l: "6 \<le> ?l" "?l \<le> 20" "?l \<le> length bs" "?l = length a + length b + 4" "bs \<noteq> []"
      "rest = drop ?l bs"
    by (auto simp: dec_request_def Let_def sizes not_less split: bind_splits if_splits)
  obtain r where h: "?h = a @ NUL # r" using c_str_split [OF ab(1)] by blast
  then obtain r' where r: "r = b @ NUL # r'" using c_str_split ab(2) by fastforce
  have "length ?h = ?l - 2" using l(3) by simp
  then have "length a + length b + length r' + 2 = ?l - 2" unfolding h r by simp
  with l(1,4) have "r' = []" by simp
  moreover obtain c0 c1 cs' where bs: "bs = c0 # c1 # cs'"
    using l(1,3) by (cases bs rule: remdups_adj.cases) auto
  moreover have "take ?l bs = take 2 (take ?l bs) @ ?h" by (rule append_take_drop_id [symmetric])
  moreover have "take 2 (take ?l bs) = [c0, c1]" using l(1) bs by (simp add: min_def numeral_2_eq_2)
  ultimately have "take ?l bs = byte_of ?l # c1 # a @ NUL # b @ [NUL]"
    using h r by simp
  with that [of ?l a b c1] l n ab(1) ab(2) c_str_no_NUL show ?thesis by blast
qed

lemma u8_numbers:
  assumes "l < 256"
  shows "uint (of_nat l :: u8) = int l" and "(of_nat l :: u8) = 0 \<longleftrightarrow> l = 0"
  using assms u8_of_nat [OF assms]
  by (simp_all add: uint_nat word_of_nat_eq_0_iff) (metis dvd_imp_le gr0I leD dvd_0_right)

text \<open>Reading a header of \<open>l\<close> bytes in two parts: the fixed minimum, then the rest.\<close>

lemma two_reads:
  assumes "m \<le> l" and "l \<le> length buf" and "l \<le> length bs"
  shows "patched (patched buf 0 (take m bs)) m (take (l - m) (drop m bs)) = patched buf 0 (take l bs)"
  using assms patched_patched [of 0 "take m bs" "take (l - m) (drop m bs)" buf]
  by (simp add: take_take_drop)

section \<open>A whole request\<close>

text \<open>The header with the two paths and their NULs behind it.\<close>

lemma valid_request_paths:
  assumes "m \<le> PATH_MAX" and "n \<le> PATH_MAX"
  shows "valid_request (int m + 1, int n + 1)"
proof -
  have "length (sprintf_ld (int k + 1)) \<le> 4" if "k \<le> PATH_MAX" for k
    using that length_decimal_le [of 4 "k + 1"] by (simp add: sprintf_ld_def PATH_MAX_def nat_add_distrib)
  from this [OF assms(1)] this [OF assms(2)] show ?thesis
    using assms by (simp add: valid_request_def MAX_FILE_ATTRS_LEN_def PATH_MAX_def)
qed

definition request_bytes :: "byte list \<Rightarrow> byte list \<Rightarrow> byte list" where
  "request_bytes s d = enc_request (int (length s) + 1, int (length d) + 1) @ s @ [NUL] @ d @ [NUL]"

end
