(* ===== verification/Transfer_Header.thy ===== *)
theory Transfer_Header
  imports Request_Header
begin

text \<open>
  The header of a transfer, from the daemon to the server on the command socket:
  \<^verbatim>\<open>dest_file_attrs_len\0command\0path_len\0data_len\0discard\0\<close>, the three numbers in decimal.
  Here are the parts that only touch the \<^verbatim>\<open>struct dest_file_attrs\<close> and the header array: the
  writing half of the daemon's \<open>create_dest_file_attrs\<close> and the parsing half of the server's
  \<open>load_dest_file_attrs\<close> and \<open>parse_dest_file_attrs\<close>.
\<close>

record dest_file_attrs =
  structure_len :: u8
  command :: byte
  path_len :: int
  data_len :: u64
  discard :: u64

section \<open>Writing\<close>

text \<open>All three numbers are printed into arrays of \<open>MAX_HEADER_LEN\<close> bytes, and then copied into an
  array of the same size.\<close>

definition write_dest_header :: "dest_file_attrs \<Rightarrow> byte list \<Rightarrow> (dest_file_attrs \<times> byte list) option" where
  "write_dest_header da dest_file_attrs_buffer = do {
     data_len_s \<leftarrow> sprintf_into MAX_HEADER_LEN (sprintf_llu (data_len da));
     path_len_s \<leftarrow> sprintf_into MAX_HEADER_LEN (sprintf_ld (path_len da));
     discard_s \<leftarrow> sprintf_into MAX_HEADER_LEN (sprintf_llu (discard da));
     let path_len_raw = length path_len_s;
     let data_len_raw = length data_len_s;
     let discard_len_raw = length discard_s;
     let len = (of_nat (1 + 1 + 1 + 1 + path_len_raw + 1 + data_len_raw + 1 + discard_len_raw + 1) :: u8);
     buf \<leftarrow> buf_write dest_file_attrs_buffer 0 [byte_of (unat len)];
     buf \<leftarrow> buf_write buf 1 [NUL];
     buf \<leftarrow> buf_write buf 2 [command da];
     buf \<leftarrow> buf_write buf 3 [NUL];
     buf \<leftarrow> buf_write buf 4 (path_len_s @ [NUL]);
     buf \<leftarrow> buf_write buf (4 + path_len_raw + 1) (data_len_s @ [NUL]);
     buf \<leftarrow> buf_write buf (4 + path_len_raw + 1 + data_len_raw + 1) (discard_s @ [NUL]);
     Some (da\<lparr>structure_len := len\<rparr>, buf)
   }"

section \<open>Parsing\<close>

text \<open>The second component is the code's \<^verbatim>\<open>CRC\<close>: do the field lengths add up to the length
  byte?\<close>

definition parse_dest_fields :: "byte list \<Rightarrow> dest_file_attrs \<Rightarrow> (dest_file_attrs \<times> bool) option" where
  "parse_dest_fields dest_file_attrs_buffer da = do {
     let path_len_string = drop 4 dest_file_attrs_buffer;
     path_len' \<leftarrow> strtol path_len_string;
     path_len_raw \<leftarrow> strnlen path_len_string MAX_HEADER_LEN;
     let data_len_string = drop (path_len_raw + 1) path_len_string;
     data_len' \<leftarrow> strtoull data_len_string;
     data_len_raw \<leftarrow> strnlen data_len_string MAX_HEADER_LEN;
     let discard_len_string = drop (data_len_raw + 1) data_len_string;
     discard' \<leftarrow> strtoull discard_len_string;
     discard_len_raw \<leftarrow> strnlen discard_len_string MAX_HEADER_LEN;
     Some (da\<lparr>path_len := path_len', data_len := data_len', discard := discard'\<rparr>,
       int (1 + 1 + 1 + 1 + path_len_raw + 1 + data_len_raw + 1 + discard_len_raw + 1) =
         uint (structure_len da))
   }"

section \<open>The format\<close>

text \<open>A header value: command, path length, data length, bytes to discard.\<close>

type_synonym transfer = "byte \<times> int \<times> u64 \<times> u64"

definition header_of :: "dest_file_attrs \<Rightarrow> transfer" where
  "header_of da = (command da, path_len da, data_len da, discard da)"

definition header_len :: "transfer \<Rightarrow> nat" where
  "header_len t = (case t of (c, p, d, x) \<Rightarrow>
     length (sprintf_ld p) + length (sprintf_llu d) + length (sprintf_llu x) + 7)"

definition enc_transfer :: "transfer \<Rightarrow> byte list" where
  "enc_transfer t = (case t of (c, p, d, x) \<Rightarrow>
     byte_of (header_len t) # NUL # c # NUL #
       sprintf_ld p @ NUL # sprintf_llu d @ NUL # sprintf_llu x @ [NUL])"

definition dec_transfer :: "byte list \<Rightarrow> (transfer \<times> byte list) option" where
  "dec_transfer bs = do {
     l \<leftarrow> (if bs = [] then None else Some (nat_of (hd bs)));
     if l < MIN_DEST_FILE_ATTRS_LEN \<or> length bs < l \<or> MAX_HEADER_LEN < l then None else do {
       let h = drop 4 (take l bs);
       a \<leftarrow> c_str h;
       b \<leftarrow> c_str (drop (length a + 1) h);
       c \<leftarrow> c_str (drop (length b + 1) (drop (length a + 1) h));
       p \<leftarrow> strtol (a @ [NUL]);
       d \<leftarrow> strtoull (b @ [NUL]);
       x \<leftarrow> strtoull (c @ [NUL]);
       if l \<noteq> length a + length b + length c + 7 then None
       else Some ((bs ! 2, p, d, x), drop l bs)
     }
   }"

definition valid_transfer :: "transfer \<Rightarrow> bool" where
  "valid_transfer t \<longleftrightarrow> header_len t \<le> MAX_HEADER_LEN \<and>
     (case t of (c, p, d, x) \<Rightarrow> - (2 ^ 63) \<le> p \<and> p < 2 ^ 63)"

lemma sprintf_llu_not_Nil [simp]: "sprintf_llu n \<noteq> []"
  by (simp add: sprintf_llu_def)

lemma length_enc_transfer [simp]: "length (enc_transfer t) = header_len t"
  by (simp add: enc_transfer_def header_len_def split: prod.splits)

lemma header_len_ge: "10 \<le> header_len t"
proof -
  obtain c p d x where t: "t = (c, p, d, x)" by (metis prod.collapse)
  have "0 < length (sprintf_ld p)" "0 < length (sprintf_llu d)" "0 < length (sprintf_llu x)" by simp_all
  then show ?thesis unfolding t header_len_def prod.case by linarith
qed

text \<open>Where a stream starts with a complete header, and conversely.\<close>

lemma dec_transferI:
  assumes "bs \<noteq> []" and "nat_of (hd bs) = l" and "10 \<le> l" and "l \<le> 31" and "l \<le> length bs"
    and "drop 4 (take l bs) = a @ NUL # b @ NUL # c @ [NUL]"
    and "NUL \<notin> set a" and "NUL \<notin> set b" and "NUL \<notin> set c"
    and "strtol (a @ [NUL]) = Some p" and "strtoull (b @ [NUL]) = Some d"
    and "strtoull (c @ [NUL]) = Some x" and "l = length a + length b + length c + 7"
  shows "dec_transfer bs = Some ((bs ! 2, p, d, x), drop l bs)"
  using assms(1-5,7-12) unfolding dec_transfer_def assms(2)
  by (simp add: Let_def sizes assms(6)) (simp add: assms(13))

lemma dec_enc_transfer:
  assumes "valid_transfer t"
  shows "dec_transfer (enc_transfer t @ rest) = Some (t, rest)"
proof -
  obtain c p d x where t: "t = (c, p, d, x)" by (metis prod.collapse)
  let ?a = "sprintf_ld p" and ?b = "sprintf_llu d" and ?c = "sprintf_llu x"
  let ?l = "header_len t"
  have v: "- (2 ^ 63) \<le> p" "p < 2 ^ 63" "?l \<le> 31"
    using assms t by (auto simp: valid_transfer_def MAX_HEADER_LEN_def)
  have e: "enc_transfer t = byte_of ?l # NUL # c # NUL # ?a @ NUL # ?b @ NUL # ?c @ [NUL]"
    using t by (simp add: enc_transfer_def)
  have "take ?l (enc_transfer t @ rest) = enc_transfer t" by simp
  then have h: "drop 4 (take ?l (enc_transfer t @ rest)) = ?a @ NUL # ?b @ NUL # ?c @ [NUL]"
    by (simp add: e)
  have hd: "nat_of (hd (enc_transfer t @ rest)) = ?l" "enc_transfer t @ rest \<noteq> []"
    "(enc_transfer t @ rest) ! 2 = c"
    using v(3) by (simp_all add: e)
  have l: "?l = length ?a + length ?b + length ?c + 7" by (simp add: header_len_def t)
  have n: "strtol (?a @ [NUL]) = Some p" "strtoull (?b @ [NUL]) = Some d" "strtoull (?c @ [NUL]) = Some x"
    using strtol_sprintf_ld [OF v(1,2), of "[]"] strtoull_sprintf_llu [of _ "[]"] by simp_all
  have "dec_transfer (enc_transfer t @ rest) =
      Some (((enc_transfer t @ rest) ! 2, p, d, x), drop ?l (enc_transfer t @ rest))"
    by (rule dec_transferI [OF hd(2,1) header_len_ge v(3) _ h _ _ _ n l]) simp_all
  then show ?thesis using hd(3) t by simp
qed

interpretation transfers: prefix_codec valid_transfer enc_transfer dec_transfer
  by unfold_locales (rule dec_enc_transfer)

section \<open>The daemon writes the format, as far as its array goes\<close>

lemma fixed_writes:
  assumes "length buf = 31" and "length a \<le> 20"
  shows "do { buf \<leftarrow> buf_write buf 0 [x]; buf \<leftarrow> buf_write buf 1 [NUL]; buf \<leftarrow> buf_write buf 2 [c];
      buf \<leftarrow> buf_write buf 3 [NUL]; buf \<leftarrow> buf_write buf 4 (a @ [NUL]); f buf } =
    f (patched buf 0 ([x, NUL, c, NUL] @ a @ [NUL]))"
proof -
  have w: "buf_write buf 0 [x] = Some (patched buf 0 [x])"
    "buf_write (patched buf 0 [x]) 1 [NUL] = Some (patched buf 0 ([x] @ [NUL]))"
    "buf_write (patched buf 0 ([x] @ [NUL])) 2 [c] = Some (patched buf 0 (([x] @ [NUL]) @ [c]))"
    "buf_write (patched buf 0 (([x] @ [NUL]) @ [c])) 3 [NUL] =
      Some (patched buf 0 ((([x] @ [NUL]) @ [c]) @ [NUL]))"
    "buf_write (patched buf 0 ((([x] @ [NUL]) @ [c]) @ [NUL])) 4 (a @ [NUL]) =
      Some (patched buf 0 (((([x] @ [NUL]) @ [c]) @ [NUL]) @ a @ [NUL]))"
    using assms by (simp add: buf_write_Some, (intro buf_write_next; simp)+)
  then show ?thesis by simp
qed

text \<open>The last two fields are the ones that can run over the end.\<close>

lemma last_writes:
  assumes "b \<noteq> []" and "length xs \<le> length buf" and "off = length xs"
  shows "do { buf \<leftarrow> buf_write (patched buf 0 xs) off (b @ [NUL]);
      buf \<leftarrow> buf_write buf (off + length b + 1) (c @ [NUL]); f buf } =
    (if length xs + length b + length c + 2 \<le> length buf
     then f (patched buf 0 ((xs @ b @ [NUL]) @ c @ [NUL])) else None)"
proof (cases "length xs + length (b @ [NUL]) \<le> length buf")
  case True
  have "buf_write (patched buf 0 (xs @ b @ [NUL])) (off + length b + 1) (c @ [NUL]) =
      (if length (xs @ b @ [NUL]) + length (c @ [NUL]) \<le> length buf
       then Some (patched buf 0 ((xs @ b @ [NUL]) @ c @ [NUL])) else None)"
    using assms True by (intro buf_write_next_if) simp_all
  with True assms show ?thesis by (simp add: buf_write_next_if)
next
  case False
  with assms show ?thesis by (simp add: buf_write_next_if)
qed

lemma write_dest_header_spec:
  assumes "length buf = MAX_HEADER_LEN" and "- (2 ^ 63) \<le> path_len da" and "path_len da < 2 ^ 63"
  shows "write_dest_header da buf =
    (if header_len (header_of da) \<le> MAX_HEADER_LEN
     then Some (da\<lparr>structure_len := of_nat (header_len (header_of da))\<rparr>,
       patched buf 0 (enc_transfer (header_of da)))
     else None)"
proof -
  let ?a = "sprintf_ld (path_len da)" and ?b = "sprintf_llu (data_len da)" and ?c = "sprintf_llu (discard da)"
  let ?n = "1 + 1 + 1 + 1 + length ?a + 1 + length ?b + 1 + length ?c + 1"
  let ?x = "[byte_of (unat (of_nat ?n :: u8)), NUL, command da, NUL] @ ?a @ [NUL]"
  have len: "header_len (header_of da) = ?n" by (simp add: header_len_def header_of_def)
  have room: "length buf = 31" using assms(1) by (simp add: MAX_HEADER_LEN_def)
  have la: "length ?a \<le> 20" and lb: "length ?b \<le> 20" and lc: "length ?c \<le> 20"
    using assms length_sprintf_ld length_sprintf_llu by simp_all
  then have into: "sprintf_into MAX_HEADER_LEN ?a = Some ?a" "sprintf_into MAX_HEADER_LEN ?b = Some ?b"
    "sprintf_into MAX_HEADER_LEN ?c = Some ?c"
    by (simp_all add: sprintf_into_def MAX_HEADER_LEN_def)
  have "write_dest_header da buf =
      (if length ?x + length ?b + length ?c + 2 \<le> length buf
       then Some (da\<lparr>structure_len := of_nat ?n\<rparr>, patched buf 0 ((?x @ ?b @ [NUL]) @ ?c @ [NUL]))
       else None)"
    unfolding write_dest_header_def Let_def into Option.bind_lunit fixed_writes [OF room la]
    by (rule last_writes) (use room la in simp_all)
  moreover have "(?x @ ?b @ [NUL]) @ ?c @ [NUL] = enc_transfer (header_of da)" if "?n \<le> 31"
  proof -
    have "unat (of_nat ?n :: u8) = ?n" using that by (intro u8_of_nat) linarith
    then show ?thesis
      unfolding enc_transfer_def header_of_def prod.case len [unfolded header_of_def] by simp
  qed
  ultimately show ?thesis
    unfolding len using room by (simp only: MAX_HEADER_LEN_def) (simp del: of_nat_add)
qed

section \<open>The server parses the format\<close>

lemma dec_transferD:
  assumes "dec_transfer bs = Some ((cmd, p, d, x), rest)"
  obtains l a b c u v where
    "l = length a + length b + length c + 7" "10 \<le> l" "l \<le> 31" "l \<le> length bs" "rest = drop l bs"
    "take l bs = byte_of l # u # cmd # v # a @ NUL # b @ NUL # c @ [NUL]"
    "NUL \<notin> set a" "NUL \<notin> set b" "NUL \<notin> set c"
    "strtol (a @ [NUL]) = Some p" "strtoull (b @ [NUL]) = Some d" "strtoull (c @ [NUL]) = Some x"
proof -
  let ?l = "nat_of (hd bs)"
  let ?h = "drop 4 (take ?l bs)"
  from assms obtain a b c where
    abc: "c_str ?h = Some a" "c_str (drop (length a + 1) ?h) = Some b"
      "c_str (drop (length b + 1) (drop (length a + 1) ?h)) = Some c"
    and n: "strtol (a @ [NUL]) = Some p" "strtoull (b @ [NUL]) = Some d" "strtoull (c @ [NUL]) = Some x"
    and l: "10 \<le> ?l" "?l \<le> 31" "?l \<le> length bs" "?l = length a + length b + length c + 7" "bs \<noteq> []"
      "rest = drop ?l bs" "cmd = bs ! 2"
    by (auto simp: dec_transfer_def Let_def sizes not_less split: bind_splits if_splits)
  obtain r where h: "?h = a @ NUL # r" using c_str_split [OF abc(1)] by blast
  then obtain r' where r: "r = b @ NUL # r'" using c_str_split abc(2) by fastforce
  then obtain r'' where r': "r' = c @ NUL # r''" using c_str_split abc(3) h by fastforce
  have "length ?h = ?l - 4" using l(3) by simp
  then have "length a + length b + length c + length r'' + 3 = ?l - 4" unfolding h r r' by simp
  with l(1,4) have "r'' = []" by simp
  moreover obtain c0 c1 c2 c3 cs' where bs: "bs = c0 # c1 # c2 # c3 # cs'"
    using l(1,3) by (cases bs; cases "tl bs"; cases "tl (tl bs)"; cases "tl (tl (tl bs))") auto
  moreover have "take ?l bs = take 4 (take ?l bs) @ ?h" by (rule append_take_drop_id [symmetric])
  moreover have "take 4 (take ?l bs) = [c0, c1, c2, c3]" using l(1) bs by (simp add: min_def eval_nat_numeral)
  ultimately have "take ?l bs = byte_of ?l # c1 # cmd # c3 # a @ NUL # b @ NUL # c @ [NUL]"
    using h r r' l(7) by simp
  with that [of ?l a b c c1 c3] l n abc c_str_no_NUL show ?thesis by blast
qed

lemma parse_dest_fields_spec:
  assumes "NUL \<notin> set a" and "NUL \<notin> set b" and "NUL \<notin> set c"
    and "strtol (a @ [NUL]) = Some p" and "strtoull (b @ [NUL]) = Some d" and "strtoull (c @ [NUL]) = Some x"
    and "length a \<le> 31" and "length b \<le> 31" and "length c \<le> 31"
  shows "parse_dest_fields (t # u # cmd # v # a @ NUL # b @ NUL # c @ NUL # tail) da =
    Some (da\<lparr>path_len := p, data_len := d, discard := x\<rparr>,
      int (length a + length b + length c + 7) = uint (structure_len da))"
  using assms strtol_NUL [of a "b @ NUL # c @ NUL # tail"] strtoull_NUL [of b "c @ NUL # tail"]
    strtoull_NUL [of c tail]
  by (simp add: parse_dest_fields_def Let_def strnlen_string MAX_HEADER_LEN_def min_def add.commute)

section \<open>What is transferred\<close>

text \<open>What the header will say of a source file or directory.\<close>

definition node_command :: "node \<Rightarrow> byte" where
  "node_command nd = (case nd of Dir \<Rightarrow> as_char MK_DIRECTORY | File bs \<Rightarrow> as_char MK_FILE)"

definition node_bytes :: "node \<Rightarrow> byte list" where
  "node_bytes nd = (case nd of Dir \<Rightarrow> [] | File bs \<Rightarrow> bs)"

definition announced :: "node \<Rightarrow> byte list \<Rightarrow> u64 \<Rightarrow> transfer" where
  "announced nd d x = (node_command nd, int (length d) + 1, of_nat (length (node_bytes nd)), x)"

lemma node_bytes_simps [simp]: "node_bytes Dir = []" "node_bytes (File bs) = bs"
  by (simp_all add: node_bytes_def)

lemma node_command_simps [simp]:
  "node_command Dir = as_char MK_DIRECTORY" "node_command (File bs) = as_char MK_FILE"
  by (simp_all add: node_command_def)

text \<open>Headers with numbers of at most eight digits fit.\<close>

lemma length_decimal_small: "n < 10 ^ 8 \<Longrightarrow> length (decimal n) \<le> 8"
  using length_decimal_le [of 8 n] by simp

lemma valid_small_transfer:
  assumes "0 \<le> p" and "p < 10 ^ 8" and "unat d < 10 ^ 8" and "unat x < 10 ^ 8"
  shows "valid_transfer (c, p, d, x)"
proof -
  have "length (sprintf_ld p) \<le> 8" using assms(1,2) length_decimal_small [of "nat p"] by (simp add: sprintf_ld_def)
  moreover have "length (sprintf_llu d) \<le> 8" "length (sprintf_llu x) \<le> 8"
    using assms(3,4) length_decimal_small by (simp_all add: sprintf_llu_def)
  ultimately show ?thesis using assms(1,2) by (simp add: valid_transfer_def header_len_def MAX_HEADER_LEN_def)
qed

end
