(* ===== verification/Chunks.thy ===== *)
theory Chunks
  imports Kernel
begin

text \<open>
  The shape of every bulk transfer of the program: as many blocks of \<open>BUFFERSIZE\<close> bytes as fit, then
  the remainder, each passing on some local data.  The locale says what one block has to do (take
  its bytes off a source, in order, and lead from a good state to a good one); its lemmas say what
  the whole loop then does.  The server's \<open>write_data\<close> and \<open>discard_data\<close> and the daemon's
  \<open>send_data\<close> are its instances.
\<close>

locale chunked_loop =
  fixes blocks :: "nat \<Rightarrow> 'b \<Rightarrow> ('s, 'b) prog"
    and chunk :: "nat \<Rightarrow> 'b \<Rightarrow> ('s, 'b) prog"
    and passed :: "'b \<Rightarrow> bool"
    and good :: "'s \<Rightarrow> bool"
    and src :: "'s \<Rightarrow> byte list"
    and absorb :: "nat \<Rightarrow> 's \<Rightarrow> 's \<Rightarrow> bool"
  assumes blocks_0: "blocks 0 b w = (Ret b, w)"
    and blocks_Suc: "blocks (Suc i) b w = bindM (chunk BUFFERSIZE b) (blocks i) w"
    and chunk_ok: "good w \<Longrightarrow> n \<le> BUFFERSIZE \<Longrightarrow> passed b \<Longrightarrow> n \<le> length (src w) \<Longrightarrow>
      \<exists>b' w'. passed b' \<and> chunk n b w = (Ret b', w') \<and> absorb n w w'"
    and absorbed: "good w \<Longrightarrow> absorb n w w' \<Longrightarrow> n \<le> length (src w) \<Longrightarrow> good w' \<and> src w' = drop n (src w)"
    and absorb_trans: "good w \<Longrightarrow> absorb m w v \<Longrightarrow> absorb n v u \<Longrightarrow> m + n \<le> length (src w) \<Longrightarrow>
      absorb (m + n) w u"
    and absorb_0: "good w \<Longrightarrow> absorb 0 w w"
begin

lemma blocks_ok:
  assumes "good w" and "passed b" and "k * BUFFERSIZE \<le> length (src w)"
  shows "\<exists>b' w'. passed b' \<and> blocks k b w = (Ret b', w') \<and> absorb (k * BUFFERSIZE) w w'"
  using assms
proof (induction k arbitrary: b w)
  case 0
  then show ?case by (auto simp: blocks_0 absorb_0)
next
  case (Suc k)
  have room: "BUFFERSIZE \<le> length (src w)" "BUFFERSIZE + k * BUFFERSIZE \<le> length (src w)"
    using Suc.prems(3) by simp_all
  obtain c v where c: "passed c" "chunk BUFFERSIZE b w = (Ret c, v)" "absorb BUFFERSIZE w v"
    using chunk_ok [OF Suc.prems(1) le_refl Suc.prems(2) room(1)] by blast
  note v = absorbed [OF Suc.prems(1) c(3) room(1)]
  then have "k * BUFFERSIZE \<le> length (src v)" using room(2) by simp
  then obtain d u where "passed d" "blocks k c v = (Ret d, u)" "absorb (k * BUFFERSIZE) v u"
    using Suc.IH [OF _ c(1)] v by blast
  then show ?case
    using c(2) absorb_trans [OF Suc.prems(1) c(3) _ room(2)] by (auto simp: blocks_Suc bindM_def)
qed

definition whole :: "u64 \<Rightarrow> 'b \<Rightarrow> ('s, 'b) prog" where
  "whole len b =
     bindM (blocks (unat (len div of_nat BUFFERSIZE)) b) (\<lambda>b.
       if unat (len mod of_nat BUFFERSIZE) \<noteq> 0 then chunk (unat (len mod of_nat BUFFERSIZE)) b
       else retM b)"

lemma split_len:
  "unat (len div of_nat BUFFERSIZE :: u64) * BUFFERSIZE + unat (len mod of_nat BUFFERSIZE) = unat len"
  "unat (len mod of_nat BUFFERSIZE :: u64) < BUFFERSIZE"
  by (simp_all add: unat_div unat_mod BUFFERSIZE_def)

lemma whole_ok:
  assumes "good w" and "passed b" and "unat len \<le> length (src w)"
  shows "\<exists>b' w'. passed b' \<and> whole len b w = (Ret b', w') \<and> absorb (unat len) w w'"
proof -
  let ?k = "unat (len div of_nat BUFFERSIZE) * BUFFERSIZE" and ?r = "unat (len mod of_nat BUFFERSIZE)"
  note sum = split_len(1) [of len]
  then have le: "?k + ?r \<le> length (src w)" "?k \<le> length (src w)" using assms(3) by linarith+
  obtain c v where c: "passed c" "blocks (unat (len div of_nat BUFFERSIZE)) b w = (Ret c, v)" "absorb ?k w v"
    using blocks_ok [OF assms(1,2) le(2)] by blast
  show ?thesis
  proof (cases "?r = 0")
    case True
    with c sum show ?thesis by (simp add: whole_def bindM_def)
  next
    case False
    note v = absorbed [OF assms(1) c(3) le(2)]
    then have "?r \<le> length (src v)" using le(1) by simp
    then obtain d u where "passed d" "chunk ?r c v = (Ret d, u)" "absorb ?r v u"
      using chunk_ok [OF _ less_imp_le [OF split_len(2)] c(1)] v by blast
    with c(2) False absorb_trans [OF assms(1) c(3) _ le(1)] sum show ?thesis
      by (auto simp: whole_def bindM_def)
  qed
qed

end

lemma unat_block: "n \<le> BUFFERSIZE \<Longrightarrow> unat (of_nat n :: u64) = n"
  by (simp add: BUFFERSIZE_def unat_of_nat take_bit_eq_mod)

end
