(* ===== verification/Server_Thread.thy ===== *)
theory Server_Thread
  imports Server_State Transfer_Header Chunks
begin

text \<open>
  The thread of one connected daemon in \<^verbatim>\<open>src/server.c\<close>: authentication, then one transfer after
  the other, each with its header, the bytes to discard, the path and the file data.  The arrays
  that are uninitialised locals in the code (\<open>message\<close>, \<open>dest_file_attrs_buffer\<close>,
  \<open>data_buffer\<close>, the header structure) are arguments.
\<close>

section \<open>The header\<close>

definition unknown_protocol :: "addr \<Rightarrow> 'a srv" where
  "unknown_protocol client =
     bindM (client_at client) (\<lambda>c.
     bindM (print_log_message (ip_address c) ''UNKNOWN PROTOCOL OR NETWORK FAILURE'' None True) (\<lambda>_.
     bindM (dealloc client) (\<lambda>_. failM (Exit 0))))"

definition load_dest_file_attrs ::
  "byte list \<Rightarrow> dest_file_attrs \<Rightarrow> addr \<Rightarrow> (byte list \<times> dest_file_attrs) srv" where
  "load_dest_file_attrs dest_file_attrs_buffer da client =
     bindM (client_at client) (\<lambda>c.
     bindM (srv_recv_bytes_wrapper dest_file_attrs_buffer 0 (command_socket c)
        (of_nat MIN_DEST_FILE_ATTRS_LEN) client) (\<lambda>buf.
     let len = (of_nat (nat_of (buf ! 0)) :: u8) in
     if len = 0 \<or> uint len - int MIN_DEST_FILE_ATTRS_LEN < 0 then unknown_protocol client
     else
     bindM (srv_recv_bytes_wrapper buf MIN_DEST_FILE_ATTRS_LEN (command_socket c)
        (word_of_int (uint len - int MIN_DEST_FILE_ATTRS_LEN)) client) (\<lambda>buf.
     retM (buf, da\<lparr>structure_len := len, command := buf ! 2\<rparr>))))"

definition parse_dest_file_attrs :: "byte list \<Rightarrow> dest_file_attrs \<Rightarrow> addr \<Rightarrow> dest_file_attrs srv" where
  "parse_dest_file_attrs dest_file_attrs_buffer da client =
     bindM (orUb (parse_dest_fields dest_file_attrs_buffer da)) (\<lambda>(da, crc).
       if \<not> crc then unknown_protocol client else retM da)"

section \<open>File data\<close>

text \<open>\<^verbatim>\<open>fopen(path, "wb")\<close> creates or empties the file, \<^verbatim>\<open>mkdir\<close> creates a directory; both are -1
  or NULL with an error number when the operating system refuses.  \<^verbatim>\<open>fwrite\<close> appends to the open
  file, unless it fails.\<close>

definition os_fopen_wb :: "byte list \<Rightarrow> bool srv" where
  "os_fopen_wb path w =
     (case fopen_evs w of
        Some e # es \<Rightarrow> (Ret False, w\<lparr>fopen_evs := es, errno := e\<rparr>)
      | evs \<Rightarrow> (Ret True, w\<lparr>fopen_evs := tl evs, fs := (fs w)(path \<mapsto> File [])\<rparr>))"

definition os_mkdir :: "byte list \<Rightarrow> int srv" where
  "os_mkdir path w =
     (case mkdir_evs w of
        Some e # es \<Rightarrow> (Ret (- 1), w\<lparr>mkdir_evs := es, errno := e\<rparr>)
      | evs \<Rightarrow> (Ret 0, w\<lparr>mkdir_evs := tl evs, fs := (fs w)(path \<mapsto> Dir)\<rparr>))"

definition file_append :: "byte list \<Rightarrow> byte list \<Rightarrow> (byte list \<Rightarrow> node option) \<Rightarrow> byte list \<Rightarrow> node option" where
  "file_append path bs f =
     (case f path of Some (File old) \<Rightarrow> f(path \<mapsto> File (old @ bs)) | _ \<Rightarrow> f)"

text \<open>The result is \<^verbatim>\<open>ferror(file)\<close> after the call.\<close>

definition os_fwrite :: "byte list \<Rightarrow> byte list \<Rightarrow> bool srv" where
  "os_fwrite bs file w =
     (case fwrite_evs w of
        Some e # es \<Rightarrow> (Ret True, w\<lparr>fwrite_evs := es, errno := e\<rparr>)
      | evs \<Rightarrow> (Ret False, w\<lparr>fwrite_evs := tl evs, fs := file_append file bs (fs w)\<rparr>))"

definition strerror :: "byte list srv" where
  "strerror = getM (\<lambda>w. errtext w (errno w))"

definition fwrite_failed :: "addr \<Rightarrow> 'a srv" where
  "fwrite_failed client =
     bindM (client_at client) (\<lambda>c.
     bindM strerror (\<lambda>msg.
     bindM (srv_send_message_wrapper (command_socket c) (as_char FORCED_SOCKET_CLOSED) (cs msg) client) (\<lambda>_.
     bindM strerror (\<lambda>msg.
     bindM (print_log_message (ip_address c) msg None True) (\<lambda>_.
     bindM (print_log_message (ip_address c) ''fwrite FATAL ERROR, Disconnected'' None True) (\<lambda>_.
     bindM (dealloc client) (\<lambda>_. failM (Exit 0))))))))"

definition write_block :: "nat \<Rightarrow> byte list \<Rightarrow> byte list \<Rightarrow> addr \<Rightarrow> byte list srv" where
  "write_block n data_buffer file client =
     bindM (client_at client) (\<lambda>c.
     bindM (srv_recv_bytes_wrapper data_buffer 0 (data_socket c) (of_nat n) client) (\<lambda>buf.
     bindM (os_fwrite (take n buf) file) (\<lambda>err.
       if err then fwrite_failed client else retM buf)))"

fun write_blocks :: "nat \<Rightarrow> byte list \<Rightarrow> byte list \<Rightarrow> addr \<Rightarrow> byte list srv" where
  "write_blocks 0 data_buffer file client = retM data_buffer"
| "write_blocks (Suc i) data_buffer file client =
     bindM (write_block BUFFERSIZE data_buffer file client) (\<lambda>buf. write_blocks i buf file client)"

definition write_data :: "byte list \<Rightarrow> dest_file_attrs \<Rightarrow> byte list \<Rightarrow> addr \<Rightarrow> byte list srv" where
  "write_data data_buffer da file client =
     (let remaining_bytes = unat (data_len da mod of_nat BUFFERSIZE) in
      bindM (write_blocks (unat (data_len da div of_nat BUFFERSIZE)) data_buffer file client) (\<lambda>buf.
        if remaining_bytes \<noteq> 0 then write_block remaining_bytes buf file client else retM buf))"

definition discard_block :: "nat \<Rightarrow> byte list \<Rightarrow> addr \<Rightarrow> byte list srv" where
  "discard_block n discard_buffer client =
     bindM (client_at client) (\<lambda>c.
       srv_recv_bytes_wrapper discard_buffer 0 (data_socket c) (of_nat n) client)"

fun discard_blocks :: "nat \<Rightarrow> byte list \<Rightarrow> addr \<Rightarrow> byte list srv" where
  "discard_blocks 0 discard_buffer client = retM discard_buffer"
| "discard_blocks (Suc i) discard_buffer client =
     bindM (discard_block BUFFERSIZE discard_buffer client) (\<lambda>buf. discard_blocks i buf client)"

definition discard_data :: "dest_file_attrs \<Rightarrow> addr \<Rightarrow> byte list \<Rightarrow> byte list srv" where
  "discard_data da client discard_buffer =
     (let remaining_bytes = unat (discard da mod of_nat BUFFERSIZE) in
      bindM (discard_blocks (unat (discard da div of_nat BUFFERSIZE)) discard_buffer client) (\<lambda>buf.
        if remaining_bytes \<noteq> 0 then discard_block remaining_bytes buf client else retM buf))"

section \<open>authenticate\<close>

text \<open>The result of \<open>receive_message\<close> is ignored, and so are those of \<open>send_message\<close>.\<close>

definition authenticate :: "addr \<Rightarrow> byte list \<Rightarrow> byte \<Rightarrow> int srv" where
  "authenticate client message message_flag =
     bindM (client_at client) (\<lambda>c.
     bindM (receive_message (command_socket c) message_flag message) (\<lambda>(_, _, message).
     bindM (getM password) (\<lambda>pw.
     bindM (orUb (strnlen pw MESSAGE_BUFFERSIZE)) (\<lambda>pass_len.
     bindM (orUb (strncmp_eq pass_len message pw)) (\<lambda>equal.
     bindM (if \<not> equal then retM False
        else bindM (orUb (c_str message)) (\<lambda>m. retM (pass_len = length m))) (\<lambda>ok.
       if \<not> ok then bindM (send_message (command_socket c) (as_char BAD_AUTH) (cs [])) (\<lambda>_. retM BAD_AUTH)
       else bindM (send_message (command_socket c) (as_char ACK_OK) (cs [])) (\<lambda>_. retM EXIT_SUCCESS)))))))"

section \<open>thr\_func\<close>

record thr_locals =
  l_attrs :: dest_file_attrs
  l_header :: "byte list"
  l_data :: "byte list"

text \<open>Is there another round?  \<open>False\<close> is the \<^verbatim>\<open>return\<close> of the \<^verbatim>\<open>default\<close> branch.\<close>

definition ack_error :: "addr \<Rightarrow> unit srv" where
  "ack_error client =
     bindM (client_at client) (\<lambda>c.
     bindM strerror (\<lambda>msg.
     bindM (srv_send_message_wrapper (command_socket c) (as_char ACK_ERROR) (cs msg) client) (\<lambda>_.
     bindM strerror (\<lambda>msg.
     bindM (orUb (c_str (file_path c))) (\<lambda>path.
       print_log_message (ip_address c) msg (Some path) True)))))"

definition ack_ok :: "addr \<Rightarrow> unit srv" where
  "ack_ok client =
     bindM (client_at client) (\<lambda>c.
     bindM (srv_send_message_wrapper (command_socket c) (as_char ACK_OK) (cs []) client) (\<lambda>_.
     bindM (orUb (c_str (file_path c))) (\<lambda>path.
       print_log_message (ip_address c) ''saved'' (Some path) False)))"

definition thr_command :: "addr \<Rightarrow> dest_file_attrs \<Rightarrow> byte list \<Rightarrow> (bool \<times> byte list) srv" where
  "thr_command client da data_buffer =
     bindM (client_at client) (\<lambda>c.
     if command da = as_char MK_FILE then
       bindM (orUb (c_str (file_path c))) (\<lambda>path.
       bindM (os_fopen_wb path) (\<lambda>opened.
         if opened then
           bindM (write_data data_buffer da path client) (\<lambda>buf.
           bindM (ack_ok client) (\<lambda>_. retM (True, buf)))
         else bindM (ack_error client) (\<lambda>_. retM (True, data_buffer))))
     else if command da = as_char MK_DIRECTORY then
       bindM (orUb (c_str (file_path c))) (\<lambda>path.
       bindM (os_mkdir path) (\<lambda>r.
         if r = - 1 then bindM (ack_error client) (\<lambda>_. retM (True, data_buffer))
         else bindM (ack_ok client) (\<lambda>_. retM (True, data_buffer))))
     else
       bindM (print_log_message (ip_address c) ''UNKNOWN PROTOCOL OR NETWORK FAILURE'' None True) (\<lambda>_.
       bindM (dealloc client) (\<lambda>_. retM (False, data_buffer))))"

definition thr_iteration :: "addr \<Rightarrow> thr_locals \<Rightarrow> (bool \<times> thr_locals) srv" where
  "thr_iteration client l =
     bindM (load_dest_file_attrs (l_header l) (l_attrs l) client) (\<lambda>(header, da).
     bindM (parse_dest_file_attrs header da client) (\<lambda>da.
     bindM (if 0 < discard da then discard_data da client (l_data l) else retM (l_data l)) (\<lambda>buf.
     bindM (srv_load_path_wrapper (path_len da) client) (\<lambda>len.
     let da = da\<lparr>path_len := len\<rparr> in
     bindM (thr_command client da buf) (\<lambda>(again, buf).
       retM (again, \<lparr>l_attrs = da, l_header = header, l_data = buf\<rparr>))))))"

lemma unknown_protocol_no_ret [simp]: "unknown_protocol client w \<noteq> (Ret a, t)"
  by (simp add: unknown_protocol_def bindM_eq_Ret)

lemma fwrite_failed_no_ret [simp]: "fwrite_failed client w \<noteq> (Ret a, t)"
  by (simp add: fwrite_failed_def bindM_eq_Ret)

lemma on_ret_thread_ends [on_ret_intros]:
  "on_ret P (unknown_protocol client)" "on_ret P (fwrite_failed client)"
  by (simp_all add: on_ret_def)

lemma on_ret_os [on_ret_intros]:
  "on_ret (thread_inv a s n) (os_fopen_wb path)" "on_ret (thread_inv a s n) (os_mkdir path)"
  "on_ret (thread_inv a s n) (os_fwrite bs path)" "on_ret (thread_inv a s n) strerror"
  by (auto simp: on_ret_def os_fopen_wb_def os_mkdir_def os_fwrite_def strerror_def
      split: list.splits option.splits)

lemma on_ret_blocks [on_ret_intros]:
  "on_ret (thread_inv a s n) (write_block k buf file client)"
  "on_ret (thread_inv a s n) (discard_block k buf client)"
  "on_ret (thread_inv a s n) (ack_ok client)"
  "on_ret (thread_inv a s n) (ack_error client)"
  unfolding write_block_def discard_block_def ack_ok_def ack_error_def by (intro on_ret_intros)+

lemma on_ret_all_blocks [on_ret_intros]:
  "on_ret (thread_inv a s n) (write_blocks i buf file client)"
  "on_ret (thread_inv a s n) (discard_blocks i buf client)"
  by (induction i arbitrary: buf) (auto intro!: on_ret_intros)

lemma on_ret_parts [on_ret_intros]:
  "on_ret (thread_inv a s n) (write_data buf da file client)"
  "on_ret (thread_inv a s n) (discard_data da client buf)"
  "on_ret (thread_inv a s n) (parse_dest_file_attrs buf da client)"
  unfolding write_data_def discard_data_def parse_dest_file_attrs_def Let_def by (intro on_ret_intros)+

text \<open>Every round takes at least one event off the command socket's queue.\<close>

lemma load_dest_file_attrs_shrinks:
  assumes run: "load_dest_file_attrs buf da client w = (Ret r, w')" and inv: "thread_inv client s n w"
  shows "0 < n \<and> thread_inv client s (n - 1) w'"
proof -
  from inv obtain c where c: "clients w client = Some c" "command_socket c = s" "q_size (rx w s) \<le> n"
    by (auto simp: thread_inv_def)
  from run c obtain b w1 where first: "recv_bytes buf 0 s (of_nat MIN_DEST_FILE_ATTRS_LEN) w = (Ret (EXIT_SUCCESS, b), w1)"
    by (auto simp: load_dest_file_attrs_def bindM_eq_Ret client_at_def srv_recv_bytes_wrapper_def split: if_splits)
  obtain q where w1: "w1 = w\<lparr>rx := (rx w)(s := q)\<rparr>" using recv_bytes_frame [OF first] by blast
  have "q_size (rx w1 s) < q_size (rx w s)"
    by (rule recv_bytes_shrinks [OF first]) (simp add: MIN_DEST_FILE_ATTRS_LEN_def)
  then have n: "0 < n" and inv1: "thread_inv client s (n - 1) w1" using c w1 by (auto simp: thread_inv_def)
  moreover from run c first obtain m b' where
      "srv_recv_bytes_wrapper b MIN_DEST_FILE_ATTRS_LEN s m client w1 = (Ret b', w')"
    by (auto simp: load_dest_file_attrs_def bindM_eq_Ret client_at_def Let_def
        srv_recv_bytes_wrapper_def [of buf] split: if_splits)
  ultimately show ?thesis using on_ret_srv_wrappers(1) by (metis on_retD)
qed

lemma thr_command_again:
  assumes run: "thr_command client da buf w = (Ret (True, buf'), w')" and inv: "thread_inv a s n w"
  shows "thread_inv a s n w'"
proof -
  obtain c where c: "clients w client = Some c"
    using run by (auto simp: thr_command_def bindM_eq_Ret client_at_def orUb_def split: option.splits)
  consider "command da = as_char MK_FILE" | "command da \<noteq> as_char MK_FILE" "command da = as_char MK_DIRECTORY"
    using run c by (auto simp: thr_command_def bindM_eq_Ret client_at_def split: if_splits)
  then show ?thesis
  proof cases
    case 1
    have "on_ret (thread_inv a s n) (thr_command client da buf)"
      unfolding thr_command_def if_P [OF 1] by (intro on_ret_intros)
    then show ?thesis using inv run by (rule on_retD)
  next
    case 2
    have "on_ret (thread_inv a s n) (thr_command client da buf)"
      unfolding thr_command_def if_not_P [OF 2(1)] if_P [OF 2(2)] by (intro on_ret_intros)
    then show ?thesis using inv run by (rule on_retD)
  qed
qed

lemma thr_iteration_shrinks:
  assumes run: "thr_iteration client l w = (Ret (True, l'), w')" and inv: "thread_inv client s n w"
  shows "0 < n \<and> thread_inv client s (n - 1) w'"
proof -
  from run obtain r w1 where load: "load_dest_file_attrs (l_header l) (l_attrs l) client w = (Ret r, w1)"
    by (auto simp: thr_iteration_def bindM_eq_Ret)
  note first = load_dest_file_attrs_shrinks [OF load inv]
  let ?P = "thread_inv client s (n - 1)"
  from run load obtain da w2 buf w3 len w4 buf' where
    parse: "parse_dest_file_attrs (fst r) (snd r) client w1 = (Ret da, w2)" and
    disc: "(if 0 < discard da then discard_data da client (l_data l) else retM (l_data l)) w2 = (Ret buf, w3)" and
    path: "srv_load_path_wrapper (path_len da) client w3 = (Ret len, w4)" and
    cmd: "thr_command client (da\<lparr>path_len := len\<rparr>) buf w4 = (Ret (True, buf'), w')"
    by (auto simp: thr_iteration_def bindM_eq_Ret Let_def split: prod.splits)
  have "?P w2" using on_retD [OF on_ret_parts(3) _ parse] first by blast
  then have "?P w3" using disc by (auto intro: on_retD [OF on_ret_parts(2)] split: if_splits)
  then have "?P w4" using on_retD [OF on_ret_srv_wrappers(3) _ path] by blast
  then show ?thesis using thr_command_again [OF cmd] first by blast
qed

text \<open>The loop.  It has no other way on than to the next header, so on the events a connection still
  has in store it ends, waits, or gets killed.\<close>

definition queued :: "addr \<Rightarrow> server \<Rightarrow> nat" where
  "queued client w =
     (case clients w client of None \<Rightarrow> 0 | Some c \<Rightarrow> q_size (rx w (command_socket c)))"

lemma thr_iteration_queued:
  assumes "thr_iteration client l w = (Ret (True, l'), w')"
  shows "queued client w' < queued client w"
proof -
  from assms obtain c where c: "clients w client = Some c"
    by (auto simp: thr_iteration_def load_dest_file_attrs_def bindM_eq_Ret client_at_def orUb_def
        split: option.splits)
  then have "thread_inv client (command_socket c) (queued client w) w"
    by (simp add: thread_inv_def queued_def)
  from thr_iteration_shrinks [OF assms this] show ?thesis
    by (auto simp: thread_inv_def queued_def)
qed

function thr_loop :: "addr \<Rightarrow> thr_locals \<Rightarrow> unit srv" where
  "thr_loop client l w =
     (case thr_iteration client l w of
        (Ret (again, l'), w') \<Rightarrow> if again then thr_loop client l' w' else (Ret (), w')
      | (x, w') \<Rightarrow> (recast x, w'))"
  by pat_completeness auto

termination thr_loop
proof (relation "measure (\<lambda>(client, l, w). queued client w)")
qed (auto dest!: sym [of "(_, _)" "thr_iteration _ _ _"] thr_iteration_queued)

declare thr_loop.simps [simp del]

definition thr_func :: "addr \<Rightarrow> byte list \<Rightarrow> byte \<Rightarrow> thr_locals \<Rightarrow> unit srv" where
  "thr_func client message message_flag l =
     bindM (getM ntoa) (\<lambda>inet_ntoa.
     bindM (update_client client (\<lambda>c. c\<lparr>ip_address := inet_ntoa (command_info c)\<rparr>)) (\<lambda>_.
     bindM (client_at client) (\<lambda>c.
     bindM (print_log_message (ip_address c) ''connected to the server'' None False) (\<lambda>_.
     bindM (authenticate client message message_flag) (\<lambda>r.
     if r \<noteq> EXIT_SUCCESS then
       bindM (print_log_message (ip_address c) ''BAD AUTH'' None True) (\<lambda>_. dealloc client)
     else thr_loop client l)))))"

end
