(* ===== verification/Server_Serves.thy ===== *)
theory Server_Serves
  imports Server_Thread
begin

text \<open>
  What the server's thread does with a well-formed transfer: the header is parsed, the bytes to
  discard are skipped, the path is stored behind the chroot directory, the file gets exactly the
  bytes announced, and the daemon is answered.
\<close>

section \<open>Running the server's calls\<close>

lemma server_consume [simp]:
  "clients (consume s n w) = clients w" "last_client (consume s n w) = last_client w"
  "els (consume s n w) = els w" "head (consume s n w) = head w" "fresh_addr (consume s n w) = fresh_addr w"
  "password (consume s n w) = password w" "dest_chroot (consume s n w) = dest_chroot w"
  "is_dest_chroot (consume s n w) = is_dest_chroot w" "accepts (consume s n w) = accepts w"
  "fs (consume s n w) = fs w" "fopen_evs (consume s n w) = fopen_evs w" "mkdir_evs (consume s n w) = mkdir_evs w"
  "fwrite_evs (consume s n w) = fwrite_evs w" "logfile (consume s n w) = logfile w" "now (consume s n w) = now w"
  "errtext (consume s n w) = errtext w" "ntoa (consume s n w) = ntoa w"
  by (simp_all add: consume_def)

lemma server_sent [simp]:
  "clients (sent s n w) = clients w" "last_client (sent s n w) = last_client w"
  "els (sent s n w) = els w" "head (sent s n w) = head w" "fresh_addr (sent s n w) = fresh_addr w"
  "password (sent s n w) = password w" "dest_chroot (sent s n w) = dest_chroot w"
  "is_dest_chroot (sent s n w) = is_dest_chroot w" "accepts (sent s n w) = accepts w"
  "fs (sent s n w) = fs w" "fopen_evs (sent s n w) = fopen_evs w" "mkdir_evs (sent s n w) = mkdir_evs w"
  "fwrite_evs (sent s n w) = fwrite_evs w" "logfile (sent s n w) = logfile w" "now (sent s n w) = now w"
  "errtext (sent s n w) = errtext w" "ntoa (sent s n w) = ntoa w"
  by (simp_all add: sent_def)

lemma avail_server [simp]:
  "avail s (w\<lparr>clients := a1\<rparr>) = avail s w" "avail s (w\<lparr>logfile := a2\<rparr>) = avail s w"
  "avail s (w\<lparr>fs := a3\<rparr>) = avail s w" "avail s (w\<lparr>fopen_evs := a4\<rparr>) = avail s w"
  "avail s (w\<lparr>mkdir_evs := a5\<rparr>) = avail s w" "avail s (w\<lparr>fwrite_evs := a6\<rparr>) = avail s w"
  by (simp_all add: avail_def)

lemma client_at_run [simp]: "clients w client = Some c \<Longrightarrow> client_at client w = (Ret c, w)"
  by (simp add: client_at_def)

lemma srv_recv_bytes_wrapper_ok:
  assumes "off + unat bytes \<le> length buf" and "unat bytes \<le> length (avail s w)"
  shows "srv_recv_bytes_wrapper buf off s bytes client w =
    (Ret (patched buf off (take (unat bytes) (avail s w))), consume s (unat bytes) w)"
  by (simp add: srv_recv_bytes_wrapper_def bindM_def recv_bytes_ok [OF assms])

lemma srv_send_message_wrapper_ok:
  assumes "snd_evs w = []" and "c_str message = Some t" and "length t \<le> 252"
  shows "srv_send_message_wrapper s flag message client w = (Ret (), sent s (enc_message (flag, text_body t)) w)"
  by (simp add: srv_send_message_wrapper_def bindM_def send_message_ideal [OF assms])

text \<open>File operations the operating system does not refuse.\<close>

lemma os_fwrite_run: "fwrite_evs w = [] \<Longrightarrow> os_fwrite bs path w = (Ret False, w\<lparr>fs := file_append path bs (fs w)\<rparr>)"
  by (cases w) (simp add: os_fwrite_def)

lemma os_fopen_wb_run: "fopen_evs w = [] \<Longrightarrow> os_fopen_wb path w = (Ret True, w\<lparr>fs := (fs w)(path \<mapsto> File [])\<rparr>)"
  by (cases w) (simp add: os_fopen_wb_def)

lemma os_mkdir_run: "mkdir_evs w = [] \<Longrightarrow> os_mkdir path w = (Ret 0, w\<lparr>fs := (fs w)(path \<mapsto> Dir)\<rparr>)"
  by (cases w) (simp add: os_mkdir_def)

section \<open>The header\<close>

text \<open>Loading and parsing a header that \<open>dec_transfer\<close> accepts yields its four fields.\<close>

lemma load_parse_spec:
  assumes dec: "dec_transfer (avail s w) = Some ((cmd, p, d, x), rest)"
    and len: "length buf = MAX_HEADER_LEN" and c: "clients w client = Some c" "command_socket c = s"
  obtains l buf' where "rest = drop l (avail s w)" "l \<le> length (avail s w)" "length buf' = MAX_HEADER_LEN"
    "bindM (load_dest_file_attrs buf da client) (\<lambda>(header, da).
       bindM (parse_dest_file_attrs header da client) (f header)) w =
     f buf' \<lparr>structure_len = of_nat l, command = cmd, path_len = p, data_len = d, discard = x\<rparr> (consume s l w)"
proof -
  let ?av = "avail s w"
  from dec obtain l a b e u v where
    l: "l = length a + length b + length e + 7" "10 \<le> l" "l \<le> 31" "l \<le> length ?av" "rest = drop l ?av"
    and t: "take l ?av = byte_of l # u # cmd # v # a @ NUL # b @ NUL # e @ [NUL]"
    and nz: "NUL \<notin> set a" "NUL \<notin> set b" "NUL \<notin> set e" "strtol (a @ [NUL]) = Some p"
      "strtoull (b @ [NUL]) = Some d" "strtoull (e @ [NUL]) = Some x"
    by (rule dec_transferD)
  have room: "length buf = 31" using len by (simp add: MAX_HEADER_LEN_def)
  let ?buf1 = "patched buf 0 (take 10 ?av)"
  let ?buf2 = "patched buf 0 (take l ?av)"
  have "take 10 (take l ?av) = take 10 ?av" using l by (simp add: min_def)
  then have "take 10 ?av = byte_of l # take 9 (u # cmd # v # a @ NUL # b @ NUL # e @ [NUL])"
    unfolding t by (simp add: eval_nat_numeral)
  then have hd: "nat_of (?buf1 ! 0) = l" using l(3) by (simp add: patched_0)
  have r1: "srv_recv_bytes_wrapper buf 0 s 10 client w = (Ret ?buf1, consume s 10 w)"
    using room l by (subst srv_recv_bytes_wrapper_ok) simp_all
  have n: "unat (word_of_int (int l - 10) :: u64) = l - 10"
    using l by (subst word_of_path_len) simp_all
  have r2: "srv_recv_bytes_wrapper ?buf1 10 s (word_of_int (int l - 10)) client (consume s 10 w) =
      (Ret ?buf2, consume s l w)"
    using room l(2-4) n two_reads [of 10 l buf ?av]
    by (subst srv_recv_bytes_wrapper_ok) (simp_all add: consume_consume)
  have b2: "?buf2 = byte_of l # u # cmd # v # a @ NUL # b @ NUL # e @ NUL # drop l buf"
  proof -
    have "?buf2 = take l ?av @ drop l buf" using l(4) by (simp add: patched_0 min_def)
    then show ?thesis unfolding t by simp
  qed
  have uw: "uint (of_nat l :: u8) = int l" "(of_nat l :: u8) \<noteq> 0"
    using l u8_numbers [of l] by simp_all
  have "load_dest_file_attrs buf da client w =
      (Ret (?buf2, da\<lparr>structure_len := of_nat l, command := cmd\<rparr>), consume s l w)"
    using c uw l(2) r2 b2
    by (simp add: load_dest_file_attrs_def bindM_def r1 hd Let_def MIN_DEST_FILE_ATTRS_LEN_def)
  moreover have "parse_dest_fields ?buf2 (da\<lparr>structure_len := of_nat l, command := cmd\<rparr>) =
      Some (\<lparr>structure_len = of_nat l, command = cmd, path_len = p, data_len = d, discard = x\<rparr>, True)"
    unfolding b2 using nz l uw by (subst parse_dest_fields_spec) auto
  moreover have "length ?buf2 = MAX_HEADER_LEN" using room l(3,4) by (simp add: MAX_HEADER_LEN_def)
  ultimately show ?thesis
    using that [of l ?buf2] l(4,5) by (simp add: bindM_def parse_dest_file_attrs_def)
qed

section \<open>Discarding and writing\<close>

definition has_data_socket :: "addr \<Rightarrow> fd \<Rightarrow> server \<Rightarrow> bool" where
  "has_data_socket client s w \<longleftrightarrow> (\<exists>c. clients w client = Some c \<and> data_socket c = s)"

interpretation discarding: chunked_loop
  "\<lambda>k buf. discard_blocks k buf client" "\<lambda>n buf. discard_block n buf client"
  "\<lambda>buf. length buf = BUFFERSIZE" "has_data_socket client s" "avail s" "\<lambda>n w w'. w' = consume s n w"
  for client s
proof unfold_locales
  fix w :: server and n and buf :: "byte list"
  assume "has_data_socket client s w" "n \<le> BUFFERSIZE" "length buf = BUFFERSIZE" "n \<le> length (avail s w)"
  then show "\<exists>buf' w'. length buf' = BUFFERSIZE \<and> discard_block n buf client w = (Ret buf', w') \<and>
      w' = consume s n w"
    by (auto simp: has_data_socket_def discard_block_def bindM_def srv_recv_bytes_wrapper_ok unat_block)
qed (auto simp: has_data_socket_def consume_consume fun_eq_iff bindM_def)

definition write_absorb :: "fd \<Rightarrow> byte list \<Rightarrow> nat \<Rightarrow> server \<Rightarrow> server" where
  "write_absorb s file n w = consume s n (w\<lparr>fs := file_append file (take n (avail s w)) (fs w)\<rparr>)"

definition can_write :: "addr \<Rightarrow> fd \<Rightarrow> byte list \<Rightarrow> server \<Rightarrow> bool" where
  "can_write client s file w \<longleftrightarrow>
     has_data_socket client s w \<and> fwrite_evs w = [] \<and> (\<exists>old. fs w file = Some (File old))"

lemma consume_fs: "(consume s n w)\<lparr>fs := f\<rparr> = consume s n (w\<lparr>fs := f\<rparr>)"
  by (simp add: consume_def)

lemma file_append_append:
  "f file = Some (File old) \<Longrightarrow> file_append file ds (file_append file bs f) = file_append file (bs @ ds) f"
  by (simp add: file_append_def)

lemma file_append_Nil: "f file = Some (File old) \<Longrightarrow> file_append file [] f = f"
  by (simp add: file_append_def fun_upd_idem)

interpretation writing: chunked_loop
  "\<lambda>k buf. write_blocks k buf fname client" "\<lambda>n buf. write_block n buf fname client"
  "\<lambda>buf. length buf = BUFFERSIZE" "can_write client s fname" "avail s" "\<lambda>n w w'. w' = write_absorb s fname n w"
  for client s fname
proof unfold_locales
  fix w :: server and n and buf :: "byte list"
  assume "can_write client s fname w" "n \<le> BUFFERSIZE" "length buf = BUFFERSIZE" "n \<le> length (avail s w)"
  then show "\<exists>buf' w'. length buf' = BUFFERSIZE \<and> write_block n buf fname client w = (Ret buf', w') \<and>
      w' = write_absorb s fname n w"
    by (auto simp: can_write_def has_data_socket_def write_block_def bindM_def srv_recv_bytes_wrapper_ok
        unat_block os_fwrite_run write_absorb_def consume_fs patched_0)
next
  fix w w' :: server and n
  assume "can_write client s fname w" "w' = write_absorb s fname n w" "n \<le> length (avail s w)"
  then show "can_write client s fname w' \<and> avail s w' = drop n (avail s w)"
    by (auto simp: can_write_def has_data_socket_def write_absorb_def file_append_def)
next
  fix w v u :: server and m n
  assume "can_write client s fname w" "v = write_absorb s fname m w" "u = write_absorb s fname n v"
    "m + n \<le> length (avail s w)"
  then show "u = write_absorb s fname (m + n) w"
    by (auto simp: can_write_def write_absorb_def consume_fs consume_consume file_append_append take_add)
next
  fix w :: server
  assume "can_write client s fname w"
  then show "w = write_absorb s fname 0 w"
    by (auto simp: can_write_def write_absorb_def file_append_Nil)
qed (auto simp: fun_eq_iff bindM_def)

lemma discard_data_whole: "discard_data da client buf = discarding.whole client (discard da) buf"
  by (simp add: discard_data_def discarding.whole_def Let_def)

lemma write_data_whole: "write_data buf da file client = writing.whole file client (data_len da) buf"
  by (simp add: write_data_def writing.whole_def Let_def)

section \<open>The path\<close>

text \<open>The array and the offset that \<open>srv_load_path_wrapper\<close> reads the path into.\<close>

definition prefix_of :: "server \<Rightarrow> byte list option" where
  "prefix_of w = (if is_dest_chroot w then map_option (\<lambda>r. r @ ''/'') (c_str (dest_chroot w)) else Some [])"

lemma chroot_prefix_spec:
  assumes "prefix_of w = Some pre" and "length path = PATH_MAX" and "length pre < PATH_MAX"
  obtains n where "chroot_prefix (dest_chroot w) (is_dest_chroot w) path = Some (n, patched path 0 pre)"
    "length pre = n + (if is_dest_chroot w then 1 else 0)"
proof (cases "is_dest_chroot w")
  case False
  with assms(1) that show ?thesis by (simp add: prefix_of_def chroot_prefix_def)
next
  case True
  with assms(1) obtain r where r: "c_str (dest_chroot w) = Some r" "pre = r @ ''/''"
    by (auto simp: prefix_of_def)
  obtain tail where d: "dest_chroot w = r @ NUL # tail" using c_str_split [OF r(1)] by blast
  have len: "length r + 1 < length path" using assms(2,3) r(2) by simp
  then have sl: "strnlen (dest_chroot w) PATH_MAX = Some (length r)"
    using strnlen_c_str [OF r(1), of PATH_MAX] assms(2) by (simp add: min_def)
  have rd: "buf_read (dest_chroot w) 0 (length r) = Some r" using d by (simp add: buf_read_def)
  have w1: "buf_write path 0 r = Some (patched path 0 r)" using len by (intro buf_write_Some) simp
  have w2: "buf_write (patched path 0 r) (length r) ''/'' = Some (patched path 0 (r @ ''/''))"
    using len by (intro buf_write_next) simp_all
  show ?thesis
    by (rule that [of "length r"])
      (use True sl rd w1 w2 r(2) in \<open>simp_all add: chroot_prefix_def\<close>)
qed

definition path_stored :: "addr \<Rightarrow> client_info \<Rightarrow> byte list \<Rightarrow> server \<Rightarrow> server" where
  "path_stored client c path w = w\<lparr>clients := (clients w)(client \<mapsto> c\<lparr>file_path := path\<rparr>)\<rparr>"

lemma path_stored_fields [simp]:
  "clients (path_stored client c path w) = (clients w)(client \<mapsto> c\<lparr>file_path := path\<rparr>)"
  "rx (path_stored client c path w) = rx w" "tx (path_stored client c path w) = tx w"
  "snd_evs (path_stored client c path w) = snd_evs w" "fs (path_stored client c path w) = fs w"
  "fopen_evs (path_stored client c path w) = fopen_evs w" "mkdir_evs (path_stored client c path w) = mkdir_evs w"
  "fwrite_evs (path_stored client c path w) = fwrite_evs w" "logfile (path_stored client c path w) = logfile w"
  "errtext (path_stored client c path w) = errtext w" "errno (path_stored client c path w) = errno w"
  "now (path_stored client c path w) = now w" "avail s (path_stored client c path w) = avail s w"
  "last_client (path_stored client c path w) = last_client w"
  by (simp_all add: path_stored_def)

lemma srv_load_path_wrapper_spec:
  assumes c: "clients w client = Some c" "data_socket c = s" "length (file_path c) = PATH_MAX"
    and pre: "prefix_of w = Some pre" "NUL \<notin> set pre"
    and av: "avail s w = t @ NUL # rest" "NUL \<notin> set t"
    and room: "length pre + length t + 1 \<le> PATH_MAX"
  obtains fp n where "length fp = PATH_MAX" "c_str fp = Some (pre @ t)"
    "srv_load_path_wrapper (int (length t) + 1) client w =
      (if strstr (pre @ t) ''../'' then bad_path client (pre @ t) else retM n)
        (path_stored client c fp (consume s (length t + 1) w))"
proof -
  have lt: "length pre < PATH_MAX" using room by simp
  obtain k where k: "chroot_prefix (dest_chroot w) (is_dest_chroot w) (file_path c) = Some (k, patched (file_path c) 0 pre)"
    "length pre = k + (if is_dest_chroot w then 1 else 0)"
    by (rule chroot_prefix_spec [OF pre(1) c(3) lt])
  let ?fp = "patched (file_path c) 0 (pre @ t @ [NUL])"
  have n: "nat (int (length t) + 1) = length t + 1" by linarith
  have "load_path (int (length t) + 1) s (patched (file_path c) 0 pre) (length pre) w =
      (Ret (EXIT_SUCCESS, patched (patched (file_path c) 0 pre) (length pre) (t @ [NUL])), consume s (length t + 1) w)"
    using room c(3) av(1) unfolding n [symmetric]
    by (subst load_path_ok) (simp_all add: n)
  also have "patched (patched (file_path c) 0 pre) (length pre) (t @ [NUL]) = ?fp"
    using patched_patched [of 0 pre "t @ [NUL]" "file_path c"] room c(3) by simp
  finally have load: "load_path (int (length t) + 1) s (patched (file_path c) 0 pre) (length pre) w =
      (Ret (EXIT_SUCCESS, ?fp), consume s (length t + 1) w)" .
  have str: "c_str ?fp = Some (pre @ t)"
    using pre(2) av(2) c_str_append [of "pre @ t" "drop (length pre + length t + 1) (file_path c)"]
    by (simp add: patched_0)
  have "srv_load_path_wrapper (int (length t) + 1) client w =
      (if strstr (pre @ t) ''../'' then bad_path client (pre @ t) else retM (int (length t) + 1 + int k))
        (path_stored client c ?fp (consume s (length t + 1) w))"
    using c(1,2) k(1) load str
    by (simp add: srv_load_path_wrapper_def bindM_def k(2) [symmetric] update_client_def path_stored_def)
  moreover have "length ?fp = PATH_MAX" using c(3) room by simp
  ultimately show ?thesis using that str by blast
qed

section \<open>One transfer\<close>

text \<open>A connected thread whose sends go through, and its arrays.\<close>

definition connected :: "addr \<Rightarrow> fd \<Rightarrow> fd \<Rightarrow> server \<Rightarrow> bool" where
  "connected client cm dt w \<longleftrightarrow> cm \<noteq> dt \<and> snd_evs w = [] \<and>
     (\<exists>c. clients w client = Some c \<and> command_socket c = cm \<and> data_socket c = dt \<and>
       length (file_path c) = PATH_MAX)"

definition locals_ok :: "thr_locals \<Rightarrow> bool" where
  "locals_ok l \<longleftrightarrow> length (l_header l) = MAX_HEADER_LEN \<and> length (l_data l) = BUFFERSIZE"

text \<open>The bytes the peer has put on the two sockets: a header for command \<open>cmd\<close> announcing a path
  \<open>t\<close>, \<open>dlen\<close> bytes of data and the bytes \<open>junk\<close> to skip.\<close>

definition incoming ::
  "fd \<Rightarrow> fd \<Rightarrow> byte \<Rightarrow> byte list \<Rightarrow> byte list \<Rightarrow> u64 \<Rightarrow> byte list \<Rightarrow> byte list \<Rightarrow> server \<Rightarrow> bool" where
  "incoming cm dt cmd junk t dlen crest drest w \<longleftrightarrow>
     length junk < 2 ^ 64 \<and> NUL \<notin> set t \<and>
     valid_transfer (cmd, int (length t) + 1, dlen, of_nat (length junk)) \<and>
     avail cm w = enc_transfer (cmd, int (length t) + 1, dlen, of_nat (length junk)) @ crest \<and>
     avail dt w = junk @ t @ NUL # drest"

text \<open>Where the path is going to be, and whether the server accepts it.\<close>

definition target :: "byte list \<Rightarrow> byte list \<Rightarrow> server \<Rightarrow> bool" where
  "target t full w \<longleftrightarrow> (\<exists>pre. prefix_of w = Some pre \<and> full = pre @ t \<and> NUL \<notin> set pre \<and>
     length full + 1 \<le> PATH_MAX)"

lemma unat_u64_of_nat: "n < 2 ^ 64 \<Longrightarrow> unat (of_nat n :: u64) = n"
  by (simp add: unat_of_nat take_bit_eq_mod)

definition arrived :: "addr \<Rightarrow> client_info \<Rightarrow> byte list \<Rightarrow> fd \<Rightarrow> nat \<Rightarrow> fd \<Rightarrow> nat \<Rightarrow> server \<Rightarrow> server" where
  "arrived client c fp cm l dt n w = path_stored client c fp (consume dt n (consume cm l w))"

lemma thr_iteration_arrived:
  assumes conn: "connected client cm dt w" "clients w client = Some c" and loc: "locals_ok l"
    and inc: "incoming cm dt cmd junk t dlen crest drest w" and tgt: "target t full w"
  obtains n fp header da buf m where
    "length header = MAX_HEADER_LEN" "length buf = BUFFERSIZE" "length fp = PATH_MAX" "c_str fp = Some full"
    "command da = cmd" "data_len da = dlen" "discard da = of_nat (length junk)"
    "crest = drop n (avail cm w)" "n \<le> length (avail cm w)" "m = length junk + length t + 1"
    "strstr full ''../'' \<Longrightarrow> thr_iteration client l w =
      map_prod recast id ((bad_path client full :: int srv) (arrived client c fp cm n dt m w))"
    "\<not> strstr full ''../'' \<Longrightarrow> thr_iteration client l w =
       bindM (thr_command client da buf) (\<lambda>(again, buf).
         retM (again, \<lparr>l_attrs = da, l_header = header, l_data = buf\<rparr>))
      (arrived client c fp cm n dt m w)"
proof -
  let ?x = "of_nat (length junk) :: u64"
  from conn have c: "command_socket c = cm" "data_socket c = dt" "length (file_path c) = PATH_MAX" "cm \<noteq> dt"
    by (auto simp: connected_def)
  from inc have dec: "dec_transfer (avail cm w) = Some ((cmd, int (length t) + 1, dlen, ?x), crest)"
    and av: "avail dt w = junk @ t @ NUL # drest" "NUL \<notin> set t" and ux: "unat ?x = length junk"
    by (simp_all add: incoming_def dec_enc_transfer unat_u64_of_nat)
  have lens: "length (l_header l) = MAX_HEADER_LEN" "length (l_data l) = BUFFERSIZE"
    using loc by (simp_all add: locals_ok_def)
  define f where "f header da = bindM (if 0 < discard da then discard_data da client (l_data l) else retM (l_data l)) (\<lambda>buf.
     bindM (srv_load_path_wrapper (path_len da) client) (\<lambda>len.
     let da = da\<lparr>path_len := len\<rparr> in
     bindM (thr_command client da buf) (\<lambda>(again, buf).
       retM (again, \<lparr>l_attrs = da, l_header = header, l_data = buf\<rparr>))))" for header da
  have whole: "thr_iteration client l = bindM (load_dest_file_attrs (l_header l) (l_attrs l) client)
      (\<lambda>(header, da). bindM (parse_dest_file_attrs header da client) (f header))"
    by (simp add: thr_iteration_def f_def [abs_def])
  obtain n header where n: "crest = drop n (avail cm w)" "n \<le> length (avail cm w)"
    and hdr: "length header = MAX_HEADER_LEN"
    and it: "thr_iteration client l w = f header \<lparr>structure_len = of_nat n, command = cmd,
        path_len = int (length t) + 1, data_len = dlen, discard = ?x\<rparr> (consume cm n w)"
    unfolding whole by (rule load_parse_spec [OF dec lens(1) conn(2) c(1), of "l_attrs l" f]) blast
  let ?da = "\<lparr>structure_len = of_nat n, command = cmd, path_len = int (length t) + 1, data_len = dlen, discard = ?x\<rparr>"
  let ?w1 = "consume cm n w"
  have av1: "avail dt ?w1 = junk @ t @ NUL # drest" using av c(4) by simp
  have hds: "has_data_socket client dt ?w1" using conn(2) c(2) by (simp add: has_data_socket_def)
  obtain buf where buf: "length buf = BUFFERSIZE"
    and disc: "(if 0 < ?x then discard_data ?da client (l_data l) else retM (l_data l)) ?w1 =
      (Ret buf, consume dt (length junk) ?w1)"
  proof (cases "0 < ?x")
    case True
    then show ?thesis
      using discarding.whole_ok [OF hds lens(2), of ?x] ux av1 that by (auto simp: discard_data_whole)
  next
    case False
    then have "length junk = 0" using ux by (simp add: word_gt_0)
    then show ?thesis using that [OF lens(2)] False by simp
  qed
  let ?w2 = "consume dt (length junk) ?w1"
  from tgt obtain pre where pre: "prefix_of w = Some pre" "full = pre @ t" "NUL \<notin> set pre"
      "length pre + length t + 1 \<le> PATH_MAX" by (auto simp: target_def)
  have c2: "clients ?w2 client = Some c" using conn(2) by simp
  have pre2: "prefix_of ?w2 = Some pre" using pre(1) by (simp add: prefix_of_def split: if_splits)
  have av2: "avail dt ?w2 = t @ NUL # drest" using av1 by simp
  obtain fp p where fp: "length fp = PATH_MAX" "c_str fp = Some (pre @ t)"
    and path: "srv_load_path_wrapper (int (length t) + 1) client ?w2 =
      (if strstr (pre @ t) ''../'' then bad_path client (pre @ t) else retM p)
        (path_stored client c fp (consume dt (length t + 1) ?w2))"
    by (rule srv_load_path_wrapper_spec [OF c2 c(2,3) pre2 pre(3) av2 av(2) pre(4)])
  let ?w3 = "path_stored client c fp (consume dt (length t + 1) ?w2)"
  have w3: "?w3 = arrived client c fp cm n dt (length junk + length t + 1) w"
    using av1 by (simp add: arrived_def consume_consume)
  have run: "f header ?da ?w1 = bindM (srv_load_path_wrapper (int (length t) + 1) client) (\<lambda>len.
     bindM (thr_command client (?da\<lparr>path_len := len\<rparr>) buf) (\<lambda>(again, buf).
       retM (again, \<lparr>l_attrs = ?da\<lparr>path_len := len\<rparr>, l_header = header, l_data = buf\<rparr>))) ?w2"
    using disc by (simp add: f_def bindM_def Let_def split: if_splits)
  have bad: "f header ?da ?w1 = map_prod recast id ((bad_path client full :: int srv) ?w3)" if "strstr full ''../''"
  proof -
    obtain r v where v: "(bad_path client full :: int srv) ?w3 = (r, v)" by fastforce
    then have "srv_load_path_wrapper (int (length t) + 1) client ?w2 = (r, v)" "\<And>a. r \<noteq> Ret a"
      using path that pre(2) by auto
    then show ?thesis unfolding run v by (simp add: bindM_no_ret)
  qed
  have good: "f header ?da ?w1 = bindM (thr_command client (?da\<lparr>path_len := p\<rparr>) buf) (\<lambda>(again, buf).
         retM (again, \<lparr>l_attrs = ?da\<lparr>path_len := p\<rparr>, l_header = header, l_data = buf\<rparr>)) ?w3"
    if "\<not> strstr full ''../''"
    unfolding run using path that pre(2) by (simp add: bindM_def)
  show ?thesis
    by (rule that [of header buf fp "?da\<lparr>path_len := p\<rparr>" n "length junk + length t + 1"])
      (use hdr buf fp pre(2) n it bad good w3 in simp_all)
qed

section \<open>The commands\<close>

definition logged :: "byte list \<Rightarrow> byte list \<Rightarrow> byte list option \<Rightarrow> bool \<Rightarrow> server \<Rightarrow> server" where
  "logged ip m p e w = w\<lparr>logfile := logfile w @ log_line (now w) ip m p e\<rparr>"

lemma print_log_message_run: "print_log_message ip m p e w = (Ret (), logged ip m p e w)"
  by (simp add: print_log_message_def logged_def)

lemma logged_fields [simp]:
  "clients (logged ip m p e w) = clients w" "last_client (logged ip m p e w) = last_client w"
  "rx (logged ip m p e w) = rx w" "tx (logged ip m p e w) = tx w" "closed (logged ip m p e w) = closed w"
  "snd_evs (logged ip m p e w) = snd_evs w" "fs (logged ip m p e w) = fs w"
  "fopen_evs (logged ip m p e w) = fopen_evs w" "mkdir_evs (logged ip m p e w) = mkdir_evs w"
  "fwrite_evs (logged ip m p e w) = fwrite_evs w" "errtext (logged ip m p e w) = errtext w"
  "errno (logged ip m p e w) = errno w" "now (logged ip m p e w) = now w" "avail s (logged ip m p e w) = avail s w"
  "prefix_of (logged ip m p e w) = prefix_of w"
  "logfile (logged ip m p e w) = logfile w @ log_line (now w) ip m p e"
  by (simp_all add: logged_def prefix_of_def)

lemma cs_Nil [simp]: "c_str (cs []) = Some []" "text_body [] = []"
  by (simp_all add: cs_def c_str_def text_body_def)

definition replied :: "fd \<Rightarrow> int \<Rightarrow> byte list \<Rightarrow> server \<Rightarrow> server" where
  "replied s flag t w = sent s (enc_message (as_char flag, text_body t)) w"

lemma replied_fields [simp]:
  "clients (replied s n t w) = clients w" "last_client (replied s n t w) = last_client w"
  "rx (replied s n t w) = rx w" "tx (replied s n t w) = (tx w)(s := tx w s @ enc_message (as_char n, text_body t))"
  "closed (replied s n t w) = closed w" "snd_evs (replied s n t w) = snd_evs w" "fs (replied s n t w) = fs w"
  "fopen_evs (replied s n t w) = fopen_evs w" "mkdir_evs (replied s n t w) = mkdir_evs w"
  "fwrite_evs (replied s n t w) = fwrite_evs w" "errtext (replied s n t w) = errtext w"
  "errno (replied s n t w) = errno w" "now (replied s n t w) = now w" "avail r (replied s n t w) = avail r w"
  "logfile (replied s n t w) = logfile w" "prefix_of (replied s n t w) = prefix_of w"
  by (simp_all add: replied_def prefix_of_def) (simp add: sent_def)

lemma ack_ok_run:
  assumes "clients w client = Some c" and "snd_evs w = []" and "c_str (file_path c) = Some path"
  shows "ack_ok client w =
    (Ret (), logged (ip_address c) ''saved'' (Some path) False (replied (command_socket c) ACK_OK [] w))"
  using assms
  by (simp add: ack_ok_def bindM_def srv_send_message_wrapper_ok replied_def print_log_message_run)

lemma ack_error_run:
  assumes "clients w client = Some c" and "snd_evs w = []" and "c_str (file_path c) = Some path"
    and "NUL \<notin> set (errtext w (errno w))" and "length (errtext w (errno w)) \<le> 252"
  shows "ack_error client w =
    (Ret (), logged (ip_address c) (errtext w (errno w)) (Some path) True
       (replied (command_socket c) ACK_ERROR (errtext w (errno w)) w))"
  using assms
  by (simp add: ack_error_def strerror_def bindM_def srv_send_message_wrapper_ok replied_def print_log_message_run)

lemma thr_command_file:
  assumes c: "clients w client = Some c" "snd_evs w = []" "c_str (file_path c) = Some path"
    and ok: "fopen_evs w = []" "fwrite_evs w = []"
    and cmd: "command da = as_char MK_FILE" and len: "length buf = BUFFERSIZE"
    and av: "unat (data_len da) \<le> length (avail (data_socket c) w)"
  obtains buf' where "length buf' = BUFFERSIZE"
    "thr_command client da buf w = (Ret (True, buf'),
       logged (ip_address c) ''saved'' (Some path) False (replied (command_socket c) ACK_OK []
         (write_absorb (data_socket c) path (unat (data_len da)) (w\<lparr>fs := (fs w)(path \<mapsto> File [])\<rparr>))))"
proof -
  let ?w1 = "w\<lparr>fs := (fs w)(path \<mapsto> File [])\<rparr>"
  have "can_write client (data_socket c) path ?w1"
    using c(1) ok(2) by (simp add: can_write_def has_data_socket_def)
  from writing.whole_ok [OF this len, of "data_len da"] av obtain buf' where buf': "length buf' = BUFFERSIZE"
    "write_data buf da path client ?w1 = (Ret buf', write_absorb (data_socket c) path (unat (data_len da)) ?w1)"
    by (auto simp: write_data_whole)
  then show ?thesis
    using that [OF buf'(1)] c ok cmd
    by (simp add: thr_command_def bindM_def os_fopen_wb_run ack_ok_run write_absorb_def)
qed

lemma thr_command_dir:
  assumes "clients w client = Some c" "snd_evs w = []" "c_str (file_path c) = Some path"
    and "mkdir_evs w = []" and "command da = as_char MK_DIRECTORY"
  shows "thr_command client da buf w = (Ret (True, buf),
    logged (ip_address c) ''saved'' (Some path) False (replied (command_socket c) ACK_OK []
      (w\<lparr>fs := (fs w)(path \<mapsto> Dir)\<rparr>)))"
  using assms by (simp add: thr_command_def bindM_def os_mkdir_run ack_ok_run)

text \<open>When the operating system refuses, the daemon gets the reason; the data stays in the socket.\<close>

definition refuses :: "byte \<Rightarrow> int \<Rightarrow> server \<Rightarrow> server \<Rightarrow> bool" where
  "refuses cmd e w w' \<longleftrightarrow>
     (cmd = as_char MK_FILE \<and> (\<exists>es. fopen_evs w = Some e # es \<and> w' = w\<lparr>fopen_evs := es, errno := e\<rparr>)) \<or>
     (cmd = as_char MK_DIRECTORY \<and> (\<exists>es. mkdir_evs w = Some e # es \<and> w' = w\<lparr>mkdir_evs := es, errno := e\<rparr>))"

lemma thr_command_refused:
  assumes "clients w client = Some c" "snd_evs w = []" "c_str (file_path c) = Some path"
    and "refuses (command da) e w w1"
    and "NUL \<notin> set (errtext w e)" and "length (errtext w e) \<le> 252"
  shows "thr_command client da buf w = (Ret (True, buf),
    logged (ip_address c) (errtext w e) (Some path) True (replied (command_socket c) ACK_ERROR (errtext w e) w1))"
  using assms(4)
proof (unfold refuses_def, elim disjE conjE exE)
  fix es assume "command da = as_char MK_FILE" "fopen_evs w = Some e # es" "w1 = w\<lparr>fopen_evs := es, errno := e\<rparr>"
  then show ?thesis using assms by (simp add: thr_command_def bindM_def os_fopen_wb_def ack_error_run)
next
  fix es assume "command da = as_char MK_DIRECTORY" "mkdir_evs w = Some e # es" "w1 = w\<lparr>mkdir_evs := es, errno := e\<rparr>"
  then show ?thesis using assms by (simp add: thr_command_def bindM_def os_mkdir_def ack_error_run)
qed

text \<open>A path with \<^verbatim>\<open>../\<close> in it ends the connection.\<close>

lemma dealloc_run:
  assumes "clients w client = Some c" and "unlink_client (Some client) (last_client w) (clients w) = Some (lst, h)"
  shows "dealloc client w =
    (Ret (), w\<lparr>closed := closed w @ [command_socket c, data_socket c], last_client := lst, clients := h\<rparr>)"
  using assms by (simp add: dealloc_def bindM_def os_close_def)

lemma bad_path_run:
  assumes c: "clients w client = Some c" and "snd_evs w = []"
    and l: "client_list (clients w) (last_client w) xs" "client \<in> set xs"
  obtains lst h where "h client = None"
    "bad_path client path w = (Exit 0,
      (logged (ip_address c) ''BAD PATH'' (Some path) True
        (replied (command_socket c) FORCED_SOCKET_CLOSED ''BAD PATH'' w))
      \<lparr>closed := closed w @ [command_socket c, data_socket c], last_client := lst, clients := h\<rparr>)"
proof -
  obtain lst h where u: "unlink_client (Some client) (last_client w) (clients w) = Some (lst, h)" "h client = None"
    using unlink_total [OF l] by blast
  let ?w = "logged (ip_address c) ''BAD PATH'' (Some path) True
        (replied (command_socket c) FORCED_SOCKET_CLOSED ''BAD PATH'' w)"
  have "dealloc client ?w =
      (Ret (), ?w\<lparr>closed := closed w @ [command_socket c, data_socket c], last_client := lst, clients := h\<rparr>)"
    using dealloc_run [of ?w client c lst h] c u(1) by simp
  moreover have "srv_send_message_wrapper (command_socket c) (as_char FORCED_SOCKET_CLOSED) (cs ''BAD PATH'') client w =
      (Ret (), replied (command_socket c) FORCED_SOCKET_CLOSED ''BAD PATH'' w)"
    using assms(2) by (subst srv_send_message_wrapper_ok) (simp_all add: replied_def)
  ultimately show ?thesis
    using that [of h lst] u(2) c by (simp add: bad_path_def bindM_def print_log_message_run)
qed

section \<open>Whole transfers\<close>

lemma arrived_fields [simp]:
  "clients (arrived a c fp cm n dt m w) = (clients w)(a \<mapsto> c\<lparr>file_path := fp\<rparr>)"
  "tx (arrived a c fp cm n dt m w) = tx w" "snd_evs (arrived a c fp cm n dt m w) = snd_evs w"
  "fs (arrived a c fp cm n dt m w) = fs w" "fopen_evs (arrived a c fp cm n dt m w) = fopen_evs w"
  "mkdir_evs (arrived a c fp cm n dt m w) = mkdir_evs w" "fwrite_evs (arrived a c fp cm n dt m w) = fwrite_evs w"
  "errtext (arrived a c fp cm n dt m w) = errtext w" "logfile (arrived a c fp cm n dt m w) = logfile w"
  "now (arrived a c fp cm n dt m w) = now w" "last_client (arrived a c fp cm n dt m w) = last_client w"
  "prefix_of (arrived a c fp cm n dt m w) = prefix_of w" "closed (arrived a c fp cm n dt m w) = closed w"
  by (simp_all add: arrived_def prefix_of_def path_stored_def)

lemma arrived_avail:
  assumes "cm \<noteq> dt" and "n \<le> length (avail cm w)" and "m \<le> length (avail dt w)"
  shows "avail cm (arrived a c fp cm n dt m w) = drop n (avail cm w)"
    and "avail dt (arrived a c fp cm n dt m w) = drop m (avail dt w)"
  using assms by (simp_all add: arrived_def)

lemma arrived_ends [simp]:
  "closes (rx w s) \<Longrightarrow> closes (rx (arrived a c fp cm n dt m w) s)"
  "silent (rx w s) \<Longrightarrow> silent (rx (arrived a c fp cm n dt m w) s)"
  by (auto simp: arrived_def consume_def)

lemma client_list_path [simp]:
  "client_list h lst xs \<Longrightarrow> h a = Some c \<Longrightarrow> client_list (h(a \<mapsto> c\<lparr>file_path := fp\<rparr>)) lst xs"
  by (rule client_list_upd) simp_all

text \<open>What a round leaves when the thread goes on: the answer is sent, exactly the transfer's bytes
  are consumed, and the connection is as before.\<close>

definition round_done ::
  "addr \<Rightarrow> fd \<Rightarrow> fd \<Rightarrow> int \<Rightarrow> byte list \<Rightarrow> byte list \<Rightarrow> byte list \<Rightarrow> thr_locals \<Rightarrow> server \<Rightarrow> server \<Rightarrow> bool" where
  "round_done client cm dt flag reply crest drest l' w w' \<longleftrightarrow>
     locals_ok l' \<and> connected client cm dt w' \<and> prefix_of w' = prefix_of w \<and>
     fwrite_evs w' = fwrite_evs w \<and> errtext w' = errtext w \<and>
     tx w' = (tx w)(cm := tx w cm @ enc_message (as_char flag, text_body reply)) \<and>
     avail cm w' = crest \<and> avail dt w' = drest \<and> closed w' = closed w \<and>
     (closes (rx w cm) \<longrightarrow> closes (rx w' cm)) \<and> (silent (rx w cm) \<longrightarrow> silent (rx w' cm)) \<and>
     (\<forall>xs. client_list (clients w) (last_client w) xs \<longrightarrow> client_list (clients w') (last_client w') xs)"

lemma write_absorb_fields [simp]:
  "clients (write_absorb s file n w) = clients w" "tx (write_absorb s file n w) = tx w"
  "snd_evs (write_absorb s file n w) = snd_evs w" "prefix_of (write_absorb s file n w) = prefix_of w"
  "fs (write_absorb s file n w) = file_append file (take n (avail s w)) (fs w)"
  "fwrite_evs (write_absorb s file n w) = fwrite_evs w" "errtext (write_absorb s file n w) = errtext w"
  "fopen_evs (write_absorb s file n w) = fopen_evs w" "mkdir_evs (write_absorb s file n w) = mkdir_evs w"
  "n \<le> length (avail s w) \<Longrightarrow> avail s (write_absorb s file n w) = drop n (avail s w)"
  "r \<noteq> s \<Longrightarrow> avail r (write_absorb s file n w) = avail r w"
  "closed (write_absorb s file n w) = closed w" "last_client (write_absorb s file n w) = last_client w"
  by (simp_all add: write_absorb_def prefix_of_def)

lemma write_absorb_ends [simp]:
  "closes (rx w r) \<Longrightarrow> closes (rx (write_absorb s file n w) r)"
  "silent (rx w r) \<Longrightarrow> silent (rx (write_absorb s file n w) r)"
  by (auto simp: write_absorb_def consume_def)

lemma prefix_of_fs [simp]:
  "prefix_of (w\<lparr>fs := f\<rparr>) = prefix_of w" "prefix_of (w\<lparr>fopen_evs := x, errno := y\<rparr>) = prefix_of w"
  "prefix_of (w\<lparr>mkdir_evs := x, errno := y\<rparr>) = prefix_of w"
  by (simp_all add: prefix_of_def)

lemma serve_file_step:
  assumes conn: "connected client cm dt w" and loc: "locals_ok l"
    and inc: "incoming cm dt (as_char MK_FILE) junk t dlen crest (data @ drest) w"
    and len: "length data = unat dlen" and tgt: "target t full w" and safe: "\<not> strstr full ''../''"
    and ok: "fopen_evs w = []" "fwrite_evs w = []"
  shows "\<exists>l' w'. thr_iteration client l w = (Ret (True, l'), w') \<and> fopen_evs w' = [] \<and>
    mkdir_evs w' = mkdir_evs w \<and> round_done client cm dt ACK_OK [] crest drest l' w w' \<and> fs w' = (fs w)(full \<mapsto> File data)"
proof -
  from conn obtain c where c: "clients w client = Some c" "command_socket c = cm" "data_socket c = dt"
    "length (file_path c) = PATH_MAX" "cm \<noteq> dt" "snd_evs w = []" by (auto simp: connected_def)
  obtain n fp header da buf m where hdr: "length header = MAX_HEADER_LEN" "length buf = BUFFERSIZE"
      "length fp = PATH_MAX" "c_str fp = Some full"
    and da: "command da = as_char MK_FILE" "data_len da = dlen"
    and n: "crest = drop n (avail cm w)" "n \<le> length (avail cm w)" "m = length junk + length t + 1"
    and it: "thr_iteration client l w = bindM (thr_command client da buf) (\<lambda>(again, buf).
         retM (again, \<lparr>l_attrs = da, l_header = header, l_data = buf\<rparr>)) (arrived client c fp cm n dt m w)"
    using thr_iteration_arrived [OF conn c(1) loc inc tgt] safe by metis
  let ?w = "arrived client c fp cm n dt m w"
  let ?c = "c\<lparr>file_path := fp\<rparr>"
  from inc n(3) have m: "m \<le> length (avail dt w)" "drop m (avail dt w) = data @ drest"
    by (auto simp: incoming_def)
  note av = arrived_avail [OF c(5) n(2) m(1), of client c fp, unfolded n(1) [symmetric] m(2)]
  obtain buf' where buf': "length buf' = BUFFERSIZE"
    and run: "thr_command client da buf ?w = (Ret (True, buf'),
       logged (ip_address ?c) ''saved'' (Some full) False (replied cm ACK_OK []
         (write_absorb dt full (unat dlen) (?w\<lparr>fs := (fs ?w)(full \<mapsto> File [])\<rparr>))))"
    by (rule thr_command_file [of ?w client ?c full da buf, unfolded da(2)])
      (use c hdr(2,4) ok da av len in simp_all)
  show ?thesis
    unfolding it
    by (use run c hdr ok av len buf' in
        \<open>simp add: bindM_def round_done_def connected_def locals_ok_def file_append_def\<close>)
qed

lemma serve_directory_step:
  assumes conn: "connected client cm dt w" and loc: "locals_ok l"
    and inc: "incoming cm dt (as_char MK_DIRECTORY) junk t dlen crest drest w"
    and tgt: "target t full w" and safe: "\<not> strstr full ''../''" and ok: "mkdir_evs w = []"
  shows "\<exists>l' w'. thr_iteration client l w = (Ret (True, l'), w') \<and> mkdir_evs w' = [] \<and>
    fopen_evs w' = fopen_evs w \<and>
    round_done client cm dt ACK_OK [] crest drest l' w w' \<and> fs w' = (fs w)(full \<mapsto> Dir)"
proof -
  from conn obtain c where c: "clients w client = Some c" "command_socket c = cm" "data_socket c = dt"
    "length (file_path c) = PATH_MAX" "cm \<noteq> dt" "snd_evs w = []" by (auto simp: connected_def)
  obtain n fp header da buf m where hdr: "length header = MAX_HEADER_LEN" "length buf = BUFFERSIZE"
      "length fp = PATH_MAX" "c_str fp = Some full"
    and da: "command da = as_char MK_DIRECTORY"
    and n: "crest = drop n (avail cm w)" "n \<le> length (avail cm w)" "m = length junk + length t + 1"
    and it: "thr_iteration client l w = bindM (thr_command client da buf) (\<lambda>(again, buf).
         retM (again, \<lparr>l_attrs = da, l_header = header, l_data = buf\<rparr>)) (arrived client c fp cm n dt m w)"
    using thr_iteration_arrived [OF conn c(1) loc inc tgt] safe by metis
  from inc n(3) have m: "m \<le> length (avail dt w)" "drop m (avail dt w) = drest"
    by (auto simp: incoming_def)
  note av = arrived_avail [OF c(5) n(2) m(1), of client c fp, unfolded n(1) [symmetric] m(2)]
  note run = thr_command_dir [of "arrived client c fp cm n dt m w" client "c\<lparr>file_path := fp\<rparr>" full da buf]
  show ?thesis
    unfolding it
    by (use run c hdr ok av da in \<open>simp add: bindM_def round_done_def connected_def locals_ok_def\<close>)
qed

text \<open>A refused transfer: nothing is stored and the file data stays unread.\<close>

lemma serve_refused_step:
  assumes conn: "connected client cm dt w" and loc: "locals_ok l"
    and inc: "incoming cm dt cmd junk t dlen crest drest w"
    and tgt: "target t full w" and safe: "\<not> strstr full ''../''" and ref: "refuses cmd e w w1"
    and msg: "NUL \<notin> set (errtext w e)" "length (errtext w e) \<le> 252"
  shows "\<exists>l' w'. thr_iteration client l w = (Ret (True, l'), w') \<and> fopen_evs w' = fopen_evs w1 \<and>
    mkdir_evs w' = mkdir_evs w1 \<and> round_done client cm dt ACK_ERROR (errtext w e) crest drest l' w w' \<and> fs w' = fs w"
proof -
  from conn obtain c where c: "clients w client = Some c" "command_socket c = cm" "data_socket c = dt"
    "length (file_path c) = PATH_MAX" "cm \<noteq> dt" "snd_evs w = []" by (auto simp: connected_def)
  obtain n fp header da buf m where hdr: "length header = MAX_HEADER_LEN" "length buf = BUFFERSIZE"
      "length fp = PATH_MAX" "c_str fp = Some full"
    and da: "command da = cmd"
    and n: "crest = drop n (avail cm w)" "n \<le> length (avail cm w)" "m = length junk + length t + 1"
    and it: "thr_iteration client l w = bindM (thr_command client da buf) (\<lambda>(again, buf).
         retM (again, \<lparr>l_attrs = da, l_header = header, l_data = buf\<rparr>)) (arrived client c fp cm n dt m w)"
    using thr_iteration_arrived [OF conn c(1) loc inc tgt] safe by metis
  from inc n(3) have m: "m \<le> length (avail dt w)" "drop m (avail dt w) = drest"
    by (auto simp: incoming_def)
  note av = arrived_avail [OF c(5) n(2) m(1), of client c fp, unfolded n(1) [symmetric] m(2)]
  let ?w = "arrived client c fp cm n dt m w"
  obtain w2 where ref2: "refuses (command da) e ?w w2" and w2: "fopen_evs w2 = fopen_evs w1" "mkdir_evs w2 = mkdir_evs w1"
      "clients w2 = clients ?w" "snd_evs w2 = snd_evs ?w" "tx w2 = tx ?w" "fs w2 = fs ?w"
      "prefix_of w2 = prefix_of ?w" "closed w2 = closed ?w" "rx w2 = rx ?w" "last_client w2 = last_client ?w"
      "fwrite_evs w2 = fwrite_evs ?w" "errtext w2 = errtext ?w"
      "avail cm w2 = avail cm ?w" "avail dt w2 = avail dt ?w"
  proof -
    from ref consider es where "cmd = as_char MK_FILE" "fopen_evs w = Some e # es" "w1 = w\<lparr>fopen_evs := es, errno := e\<rparr>"
      | es where "cmd = as_char MK_DIRECTORY" "mkdir_evs w = Some e # es" "w1 = w\<lparr>mkdir_evs := es, errno := e\<rparr>"
      by (auto simp: refuses_def)
    then show ?thesis
    proof cases
      case 1
      then show ?thesis using that [of "?w\<lparr>fopen_evs := es, errno := e\<rparr>"] da by (simp add: refuses_def)
    next
      case 2
      then show ?thesis using that [of "?w\<lparr>mkdir_evs := es, errno := e\<rparr>"] da by (simp add: refuses_def)
    qed
  qed
  note run = thr_command_refused [of ?w client "c\<lparr>file_path := fp\<rparr>" full, OF _ _ _ ref2, of buf]
  show ?thesis
    unfolding it
    by (use run c hdr av w2 msg in \<open>simp add: bindM_def round_done_def connected_def locals_ok_def\<close>)
qed

text \<open>Files and directories alike, with an operating system that refuses nothing.\<close>

definition permissive :: "server \<Rightarrow> bool" where
  "permissive w \<longleftrightarrow> fopen_evs w = [] \<and> mkdir_evs w = [] \<and> fwrite_evs w = []"

text \<open>The transfer of a node to the path \<open>t\<close>, as the daemon puts it on the two sockets.\<close>

definition transfer_in ::
  "fd \<Rightarrow> fd \<Rightarrow> node \<Rightarrow> byte list \<Rightarrow> byte list \<Rightarrow> byte list \<Rightarrow> byte list \<Rightarrow> server \<Rightarrow> bool" where
  "transfer_in cm dt nd junk t crest drest w \<longleftrightarrow>
     length junk < 2 ^ 64 \<and> NUL \<notin> set t \<and> length (node_bytes nd) < 2 ^ 64 \<and>
     valid_transfer (announced nd t (of_nat (length junk))) \<and>
     avail cm w = enc_transfer (announced nd t (of_nat (length junk))) @ crest \<and>
     avail dt w = junk @ t @ NUL # node_bytes nd @ drest"

lemma serve_node_step:
  assumes conn: "connected client cm dt w" and loc: "locals_ok l"
    and inc: "transfer_in cm dt nd junk t crest drest w"
    and tgt: "target t full w" and safe: "\<not> strstr full ''../''" and ok: "permissive w"
  shows "\<exists>l' w'. thr_iteration client l w = (Ret (True, l'), w') \<and> permissive w' \<and>
    round_done client cm dt ACK_OK [] crest drest l' w w' \<and> fs w' = (fs w)(full \<mapsto> nd)"
proof (cases nd)
  case Dir
  then have "incoming cm dt (as_char MK_DIRECTORY) junk t 0 crest drest w"
    using inc by (simp add: transfer_in_def incoming_def announced_def)
  from serve_directory_step [OF conn loc this tgt safe] ok Dir show ?thesis
    unfolding permissive_def by (auto simp: round_done_def)
next
  case (File data)
  then have "incoming cm dt (as_char MK_FILE) junk t (of_nat (length data)) crest (data @ drest) w"
    and "length data = unat (of_nat (length data) :: u64)"
    using inc by (simp_all add: transfer_in_def incoming_def announced_def unat_u64_of_nat)
  from serve_file_step [OF conn loc this tgt safe] ok File show ?thesis
    unfolding permissive_def by (auto simp: round_done_def)
qed

end
