(* ===== verification/Server_Session.thy ===== *)
theory Server_Session
  imports Server_Serves
begin

text \<open>
  The life of one client thread of the server from the handshake to the end of the connection: the
  password decides, then every transfer is served in turn, and when the peer has gone the client
  is taken out of the list.
\<close>

section \<open>Leaving\<close>

text \<open>The state once the client's sockets are closed and its structure is freed.\<close>

definition gone :: "addr \<Rightarrow> fd \<Rightarrow> fd \<Rightarrow> server \<Rightarrow> server \<Rightarrow> bool" where
  "gone client cm dt w w' \<longleftrightarrow>
     clients w' client = None \<and> closed w' = closed w @ [cm, dt] \<and> fs w' = fs w \<and> tx w' = tx w"

lemma dealloc_gone:
  assumes "clients w client = Some c" and "client_list (clients w) (last_client w) xs" and "client \<in> set xs"
  shows "\<exists>w'. dealloc client w = (Ret (), w') \<and> gone client (command_socket c) (data_socket c) w w'"
proof -
  obtain lst h where "unlink_client (Some client) (last_client w) (clients w) = Some (lst, h)" "h client = None"
    using unlink_total [OF assms(2,3)] by blast
  then show ?thesis using dealloc_run [OF assms(1)] by (simp add: gone_def)
qed

lemma disconnected_run:
  assumes c: "clients w client = Some c" and l: "client_list (clients w) (last_client w) xs" "client \<in> set xs"
  shows "\<exists>w'. disconnected client w = (Exit 0, w') \<and> gone client (command_socket c) (data_socket c) w w'"
proof -
  let ?w = "logged (ip_address c) ''Disconnected'' None False w"
  obtain w' where "dealloc client ?w = (Ret (), w')" "gone client (command_socket c) (data_socket c) ?w w'"
    using dealloc_gone [of ?w client c xs] c l by auto
  then show ?thesis using c
    by (intro exI [of _ w']) (simp add: disconnected_def bindM_def print_log_message_run gone_def)
qed

lemma thr_iteration_closed:
  assumes conn: "connected client cm dt w" and loc: "locals_ok l"
    and eof: "avail cm w = []" "closes (rx w cm)"
    and l: "client_list (clients w) (last_client w) xs" "client \<in> set xs"
  shows "\<exists>w'. thr_iteration client l w = (Exit 0, w') \<and> gone client cm dt w w'"
proof -
  from conn obtain c where c: "clients w client = Some c" "command_socket c = cm" "data_socket c = dt"
    by (auto simp: connected_def)
  have len: "length (l_header l) = 31" using loc by (simp add: locals_ok_def MAX_HEADER_LEN_def)
  obtain q where rcv: "recv_bytes (l_header l) 0 cm 10 w =
      (Ret (SOCKET_CLOSED, l_header l), w\<lparr>rx := (rx w)(cm := Eof # q)\<rparr>)" (is "_ = (_, ?v)")
    using recv_bytes_short [of 0 10 "l_header l" cm w] len eof by auto
  obtain w' where w': "(disconnected client :: byte list srv) ?v = (Exit 0, w')" "gone client cm dt ?v w'"
    using disconnected_run [of ?v client c xs] c l by auto
  have "srv_recv_bytes_wrapper (l_header l) 0 cm 10 client w = (Exit 0, w')"
    using rcv w'(1) by (simp add: srv_recv_bytes_wrapper_def bindM_def return_codes)
  then have "thr_iteration client l w = (Exit 0, w')"
    using c by (simp add: thr_iteration_def load_dest_file_attrs_def bindM_def MIN_DEST_FILE_ATTRS_LEN_def)
  then show ?thesis using w'(2) by (simp add: gone_def)
qed

section \<open>The password\<close>

text \<open>The answer is \<open>ACK_OK\<close> exactly for the password.\<close>

lemma authenticate_answers:
  assumes c: "clients w client = Some c"
    and msg: "dec_message (avail (command_socket c) w) = Some ((flag, t @ [NUL]), rest)" "NUL \<notin> set t"
    and pw: "c_str (password w) = Some pw" "length pw < MESSAGE_BUFFERSIZE"
    and len: "length message = MESSAGE_BUFFERSIZE"
  shows "authenticate client message f0 w =
    bindM (send_message (command_socket c) (as_char (if t = pw then ACK_OK else BAD_AUTH)) (cs []))
      (\<lambda>_. retM (if t = pw then EXIT_SUCCESS else BAD_AUTH)) (consume (command_socket c) (length t + 3) w)"
proof -
  let ?s = "command_socket c"
  have body: "length (t @ [NUL]) \<le> length message"
    using dec_message_body_le [OF msg(1)] len by (simp add: MESSAGE_BUFFERSIZE_def)
  let ?m = "patched message 0 (t @ [NUL])"
  have rcv: "receive_message ?s f0 message w = (Ret (EXIT_SUCCESS, flag, ?m), consume ?s (length t + 3) w)"
    using receive_message_spec [OF msg(1) body] by (simp add: numeral_3_eq_3)
  obtain tail where m: "?m = t @ NUL # tail" by (simp add: patched_0)
  obtain ptail where p: "password w = pw @ NUL # ptail" using c_str_split [OF pw(1)] by blast
  have pn: "NUL \<notin> set pw" using c_str_no_NUL [OF pw(1)] .
  have sl: "strnlen (password w) MESSAGE_BUFFERSIZE = Some (length pw)"
    using strnlen_c_str [OF pw(1)] pw(2) by (simp add: min_def)
  have cmp: "strncmp_eq (length pw) ?m (password w) = Some (take (length pw) t = pw)"
    unfolding m p using strncmp_eq_strings [OF msg(2) pn, of "length pw" tail ptail] by simp
  have str: "c_str ?m = Some t" unfolding m using msg(2) by simp
  have ok: "take (length pw) t = pw \<and> length pw = length t \<longleftrightarrow> t = pw" by auto
  have run: "authenticate client message f0 w =
    bindM (if \<not> take (length pw) t = pw then retM False
        else bindM (orUb (c_str ?m)) (\<lambda>m. retM (length pw = length m))) (\<lambda>ok.
       if \<not> ok then bindM (send_message ?s (as_char BAD_AUTH) (cs [])) (\<lambda>_. retM BAD_AUTH)
       else bindM (send_message ?s (as_char ACK_OK) (cs [])) (\<lambda>_. retM EXIT_SUCCESS))
      (consume ?s (length t + 3) w)"
    using c rcv sl cmp by (simp add: authenticate_def bindM_def)
  have "(if \<not> take (length pw) t = pw then retM False
        else bindM (orUb (c_str ?m)) (\<lambda>m. retM (length pw = length m))) v = (Ret (t = pw), v)" for v :: server
    using str ok by auto
  then show ?thesis unfolding run by (simp add: bindM_def)
qed

lemma authenticate_run:
  assumes c: "clients w client = Some c" and net: "snd_evs w = []"
    and msg: "dec_message (avail (command_socket c) w) = Some ((flag, t @ [NUL]), rest)" "NUL \<notin> set t"
    and pw: "c_str (password w) = Some pw" "length pw < MESSAGE_BUFFERSIZE"
    and len: "length message = MESSAGE_BUFFERSIZE"
  shows "authenticate client message f0 w = (Ret (if t = pw then EXIT_SUCCESS else BAD_AUTH),
    replied (command_socket c) (if t = pw then ACK_OK else BAD_AUTH) [] (consume (command_socket c) (length t + 3) w))"
  using authenticate_answers [OF c msg pw len, of f0] net
  by (simp add: bindM_def send_message_ideal replied_def)

section \<open>All transfers of a session\<close>

type_synonym job = "byte list \<times> node"

definition session_cmd :: "job list \<Rightarrow> byte list" where
  "session_cmd ts = concat (map (\<lambda>(t, nd). enc_transfer (announced nd t 0)) ts)"

definition session_data :: "job list \<Rightarrow> byte list" where
  "session_data ts = concat (map (\<lambda>(t, nd). t @ NUL # node_bytes nd) ts)"

definition stored :: "byte list \<Rightarrow> job list \<Rightarrow> (byte list \<Rightarrow> node option) \<Rightarrow> byte list \<Rightarrow> node option" where
  "stored pre ts f = foldl (\<lambda>f (t, nd). f(pre @ t \<mapsto> nd)) f ts"

definition job_ok :: "byte list \<Rightarrow> job \<Rightarrow> bool" where
  "job_ok pre j \<longleftrightarrow> (case j of (t, nd) \<Rightarrow>
     NUL \<notin> set t \<and> length (node_bytes nd) < 2 ^ 64 \<and> valid_transfer (announced nd t 0) \<and>
     length pre + length t + 1 \<le> PATH_MAX \<and> \<not> strstr (pre @ t) ''../'')"

lemma session_simps [simp]:
  "session_cmd [] = []" "session_cmd ((t, nd) # ts) = enc_transfer (announced nd t 0) @ session_cmd ts"
  "session_data [] = []" "session_data ((t, nd) # ts) = t @ NUL # node_bytes nd @ session_data ts"
  "stored pre [] f = f" "stored pre ((t, nd) # ts) f = stored pre ts (f(pre @ t \<mapsto> nd))"
  by (simp_all add: session_cmd_def session_data_def stored_def)

text \<open>A thread in the middle of a session, with the transfers still to come on its sockets and
  \<open>crest\<close> and \<open>drest\<close> behind them.\<close>

definition midway :: "addr \<Rightarrow> fd \<Rightarrow> fd \<Rightarrow> byte list \<Rightarrow> job list \<Rightarrow> byte list \<Rightarrow> byte list \<Rightarrow> thr_locals \<Rightarrow> server \<Rightarrow> bool" where
  "midway client cm dt pre ts crest drest l w \<longleftrightarrow>
     connected client cm dt w \<and> locals_ok l \<and> permissive w \<and> prefix_of w = Some pre \<and> NUL \<notin> set pre \<and>
     list_all (job_ok pre) ts \<and> avail cm w = session_cmd ts @ crest \<and> avail dt w = session_data ts @ drest"

definition in_session :: "addr \<Rightarrow> fd \<Rightarrow> fd \<Rightarrow> byte list \<Rightarrow> job list \<Rightarrow> byte list \<Rightarrow> byte list \<Rightarrow> thr_locals \<Rightarrow> server \<Rightarrow> bool" where
  "in_session client cm dt pre ts crest drest l w \<longleftrightarrow> midway client cm dt pre ts crest drest l w \<and>
     (\<exists>xs. client_list (clients w) (last_client w) xs \<and> client \<in> set xs)"

text \<open>What the transfers leave: everything is stored and acknowledged.\<close>

definition session_done :: "fd \<Rightarrow> byte list \<Rightarrow> job list \<Rightarrow> server \<Rightarrow> server \<Rightarrow> bool" where
  "session_done cm pre ts w w' \<longleftrightarrow>
     fs w' = stored pre ts (fs w) \<and> closed w' = closed w \<and>
     tx w' = (tx w)(cm := tx w cm @ concat (replicate (length ts) (enc_message (as_char ACK_OK, [])))) \<and>
     (closes (rx w cm) \<longrightarrow> closes (rx w' cm)) \<and> (silent (rx w cm) \<longrightarrow> silent (rx w' cm))"

lemma midway_round:
  assumes s: "midway client cm dt pre ((t, nd) # ts) crest drest l w"
  shows "\<exists>l' w'. thr_iteration client l w = (Ret (True, l'), w') \<and> midway client cm dt pre ts crest drest l' w' \<and>
    session_done cm pre [(t, nd)] w w' \<and>
    (\<forall>xs. client_list (clients w) (last_client w) xs \<longrightarrow> client_list (clients w') (last_client w') xs)"
proof -
  from s have conn: "connected client cm dt w" "locals_ok l" "permissive w" and pre: "prefix_of w = Some pre"
    and ok: "job_ok pre (t, nd)" "list_all (job_ok pre) ts" and nz: "NUL \<notin> set pre"
    and cmd: "avail cm w = session_cmd ((t, nd) # ts) @ crest" and dat: "avail dt w = session_data ((t, nd) # ts) @ drest"
    by (auto simp: midway_def)
  have inc: "transfer_in cm dt nd [] t (session_cmd ts @ crest) (session_data ts @ drest) w"
    using cmd dat ok(1) by (simp add: transfer_in_def job_ok_def)
  have tgt: "target t (pre @ t) w" using pre nz ok(1) by (simp add: target_def job_ok_def)
  have safe: "\<not> strstr (pre @ t) ''../''" using ok(1) by (simp add: job_ok_def)
  from serve_node_step [OF conn(1,2) inc tgt safe conn(3)] obtain l' w' where
    run: "thr_iteration client l w = (Ret (True, l'), w')" "permissive w'" "fs w' = (fs w)(pre @ t \<mapsto> nd)"
    and rd: "round_done client cm dt ACK_OK [] (session_cmd ts @ crest) (session_data ts @ drest) l' w w'" by blast
  have "midway client cm dt pre ts crest drest l' w'"
    using rd run(2) pre nz ok(2) by (auto simp: round_done_def midway_def)
  then show ?thesis using run rd by (simp add: round_done_def session_done_def text_body_def)
qed

lemma in_session_round:
  assumes "in_session client cm dt pre ((t, nd) # ts) crest drest l w"
  shows "\<exists>l' w'. thr_iteration client l w = (Ret (True, l'), w') \<and> in_session client cm dt pre ts crest drest l' w' \<and>
    session_done cm pre [(t, nd)] w w'"
  using midway_round [of client cm dt pre t nd ts crest drest l w] assms by (auto simp: in_session_def)

lemma session_done_trans:
  "session_done cm pre ts w v \<Longrightarrow> session_done cm pre us v u \<Longrightarrow> session_done cm pre (ts @ us) w u"
  by (auto simp: session_done_def stored_def replicate_add)

lemma in_session_rounds:
  assumes "in_session client cm dt pre ts crest drest l w"
  shows "\<exists>l' w'. thr_loop client l w = thr_loop client l' w' \<and> in_session client cm dt pre [] crest drest l' w' \<and>
    session_done cm pre ts w w'"
  using assms
proof (induction ts arbitrary: l w)
  case Nil
  have "session_done cm pre [] w w" by (simp add: session_done_def fun_upd_idem)
  then show ?case using Nil by blast
next
  case (Cons j ts)
  obtain t nd where j: "j = (t, nd)" by fastforce
  from in_session_round [OF Cons.prems [unfolded j]] obtain l' v where
    run: "thr_iteration client l w = (Ret (True, l'), v)" and s: "in_session client cm dt pre ts crest drest l' v"
    and v: "session_done cm pre [(t, nd)] w v" by blast
  from Cons.IH [OF s] obtain l'' w' where "thr_loop client l' v = thr_loop client l'' w'"
    "in_session client cm dt pre [] crest drest l'' w'" and w': "session_done cm pre ts v w'" by blast
  then show ?case using run session_done_trans [OF v w'] j by (auto simp: thr_loop.simps [of client l])
qed

text \<open>After them the thread ends when the peer closes the connection, and waits as long as it does
  not.\<close>

lemma session_served:
  assumes "in_session client cm dt pre ts [] drest l w" and "closes (rx w cm)"
  shows "\<exists>w'. thr_loop client l w = (Exit 0, w') \<and> fs w' = stored pre ts (fs w) \<and>
    tx w' = (tx w)(cm := tx w cm @ concat (replicate (length ts) (enc_message (as_char ACK_OK, [])))) \<and>
    closed w' = closed w @ [cm, dt] \<and> clients w' client = None"
proof -
  from in_session_rounds [OF assms(1)] obtain l' v where run: "thr_loop client l w = thr_loop client l' v"
    and s: "in_session client cm dt pre [] [] drest l' v" and d: "session_done cm pre ts w v" by blast
  obtain w' where "thr_iteration client l' v = (Exit 0, w')" "gone client cm dt v w'"
    using thr_iteration_closed [of client cm dt v l'] s d assms(2) by (auto simp: in_session_def midway_def session_done_def)
  then show ?thesis using run d by (simp add: thr_loop.simps [of client l'] gone_def session_done_def)
qed

lemma thr_iteration_waits:
  assumes conn: "connected client cm dt w" and loc: "locals_ok l" and wait: "avail cm w = []" "silent (rx w cm)"
  shows "thr_iteration client l w = (Block, w\<lparr>rx := (rx w)(cm := [])\<rparr>)"
proof -
  from conn obtain c where c: "clients w client = Some c" "command_socket c = cm" by (auto simp: connected_def)
  have "recv_bytes (l_header l) 0 cm 10 w = (Block, w\<lparr>rx := (rx w)(cm := [])\<rparr>)"
    using os_recv_end(2) [OF wait] by (simp add: recv_bytes_def recv_loop.simps [of "l_header l"])
  then show ?thesis
    using c by (simp add: thr_iteration_def load_dest_file_attrs_def srv_recv_bytes_wrapper_def bindM_def MIN_DEST_FILE_ATTRS_LEN_def)
qed

lemma session_waits:
  assumes "in_session client cm dt pre ts [] drest l w" and "silent (rx w cm)"
  shows "\<exists>w'. thr_loop client l w = (Block, w') \<and> fs w' = stored pre ts (fs w) \<and>
    tx w' = (tx w)(cm := tx w cm @ concat (replicate (length ts) (enc_message (as_char ACK_OK, []))))"
proof -
  from in_session_rounds [OF assms(1)] obtain l' v where run: "thr_loop client l w = thr_loop client l' v"
    and s: "in_session client cm dt pre [] [] drest l' v" and d: "session_done cm pre ts w v" by blast
  have "thr_iteration client l' v = (Block, v\<lparr>rx := (rx v)(cm := [])\<rparr>)"
    using thr_iteration_waits [of client cm dt v l'] s d assms(2) by (auto simp: in_session_def midway_def session_done_def)
  then show ?thesis using run d by (simp add: thr_loop.simps [of client l'] session_done_def)
qed

section \<open>The whole thread\<close>

text \<open>A thread at its start: the daemon's password \<open>t\<close> and then the transfers are on their way.\<close>

definition at_start :: "addr \<Rightarrow> fd \<Rightarrow> fd \<Rightarrow> byte list \<Rightarrow> byte list \<Rightarrow> byte list \<Rightarrow> server \<Rightarrow> bool" where
  "at_start client cm dt t pw crest w \<longleftrightarrow>
     connected client cm dt w \<and> c_str (password w) = Some pw \<and> length pw < MESSAGE_BUFFERSIZE \<and>
     (\<exists>flag. dec_message (avail cm w) = Some ((flag, t @ [NUL]), crest)) \<and> NUL \<notin> set t \<and>
     (\<exists>xs. client_list (clients w) (last_client w) xs \<and> client \<in> set xs)"

text \<open>The state in which the loop starts, or the thread learns that it ends.\<close>

definition admitted :: "addr \<Rightarrow> client_info \<Rightarrow> fd \<Rightarrow> byte list \<Rightarrow> int \<Rightarrow> server \<Rightarrow> server" where
  "admitted client c cm t flag w =
     (let c' = c\<lparr>ip_address := ntoa w (command_info c)\<rparr>;
          v = w\<lparr>clients := (clients w)(client \<mapsto> c')\<rparr>
      in replied cm flag [] (consume cm (length t + 3) (logged (ip_address c') ''connected to the server'' None False v)))"

lemma thr_func_start:
  assumes s: "at_start client cm dt t pw crest w" and c: "clients w client = Some c"
    and len: "length message = MESSAGE_BUFFERSIZE"
  shows "thr_func client message f0 l w =
    (if t = pw then thr_loop client l (admitted client c cm t ACK_OK w)
     else bindM (print_log_message (ntoa w (command_info c)) ''BAD AUTH'' None True) (\<lambda>_. dealloc client)
       (admitted client c cm t BAD_AUTH w))"
proof -
  from s c have cm: "command_socket c = cm" "snd_evs w = []" by (auto simp: at_start_def connected_def)
  let ?c = "c\<lparr>ip_address := ntoa w (command_info c)\<rparr>"
  let ?v = "logged (ip_address ?c) ''connected to the server'' None False (w\<lparr>clients := (clients w)(client \<mapsto> ?c)\<rparr>)"
  from s obtain flag where msg: "dec_message (avail cm w) = Some ((flag, t @ [NUL]), crest)" by (auto simp: at_start_def)
  have "authenticate client message f0 ?v = (Ret (if t = pw then EXIT_SUCCESS else BAD_AUTH),
      replied cm (if t = pw then ACK_OK else BAD_AUTH) [] (consume cm (length t + 3) ?v))"
    using authenticate_run [of ?v client ?c flag t crest pw message f0] s msg cm len
    by (simp add: at_start_def logged_def)
  then show ?thesis
    using c by (simp add: thr_func_def bindM_def update_client_def print_log_message_run admitted_def Let_def return_codes)
qed

lemma admitted_fields [simp]:
  "tx (admitted client c cm t n w) = (tx w)(cm := tx w cm @ enc_message (as_char n, []))"
  "fs (admitted client c cm t n w) = fs w" "closed (admitted client c cm t n w) = closed w"
  "clients (admitted client c cm t n w) = (clients w)(client \<mapsto> c\<lparr>ip_address := ntoa w (command_info c)\<rparr>)"
  "last_client (admitted client c cm t n w) = last_client w" "snd_evs (admitted client c cm t n w) = snd_evs w"
  "prefix_of (admitted client c cm t n w) = prefix_of w" "permissive (admitted client c cm t n w) = permissive w"
  "rx (admitted client c cm t n w) = rx (consume cm (length t + 3) w)"
  by (simp_all add: admitted_def Let_def prefix_of_def permissive_def logged_def replied_def sent_def consume_def)

lemma admitted_avail [simp]: "avail s (admitted client c cm t n w) = avail s (consume cm (length t + 3) w)"
  by (simp add: avail_def)

text \<open>A thread at its start whose daemon presents the right password and then its transfers, and the
  thread once it has learned the password.\<close>

definition greets :: "addr \<Rightarrow> fd \<Rightarrow> fd \<Rightarrow> byte list \<Rightarrow> byte list \<Rightarrow> job list \<Rightarrow> byte list \<Rightarrow> byte list \<Rightarrow> server \<Rightarrow> bool" where
  "greets client cm dt pw pre ts crest drest w \<longleftrightarrow>
     connected client cm dt w \<and> permissive w \<and> prefix_of w = Some pre \<and> NUL \<notin> set pre \<and> list_all (job_ok pre) ts \<and>
     c_str (password w) = Some pw \<and> length pw < MESSAGE_BUFFERSIZE \<and>
     (\<exists>flag. dec_message (avail cm w) = Some ((flag, pw @ [NUL]), session_cmd ts @ crest)) \<and>
     avail dt w = session_data ts @ drest"

lemma admitted_midway:
  assumes s: "greets client cm dt pw pre ts crest drest w" and c: "clients w client = Some c" and l: "locals_ok l"
  shows "midway client cm dt pre ts crest drest l (admitted client c cm pw ACK_OK w)"
proof -
  let ?v = "admitted client c cm pw ACK_OK w"
  from s obtain flag where msg: "dec_message (avail cm w) = Some ((flag, pw @ [NUL]), session_cmd ts @ crest)"
    by (auto simp: greets_def)
  note tk = message_taken [OF msg]
  have conn: "connected client cm dt w" using s by (simp add: greets_def)
  then have ne: "dt \<noteq> cm" by (auto simp: connected_def)
  have "avail cm ?v = session_cmd ts @ crest" using tk by (simp add: numeral_3_eq_3)
  moreover have "avail dt ?v = session_data ts @ drest" using s ne by (simp add: greets_def)
  moreover have "connected client cm dt ?v" using conn c by (auto simp: connected_def)
  ultimately show ?thesis using l s by (simp add: midway_def greets_def)
qed

lemma admitted_session:
  assumes s: "at_start client cm dt pw pw (session_cmd ts @ crest) w" and c: "clients w client = Some c"
    and l: "locals_ok l" and ok: "permissive w" and pre: "prefix_of w = Some pre" "NUL \<notin> set pre"
    and jobs: "list_all (job_ok pre) ts" and dat: "avail dt w = session_data ts @ drest"
  shows "in_session client cm dt pre ts crest drest l (admitted client c cm pw ACK_OK w)"
proof -
  from s obtain xs where xs: "client_list (clients w) (last_client w) xs" "client \<in> set xs" by (auto simp: at_start_def)
  then have "client_list (clients (admitted client c cm pw ACK_OK w)) (last_client (admitted client c cm pw ACK_OK w)) xs"
    using client_list_upd [OF xs(1) c] by simp
  moreover have "greets client cm dt pw pre ts crest drest w"
    using s ok pre jobs dat by (auto simp: greets_def at_start_def)
  ultimately show ?thesis using admitted_midway [OF _ c l] xs(2) by (auto simp: in_session_def)
qed

end
