(* ===== verification/Server_Confined.thy ===== *)
theory Server_Confined
  imports Server_Session
begin

text \<open>
  Where the server can write at all.  Whatever bytes a peer sends and whatever the operating system
  answers, a client thread changes the file system only at paths that start with the chroot
  directory and do not contain \<^verbatim>\<open>../\<close>.  The invariant \<open>guard\<close> is kept by every piece of the
  thread; between the check of a path and the command that uses it, \<open>safe_path\<close> holds.
\<close>

section \<open>The invariant\<close>

definition inside :: "byte list \<Rightarrow> byte list \<Rightarrow> bool" where
  "inside pre p \<longleftrightarrow> (\<exists>t. p = pre @ t) \<and> \<not> strstr p ''../''"

definition guard :: "byte list \<Rightarrow> (byte list \<Rightarrow> node option) \<Rightarrow> server \<Rightarrow> bool" where
  "guard pre f0 w \<longleftrightarrow> prefix_of w = Some pre \<and> (\<forall>p. fs w p \<noteq> f0 p \<longrightarrow> inside pre p) \<and>
     (\<forall>a c. clients w a = Some c \<longrightarrow> length (file_path c) = PATH_MAX)"

definition safe_path :: "byte list \<Rightarrow> addr \<Rightarrow> server \<Rightarrow> bool" where
  "safe_path pre client w \<longleftrightarrow> (\<exists>c p. clients w client = Some c \<and> c_str (file_path c) = Some p \<and> inside pre p)"

lemma guard_net [simp]:
  "guard pre f0 (w\<lparr>rx := x1\<rparr>) = guard pre f0 w" "guard pre f0 (w\<lparr>tx := x2\<rparr>) = guard pre f0 w"
  "guard pre f0 (w\<lparr>snd_evs := x3\<rparr>) = guard pre f0 w" "guard pre f0 (w\<lparr>errno := x4\<rparr>) = guard pre f0 w"
  "guard pre f0 (w\<lparr>closed := x5\<rparr>) = guard pre f0 w" "guard pre f0 (w\<lparr>logfile := x6\<rparr>) = guard pre f0 w"
  "guard pre f0 (w\<lparr>fopen_evs := x7\<rparr>) = guard pre f0 w" "guard pre f0 (w\<lparr>mkdir_evs := x8\<rparr>) = guard pre f0 w"
  "guard pre f0 (w\<lparr>fwrite_evs := x9\<rparr>) = guard pre f0 w"
  by (simp_all add: guard_def prefix_of_def)

lemma guard_fs: "guard pre f0 w \<Longrightarrow> inside pre p \<Longrightarrow> guard pre f0 (w\<lparr>fs := (fs w)(p := x)\<rparr>)"
  by (auto simp: guard_def)

section \<open>Kept by the calls and wrappers\<close>

lemma keeps_guard_lib [keeps_intros]:
  "keeps (guard pre f0) (recv_bytes buf off s bytes)" "keeps (guard pre f0) (send_message s flag m)"
  "keeps (guard pre f0) (receive_message s flag m)" "keeps (guard pre f0) (load_path len s path off)"
proof -
  show "keeps (guard pre f0) (recv_bytes buf off s bytes)" for buf off bytes
    by (rule keepsI) (use recv_bytes_frame in \<open>metis guard_net(1) prod.collapse\<close>)
  then show "keeps (guard pre f0) (load_path len s path off)"
    unfolding load_path_def by (intro keeps_intros)
  show "keeps (guard pre f0) (send_message s flag m)"
    by (rule keepsI) (use send_message_frame in \<open>metis guard_net(2-4) prod.collapse\<close>)
  show "keeps (guard pre f0) (receive_message s flag m)"
    by (rule keepsI) (use receive_message_frame in \<open>metis guard_net(1) prod.collapse\<close>)
qed

lemma keeps_guard_basic [keeps_intros]:
  "keeps P (client_at a)" "keeps (guard pre f0) (print_log_message ip m p e)" "keeps (guard pre f0) (os_close s)"
  "keeps P strerror"
  by (simp_all add: client_at_def keeps_def orUb_def print_log_message_def os_close_def strerror_def split: option.splits)

lemma unlink_file_path:
  "unlink_client p l h = Some (l', h') \<Longrightarrow> h' a = Some c' \<Longrightarrow> \<exists>c. h a = Some c \<and> file_path c' = file_path c"
  by (auto simp: unlink_client_def get_client_def upd_client_def split: bind_splits if_splits prod.splits)

lemma keeps_guard_dealloc [keeps_intros]: "keeps (guard pre f0) (dealloc client)"
proof (rule keepsI)
  fix w assume g: "guard pre f0 w"
  show "guard pre f0 (snd (dealloc client w))"
  proof (cases "clients w client")
    case None
    with g show ?thesis by (simp add: dealloc_def client_at_def bindM_def)
  next
    case (Some c)
    show ?thesis
    proof (cases "unlink_client (Some client) (last_client w) (clients w)")
      case None
      with g Some show ?thesis by (simp add: dealloc_def bindM_def os_close_def)
    next
      case u: (Some r)
      obtain lst h where r: "r = (lst, h)" by fastforce
      have "guard pre f0 (w\<lparr>closed := closed w @ [command_socket c, data_socket c], last_client := lst, clients := h\<rparr>)"
        using g unlink_file_path [OF u [unfolded r]] by (fastforce simp: guard_def prefix_of_def)
      then show ?thesis using dealloc_run [OF Some u [unfolded r]] by simp
    qed
  qed
qed

lemma keeps_guard_ends [keeps_intros]:
  "keeps (guard pre f0) (disconnected client)" "keeps (guard pre f0) (unknown_protocol client)"
  unfolding disconnected_def unknown_protocol_def by (intro keeps_intros)+

lemma keeps_guard_wrappers [keeps_intros]:
  "keeps (guard pre f0) (srv_recv_bytes_wrapper buf off s bytes client)"
  "keeps (guard pre f0) (srv_send_message_wrapper s flag m client)"
  unfolding srv_recv_bytes_wrapper_def srv_send_message_wrapper_def by (intro keeps_intros)+

lemma keeps_guard_thread [keeps_intros]:
  "keeps (guard pre f0) (bad_path client p)" "keeps (guard pre f0) (fwrite_failed client)"
  "keeps (guard pre f0) (ack_error client)" "keeps (guard pre f0) (ack_ok client)"
  "keeps (guard pre f0) (discard_block n buf client)"
  unfolding bad_path_def fwrite_failed_def ack_error_def ack_ok_def discard_block_def by (intro keeps_intros)+

lemma keeps_guard_discard [keeps_intros]: "keeps (guard pre f0) (discard_data da client buf)"
proof -
  have "keeps (guard pre f0) (discard_blocks i buf client)" for i buf
    by (induction i arbitrary: buf) (auto intro!: keeps_intros)
  then show ?thesis unfolding discard_data_def Let_def by (intro keeps_intros)
qed

lemma keeps_guard_header [keeps_intros]:
  "keeps (guard pre f0) (load_dest_file_attrs buf da client)" "keeps (guard pre f0) (parse_dest_file_attrs buf da client)"
  unfolding load_dest_file_attrs_def parse_dest_file_attrs_def Let_def by (intro keeps_intros)+

section \<open>The path\<close>

lemma load_path_prefix:
  "load_path len s path off w = (Ret (e, b), w') \<Longrightarrow> length b = length path \<and> take off b = take off path"
  by (auto simp: load_path_def recv_bytes_def split: if_splits dest!: recv_loop_ret)

lemma c_str_prefix:
  assumes "take (length pre) bs = pre" and "NUL \<notin> set pre" and "c_str bs = Some s"
  shows "\<exists>t. s = pre @ t"
proof -
  have bs: "pre @ drop (length pre) bs = bs" using assms(1) by (metis append_take_drop_id)
  have "s = takeWhile (\<lambda>c. c \<noteq> NUL) bs" using assms(3) by (simp add: c_str_def split: if_splits)
  also have "\<dots> = takeWhile (\<lambda>c. c \<noteq> NUL) (pre @ drop (length pre) bs)" unfolding bs ..
  also have "\<dots> = pre @ takeWhile (\<lambda>c. c \<noteq> NUL) (drop (length pre) bs)"
    using assms(2) by (intro takeWhile_append2) auto
  finally show ?thesis by blast
qed

lemma load_path_wrapper_guard:
  assumes g: "guard pre f0 w" and pre: "NUL \<notin> set pre" "length pre < PATH_MAX"
    and run: "srv_load_path_wrapper len client w = (r, w')"
  shows "guard pre f0 w' \<and> (\<forall>n. r = Ret n \<longrightarrow> safe_path pre client w')"
proof (cases "clients w client")
  case None
  with g run show ?thesis by (auto simp: srv_load_path_wrapper_def client_at_def bindM_def)
next
  case (Some c)
  have fp: "length (file_path c) = PATH_MAX" and pw: "prefix_of w = Some pre" using g Some by (auto simp: guard_def)
  obtain n where n: "chroot_prefix (dest_chroot w) (is_dest_chroot w) (file_path c) = Some (n, patched (file_path c) 0 pre)"
    "length pre = n + (if is_dest_chroot w then 1 else 0)"
    by (rule chroot_prefix_spec [OF pw fp pre(2)])
  let ?p = "patched (file_path c) 0 pre"
  obtain x v where x: "load_path len (data_socket c) ?p (length pre) w = (x, v)" by fastforce
  have gv: "guard pre f0 v" using keepsD [OF keeps_guard_lib(4) g x] .
  have fr: "clients v = clients w"
  proof (cases "int PATH_MAX < len")
    case False
    then show ?thesis using x recv_bytes_frame [of ?p "length pre" "data_socket c" "word_of_int len" w x v]
      by (auto simp: load_path_def)
  qed (use x in \<open>simp add: load_path_def\<close>)
  show ?thesis
  proof (cases "\<exists>e b. x = Ret (e, b)")
    case False
    then have "w' = v \<and> (\<forall>n. r \<noteq> Ret n)"
      using run Some n(1) x
      by (cases x) (auto simp: srv_load_path_wrapper_def bindM_def n(2) [symmetric])
    with gv show ?thesis by auto
  next
    case True
    then obtain e b where b: "x = Ret (e, b)" by blast
    let ?u = "v\<lparr>clients := (clients v)(client \<mapsto> c\<lparr>file_path := b\<rparr>)\<rparr>"
    have lp: "length b = PATH_MAX" "take (length pre) b = pre"
      using load_path_prefix [OF x [unfolded b]] fp pre(2) by (simp_all add: patched_0)
    have gu: "guard pre f0 ?u" using gv lp(1) by (auto simp: guard_def prefix_of_def)
    have rest: "srv_load_path_wrapper len client w =
        (if e \<noteq> EXIT_SUCCESS then disconnected client
         else bindM (orUb (c_str b)) (\<lambda>s. if strstr s ''../'' then bad_path client s else retM (len + int n))) ?u"
      using Some n(1) x b fr by (simp add: srv_load_path_wrapper_def bindM_def n(2) [symmetric] update_client_def)
    show ?thesis
    proof (cases "e = EXIT_SUCCESS")
      case False
      then show ?thesis using run rest keepsD [OF keeps_guard_ends(1) gu] by auto
    next
      case ok: True
      show ?thesis
      proof (cases "c_str b")
        case None
        with ok run rest gu show ?thesis by simp
      next
        case s: (Some s)
        show ?thesis
        proof (cases "strstr s ''../''")
          case True
          then show ?thesis using ok s run rest keepsD [OF keeps_guard_thread(1) gu] by auto
        next
          case False
          then have "inside pre s" using c_str_prefix [OF lp(2) pre(1) s] by (auto simp: inside_def)
          then show ?thesis using False ok s run rest gu by (auto simp: safe_path_def)
        qed
      qed
    qed
  qed
qed

section \<open>The commands\<close>

lemma keeps_guard_files:
  assumes "inside pre p"
  shows "keeps (guard pre f0) (os_fopen_wb p)" "keeps (guard pre f0) (os_mkdir p)" "keeps (guard pre f0) (os_fwrite bs p)"
  using assms
  by (auto simp: keeps_def guard_def prefix_of_def os_fopen_wb_def os_mkdir_def os_fwrite_def file_append_def
      split: list.splits option.splits node.splits)

lemma keeps_guard_write:
  assumes "inside pre p"
  shows "keeps (guard pre f0) (write_data buf da p client)"
proof -
  have block: "keeps (guard pre f0) (write_block n buf p client)" for n buf
    unfolding write_block_def by (intro keeps_intros keeps_guard_files assms)
  have "keeps (guard pre f0) (write_blocks i buf p client)" for i buf
    by (induction i arbitrary: buf) (auto intro!: keeps_intros block)
  then show ?thesis unfolding write_data_def Let_def by (intro keeps_intros block)
qed

lemma thr_command_guard:
  assumes g: "guard pre f0 w" and s: "safe_path pre client w" and run: "thr_command client da buf w = (r, w')"
  shows "guard pre f0 w'"
proof -
  from s obtain c p where c: "clients w client = Some c" "c_str (file_path c) = Some p" and ins: "inside pre p"
    by (auto simp: safe_path_def)
  note files = keeps_guard_files [OF ins] keeps_guard_write [OF ins]
  define m where "m =
     (if command da = as_char MK_FILE then
        bindM (os_fopen_wb p) (\<lambda>opened.
         if opened then
           bindM (write_data buf da p client) (\<lambda>buf. bindM (ack_ok client) (\<lambda>_. retM (True, buf)))
         else bindM (ack_error client) (\<lambda>_. retM (True, buf)))
      else if command da = as_char MK_DIRECTORY then
        bindM (os_mkdir p) (\<lambda>r.
         if r = - 1 then bindM (ack_error client) (\<lambda>_. retM (True, buf))
         else bindM (ack_ok client) (\<lambda>_. retM (True, buf)))
      else
        bindM (print_log_message (ip_address c) ''UNKNOWN PROTOCOL OR NETWORK FAILURE'' None True) (\<lambda>_.
        bindM (dealloc client) (\<lambda>_. retM (False, buf))))"
  have "thr_command client da buf w = m w" using c by (simp add: thr_command_def m_def bindM_def)
  moreover have "keeps (guard pre f0) m" unfolding m_def by (intro keeps_intros files)
  ultimately show ?thesis using g run keepsD by metis
qed

section \<open>The thread\<close>

lemma thr_iteration_guard:
  assumes g: "guard pre f0 w" and pre: "NUL \<notin> set pre" "length pre < PATH_MAX"
    and run: "thr_iteration client l w = (r, w')"
  shows "guard pre f0 w'"
proof -
  define tail where "tail header da buf = bindM (srv_load_path_wrapper (path_len da) client) (\<lambda>len.
     let da = da\<lparr>path_len := len\<rparr> in
     bindM (thr_command client da buf) (\<lambda>(again, buf).
       retM (again, \<lparr>l_attrs = da, l_header = header, l_data = buf\<rparr>)))" for header da buf
  have "keeps (guard pre f0) (tail header da buf)" for header da buf
  proof (rule keepsI)
    fix v assume gv: "guard pre f0 v"
    obtain x u where x: "srv_load_path_wrapper (path_len da) client v = (x, u)" by fastforce
    note u = load_path_wrapper_guard [OF gv pre x]
    show "guard pre f0 (snd (tail header da buf v))"
    proof (cases "\<exists>n. x = Ret n")
      case False
      then have "snd (tail header da buf v) = u" using x by (cases x) (auto simp: tail_def bindM_def)
      with u show ?thesis by simp
    next
      case True
      then obtain n where n: "x = Ret n" by blast
      obtain y t where y: "thr_command client (da\<lparr>path_len := n\<rparr>) buf u = (y, t)" by fastforce
      have "guard pre f0 t" using thr_command_guard [OF _ _ y] u n by blast
      moreover have "snd (tail header da buf v) = t"
        using x y n by (cases y) (auto simp: tail_def bindM_def Let_def)
      ultimately show ?thesis by simp
    qed
  qed
  moreover have "thr_iteration client l = bindM (load_dest_file_attrs (l_header l) (l_attrs l) client) (\<lambda>(header, da).
     bindM (parse_dest_file_attrs header da client) (\<lambda>da.
     bindM (if 0 < discard da then discard_data da client (l_data l) else retM (l_data l)) (tail header da)))"
    by (simp add: thr_iteration_def tail_def [abs_def])
  ultimately have "keeps (guard pre f0) (thr_iteration client l)" by (simp only:) (intro keeps_intros)
  then show ?thesis using g run by (rule keepsD)
qed

lemma thr_loop_guard:
  "thr_loop client l w = (r, w') \<Longrightarrow> guard pre f0 w \<Longrightarrow> NUL \<notin> set pre \<Longrightarrow> length pre < PATH_MAX \<Longrightarrow> guard pre f0 w'"
proof (induction client l w arbitrary: r w' rule: thr_loop.induct)
  case (1 client l w)
  obtain x v where x: "thr_iteration client l w = (x, v)" by fastforce
  have gv: "guard pre f0 v" using thr_iteration_guard [OF "1.prems"(2-4) x] .
  show ?case
  proof (cases "\<exists>l'. x = Ret (True, l')")
    case True
    then obtain l' where l': "x = Ret (True, l')" by blast
    then have "thr_loop client l' v = (r, w')" using x "1.prems"(1) by (simp add: thr_loop.simps [of client l])
    with "1.IH" [OF x [symmetric] l' refl TrueI this gv] "1.prems" show ?thesis by simp
  next
    case False
    then have "w' = v" using x "1.prems"(1)
      by (cases x) (auto simp: thr_loop.simps [of client l] split: if_splits prod.splits)
    with gv show ?thesis by simp
  qed
qed

lemma thr_func_guard:
  assumes g: "guard pre f0 w" and pre: "NUL \<notin> set pre" "length pre < PATH_MAX"
  shows "guard pre f0 (snd (thr_func client message flag l w))"
proof -
  have "keeps (guard pre f0) (update_client a f)" if "\<And>c. length (file_path (f c)) = length (file_path c)" for a f
    using that by (auto simp: keeps_def update_client_def guard_def prefix_of_def split: option.splits)
  moreover have "keeps (guard pre f0) (thr_loop client l)"
    by (rule keepsI) (metis thr_loop_guard pre prod.collapse)
  moreover have "keeps (guard pre f0) (authenticate client message flag)"
    unfolding authenticate_def by (intro keeps_intros)
  ultimately have "keeps (guard pre f0) (thr_func client message flag l)"
    unfolding thr_func_def by (intro keeps_intros) simp_all
  then show ?thesis using g by (simp add: keeps_def)
qed

end
