(* ===== verification/Server_Accept.thy ===== *)
theory Server_Accept
  imports Server_State
begin

text \<open>
  The main thread of \<^verbatim>\<open>src/server.c\<close>: \<open>accept_connection\<close>, which pairs the two connections of a
  daemon by their token, the loop body of \<open>main\<close> that makes the client known, and the signal
  handler.  Memory fresh from \<^verbatim>\<open>malloc\<close> and uninitialised locals have arbitrary contents, which are
  arguments (\<open>e0\<close>, \<open>c0\<close>, \<open>message\<close>, \<open>message_flag\<close>).
\<close>

section \<open>accept\_connection\<close>

definition malloc :: "addr srv" where
  "malloc = bindM (getM fresh_addr) (\<lambda>a. bindM (modifyM (\<lambda>w. w\<lparr>fresh_addr := a + 1\<rparr>)) (\<lambda>_. retM a))"

definition malloc_el :: "el \<Rightarrow> addr srv" where
  "malloc_el e0 = bindM malloc (\<lambda>a. bindM (modifyM (\<lambda>w. w\<lparr>els := (els w)(a \<mapsto> e0)\<rparr>)) (\<lambda>_. retM a))"

definition el_at :: "addr \<Rightarrow> el srv" where
  "el_at a w = orUb (els w a) w"

definition update_el :: "addr \<Rightarrow> (el \<Rightarrow> el) \<Rightarrow> unit srv" where
  "update_el a f = bindM (el_at a) (\<lambda>e. modifyM (\<lambda>w. w\<lparr>els := (els w)(a \<mapsto> f e)\<rparr>))"

text \<open>A connection, or a failing call.\<close>

definition os_accept :: "(fd \<times> sockaddr) option srv" where
  "os_accept w = (case accepts w of [] \<Rightarrow> (Block, w) | r # rs \<Rightarrow> (Ret r, w\<lparr>accepts := rs\<rparr>))"

text \<open>What happens to an accepted connection.  The first component of the result says whether the
  function returns.  The result of \<open>receive_message\<close> is ignored: the token is whatever \<open>message\<close>
  then holds.\<close>

definition admit :: "addr \<Rightarrow> addr \<Rightarrow> fd \<Rightarrow> byte \<Rightarrow> byte list \<Rightarrow> (bool \<times> byte \<times> byte list) srv" where
  "admit connection client sock message_flag message =
     bindM (receive_message sock message_flag message) (\<lambda>(_, message_flag, message).
     bindM (orUb (buf_read message 0 MESSAGE_BUFFERSIZE)) (\<lambda>token.
     bindM (update_el connection (\<lambda>e. e\<lparr>el_token := token, el_socket := sock\<rparr>)) (\<lambda>_.
     bindM (el_at connection) (\<lambda>new.
     bindM (getM (\<lambda>w. dl_search (head w) new (els w))) (\<lambda>elt.
     bindM (orUb elt) (\<lambda>elt.
     case elt of
       None \<Rightarrow>
         bindM (getM (\<lambda>w. dl_append (head w) (Some connection) (els w))) (\<lambda>r.
         bindM (orUb r) (\<lambda>(hp, h).
         bindM (modifyM (\<lambda>w. w\<lparr>head := hp, els := h\<rparr>)) (\<lambda>_.
           retM (False, message_flag, message))))
     | Some a \<Rightarrow>
         bindM (el_at a) (\<lambda>e.
         bindM (update_client client (\<lambda>c. c\<lparr>command_socket := el_socket e, data_socket := el_socket new,
           command_info := el_info e, data_info := el_info new\<rparr>)) (\<lambda>_.
         bindM (getM (\<lambda>w. dl_delete (head w) (Some a) (els w))) (\<lambda>r.
         bindM (orUb r) (\<lambda>(hp, h).
         bindM (modifyM (\<lambda>w. w\<lparr>head := hp, els := h\<rparr>)) (\<lambda>_.
           retM (True, message_flag, message))))))))))))"

definition accept_round :: "el \<Rightarrow> addr \<Rightarrow> byte \<Rightarrow> byte list \<Rightarrow> (bool \<times> byte \<times> byte list) srv" where
  "accept_round e0 client message_flag message =
     bindM (malloc_el e0) (\<lambda>connection.
     bindM os_accept (\<lambda>r.
     case r of
       None \<Rightarrow> failM (Exit EXIT_FAILURE)
     | Some (sock, info) \<Rightarrow>
         bindM (update_el connection (\<lambda>e. e\<lparr>el_info := info\<rparr>)) (\<lambda>_.
           admit connection client sock message_flag message)))"

text \<open>Every round takes one connection off the queue of the listening socket.\<close>

definition few_accepts :: "nat \<Rightarrow> server \<Rightarrow> bool" where
  "few_accepts n w \<longleftrightarrow> length (accepts w) \<le> n"

lemma few_accepts_update [simp]:
  "few_accepts n (w\<lparr>els := x1\<rparr>) = few_accepts n w" "few_accepts n (w\<lparr>fresh_addr := x2\<rparr>) = few_accepts n w"
  "few_accepts n (w\<lparr>head := x3\<rparr>) = few_accepts n w" "few_accepts n (w\<lparr>clients := x4\<rparr>) = few_accepts n w"
  "few_accepts n (w\<lparr>rx := x5\<rparr>) = few_accepts n w"
  by (simp_all add: few_accepts_def)

lemma on_ret_accept_parts [on_ret_intros]:
  "on_ret (few_accepts n) malloc" "on_ret (few_accepts n) (malloc_el e0)" "on_ret P (el_at a)"
  "on_ret (few_accepts n) (update_el a f)" "on_ret (few_accepts n) (update_client b g)"
  "on_ret (few_accepts n) (receive_message t flag m)"
  by (auto simp: malloc_def malloc_el_def update_el_def on_ret_def bindM_eq_Ret el_at_def orUb_def
      update_client_def few_accepts_def dest!: receive_message_frame split: option.splits)

lemma on_ret_case_option [on_ret_intros]:
  "on_ret P m \<Longrightarrow> (\<And>a. on_ret P (f a)) \<Longrightarrow> on_ret P (case x of None \<Rightarrow> m | Some a \<Rightarrow> f a)"
  by (cases x) simp_all

lemma on_ret_admit [on_ret_intros]: "on_ret (few_accepts n) (admit a client sock flag message)"
  unfolding admit_def by (intro on_ret_intros; simp)

lemma malloc_el_run:
  "malloc_el e0 w = (Ret (fresh_addr w), w\<lparr>fresh_addr := fresh_addr w + 1, els := (els w)(fresh_addr w \<mapsto> e0)\<rparr>)"
  by (simp add: malloc_el_def malloc_def bindM_def)

lemma accept_round_accepts:
  assumes "accept_round e0 client flag message w = (Ret r, w')"
  shows "length (accepts w') < length (accepts w)"
proof -
  from assms obtain sock info rs where acc: "accepts w = Some (sock, info) # rs"
    by (auto simp: accept_round_def bindM_eq_Ret malloc_el_run os_accept_def
        split: list.splits option.splits)
  define w1 where "w1 = w\<lparr>fresh_addr := fresh_addr w + 1, els := (els w)(fresh_addr w \<mapsto> e0), accepts := rs\<rparr>"
  have "bindM (update_el (fresh_addr w) (\<lambda>e. e\<lparr>el_info := info\<rparr>)) (\<lambda>_.
      admit (fresh_addr w) client sock flag message) w1 = (Ret r, w')" (is "?m w1 = _")
    using assms acc by (simp add: accept_round_def bindM_def malloc_el_run os_accept_def w1_def)
  moreover have "on_ret (few_accepts (length rs)) ?m" by (intro on_ret_intros)
  moreover have "few_accepts (length rs) w1" by (simp add: few_accepts_def w1_def)
  ultimately have "few_accepts (length rs) w'" by (metis on_retD)
  then show ?thesis by (simp add: few_accepts_def acc)
qed

function accept_loop :: "el \<Rightarrow> addr \<Rightarrow> byte \<Rightarrow> byte list \<Rightarrow> unit srv" where
  "accept_loop e0 client message_flag message w =
     (case accept_round e0 client message_flag message w of
        (Ret (found, flag, msg), w') \<Rightarrow> if found then (Ret (), w') else accept_loop e0 client flag msg w'
      | (x, w') \<Rightarrow> (recast x, w'))"
  by pat_completeness auto

termination accept_loop
proof (relation "measure (\<lambda>(e0, client, flag, message, w). length (accepts w))")
qed (auto dest!: sym [of "(_, _)" "accept_round _ _ _ _ _"] accept_round_accepts)

declare accept_loop.simps [simp del]

definition accept_connection :: "el \<Rightarrow> addr \<Rightarrow> byte \<Rightarrow> byte list \<Rightarrow> unit srv" where
  "accept_connection e0 client message_flag message = accept_loop e0 client message_flag message"

section \<open>The loop of main\<close>

definition malloc_client :: "client_info \<Rightarrow> addr srv" where
  "malloc_client c0 = bindM malloc (\<lambda>a. bindM (modifyM (\<lambda>w. w\<lparr>clients := (clients w)(a \<mapsto> c0)\<rparr>)) (\<lambda>_. retM a))"

text \<open>One round, up to \<^verbatim>\<open>pthread_create\<close>: the client whose thread then runs.\<close>

definition srv_main_round :: "client_info \<Rightarrow> el \<Rightarrow> byte \<Rightarrow> byte list \<Rightarrow> fd \<Rightarrow> int \<Rightarrow> addr srv" where
  "srv_main_round c0 e0 message_flag message server_sock thr_no =
     bindM (malloc_client c0) (\<lambda>client.
     bindM (accept_connection e0 client message_flag message) (\<lambda>_.
     bindM (update_client client (\<lambda>c. c\<lparr>server_socket := server_sock\<rparr>)) (\<lambda>_.
     bindM (update_client client (\<lambda>c. c\<lparr>thr := thr_no\<rparr>)) (\<lambda>_.
     bindM (getM (\<lambda>w. link_client (Some client) (last_client w) (clients w))) (\<lambda>r.
     bindM (orUb r) (\<lambda>(lst, h).
     bindM (modifyM (\<lambda>w. w\<lparr>last_client := lst, clients := h\<rparr>)) (\<lambda>_. retM client)))))))"

section \<open>signal\_handler\<close>

definition srv_signal_handler :: "unit srv" where
  "srv_signal_handler =
     bindM (getM (\<lambda>w. close_clients (last_client w) (clients w) [])) (\<lambda>r.
     bindM (orUb r) (\<lambda>(fds, h).
     bindM (modifyM (\<lambda>w. w\<lparr>closed := closed w @ fds, clients := h\<rparr>)) (\<lambda>_.
     bindM (modifyM (\<lambda>w. w\<lparr>logfile := logfile w @ [CHR 0x0A] @ ''Interupted by user. Exiting.'' @ [CHR 0x0A]\<rparr>)) (\<lambda>_.
       failM (Exit EXIT_SUCCESS)))))"

section \<open>Pairing\<close>

text \<open>The waiting list of a server state, and the node of an accepted connection.\<close>

definition waiting :: "server \<Rightarrow> addr list \<Rightarrow> bool" where
  "waiting w xs \<longleftrightarrow> dl_holds (head w, els w) xs \<and> dl.unique (head w, els w) xs"

definition el_for :: "byte list \<Rightarrow> fd \<Rightarrow> el \<Rightarrow> el" where
  "el_for token sock e = e\<lparr>el_token := token, el_socket := sock\<rparr>"

lemma dl_holds_other:
  assumes "dl_holds (hp, h) xs" and "a \<notin> set xs"
  shows "dl_holds (hp, h(a \<mapsto> e)) xs"
proof -
  have "xs ! i \<noteq> a" if "i < length xs" for i using assms(2) that by auto
  then have "dl_list (h(a \<mapsto> e)) hp xs" using assms(1) by (simp add: dl_holds_def dl_list_def)
  then show ?thesis using assms by (auto simp: dl_holds_def tokens_ok_def)
qed

lemma unique_other:
  assumes "dl.unique (hp, h) xs" and "a \<notin> set xs"
  shows "dl.unique (hp, h(a \<mapsto> e)) xs"
proof -
  have eq: "map (dl_key (hp, h(a \<mapsto> e))) xs = map (dl_key (hp, h)) xs"
    using assms(2) by (auto simp: dl_key_def token_at_def)
  show ?thesis using assms(1) unfolding dl.unique_def eq .
qed

text \<open>A connection whose message has been read: the token is the string in the array.\<close>

definition presents ::
  "fd \<Rightarrow> byte list \<Rightarrow> byte \<Rightarrow> byte list \<Rightarrow> byte \<Rightarrow> byte list \<Rightarrow> server \<Rightarrow> server \<Rightarrow> bool" where
  "presents sock t flag message flag' msg w w1 \<longleftrightarrow>
     (\<exists>err. receive_message sock flag message w = (Ret (err, flag', msg), w1)) \<and>
     length msg = MESSAGE_BUFFERSIZE \<and> c_str msg = Some t"

definition with_token :: "server \<Rightarrow> addr \<Rightarrow> el \<Rightarrow> byte list \<Rightarrow> fd \<Rightarrow> ptr \<times> el_heap" where
  "with_token w a e msg sock = (head w, (els w)(a \<mapsto> el_for msg sock e))"

lemma admit_start:
  assumes wait: "waiting w xs" and node: "els w a = Some e" "a \<notin> set xs"
    and pres: "presents sock t flag message flag' msg w w1"
  shows "dl_holds (with_token w a e msg sock) xs" and "dl.unique (with_token w a e msg sock) xs"
    and "dl_fresh (with_token w a e msg sock) a" and "dl_key (with_token w a e msg sock) a = t"
    and "dl_search (head w) (el_for msg sock e) (snd (with_token w a e msg sock)) =
      dl_find t (with_token w a e msg sock)"
proof -
  from pres have msg: "c_str msg = Some t" by (simp add: presents_def)
  show h: "dl_holds (with_token w a e msg sock) xs" and "dl.unique (with_token w a e msg sock) xs"
    using wait node(2) by (simp_all add: with_token_def waiting_def dl_holds_other unique_other)
  show "dl_fresh (with_token w a e msg sock) a" and "dl_key (with_token w a e msg sock) a = t"
    using msg by (simp_all add: with_token_def dl_fresh_def dl_key_def token_at_def el_for_def)
  show "dl_search (head w) (el_for msg sock e) (snd (with_token w a e msg sock)) =
      dl_find t (with_token w a e msg sock)"
    using dl_search_find [OF h, of "el_for msg sock e" t] msg by (simp add: el_for_def with_token_def)
qed

lemma presents_frame:
  assumes "presents sock t flag message flag' msg w w1"
  shows "els w1 = els w" "head w1 = head w" "clients w1 = clients w" "accepts w1 = accepts w"
    "last_client w1 = last_client w" "fresh_addr w1 = fresh_addr w"
  using assms by (auto simp: presents_def dest!: receive_message_frame)

lemma presents_read:
  "presents sock t flag message flag' msg w w1 \<Longrightarrow> buf_read msg 0 MESSAGE_BUFFERSIZE = Some msg"
  by (auto simp: presents_def buf_read_def)

text \<open>No one waits under the token: the connection does from now on.\<close>

lemma admit_waits:
  assumes wait: "waiting w xs" and node: "els w a = Some e" "a \<notin> set xs"
    and pres: "presents sock t flag message flag' msg w w1"
    and none: "t \<notin> token_at (els w) ` set xs"
  shows "\<exists>hp h. admit a client sock flag message w = (Ret (False, flag', msg), w1\<lparr>head := hp, els := h\<rparr>) \<and>
    waiting (w1\<lparr>head := hp, els := h\<rparr>) (xs @ [a]) \<and> same_data ((els w)(a \<mapsto> el_for msg sock e)) h"
proof -
  let ?s = "with_token w a e msg sock"
  note st = admit_start [OF wait node pres]
  note fr = presents_frame [OF pres]
  have "dl_key ?s b = token_at (els w) b" if "b \<in> set xs" for b
    using node(2) that by (auto simp: with_token_def dl_key_def token_at_def)
  then have "find (\<lambda>b. dl_key ?s b = t) xs = None" using none by (auto simp: find_None_iff)
  then have find: "dl_find t ?s = Some None" using dl_find_spec [OF st(1)] by simp
  obtain s' where s': "dl_append (fst ?s) (Some a) (snd ?s) = Some s'" "dl_holds s' (xs @ [a])"
      "dl_key s' = dl_key ?s" "dl.unique s' (xs @ [a])"
    using dl.append_unique [OF st(1-3)] find st(4) by auto
  obtain hp h where hh: "s' = (hp, h)" by fastforce
  let ?e = "e\<lparr>el_token := msg, el_socket := sock\<rparr>"
  have search: "dl_search (head w) ?e ((els w)(a \<mapsto> ?e)) = Some None"
    and app: "dl_append (head w) (Some a) ((els w)(a \<mapsto> ?e)) = Some (hp, h)"
    using st(5) find s'(1) by (simp_all add: with_token_def el_for_def hh)
  have data: "same_data ((els w)(a \<mapsto> el_for msg sock e)) h"
    using dl_append_same_data [OF app] by (simp add: el_for_def)
  from pres obtain err where "receive_message sock flag message w = (Ret (err, flag', msg), w1)"
      "length msg = MESSAGE_BUFFERSIZE" by (auto simp: presents_def)
  then have "admit a client sock flag message w = (Ret (False, flag', msg), w1\<lparr>head := hp, els := h\<rparr>)"
    using fr node(1) search app presents_read [OF pres]
    by (simp add: admit_def bindM_def update_el_def el_at_def)
  then show ?thesis
    using s'(2,4) data hh by (intro exI [of _ hp] exI [of _ h]) (simp add: waiting_def)
qed

text \<open>Some connection does: it becomes the command socket and the new one the data socket.\<close>

lemma admit_pairs:
  assumes wait: "waiting w xs" and node: "els w a = Some e" "a \<notin> set xs"
    and pres: "presents sock t flag message flag' msg w w1"
    and b: "b \<in> set xs" "token_at (els w) b = t" "els w b = Some eb" and c: "clients w client = Some c"
  shows "\<exists>hp h. admit a client sock flag message w = (Ret (True, flag', msg), w1\<lparr>head := hp, els := h,
      clients := (clients w)(client \<mapsto> c\<lparr>command_socket := el_socket eb, data_socket := sock,
        command_info := el_info eb, data_info := el_info e\<rparr>)\<rparr>) \<and>
    waiting (w1\<lparr>head := hp, els := h\<rparr>) (remove1 b xs) \<and> same_data ((els w)(a \<mapsto> el_for msg sock e)) h"
proof -
  let ?s = "with_token w a e msg sock"
  note st = admit_start [OF wait node pres]
  note fr = presents_frame [OF pres]
  have ab: "b \<noteq> a" using b(1) node(2) by auto
  have key: "dl_key ?s x = token_at (els w) x" if "x \<in> set xs" for x
    using node(2) that by (auto simp: with_token_def dl_key_def token_at_def)
  have "inj_on (dl_key ?s) (set xs)" using st(2) by (simp add: dl.unique_def distinct_map)
  then have only: "x = b" if "x \<in> set xs" "dl_key ?s x = t" for x
    using that b key by (metis inj_onD)
  have "find (\<lambda>x. dl_key ?s x = t) xs \<noteq> None" using b key by (auto simp: find_None_iff)
  then obtain x where x: "find (\<lambda>x. dl_key ?s x = t) xs = Some x" by blast
  then have "x = b" using only by (auto simp: find_Some_iff)
  then have find: "dl_find t ?s = Some (Some b)" using dl_find_spec [OF st(1)] x by simp
  obtain s' where s': "dl_delete (fst ?s) (Some b) (snd ?s) = Some s'" "dl_holds s' (remove1 b xs)"
      "dl_key s' = dl_key ?s" "dl.unique s' (remove1 b xs)" "dl_find t s' = Some None"
    using dl.delete_unique [OF st(1,2) find] by blast
  obtain hp h where hh: "s' = (hp, h)" by fastforce
  let ?e = "e\<lparr>el_token := msg, el_socket := sock\<rparr>"
  have search: "dl_search (head w) ?e ((els w)(a \<mapsto> ?e)) = Some (Some b)"
    and del: "dl_delete (head w) (Some b) ((els w)(a \<mapsto> ?e)) = Some (hp, h)"
    using st(5) find s'(1) by (simp_all add: with_token_def el_for_def hh)
  from pres obtain err where "receive_message sock flag message w = (Ret (err, flag', msg), w1)"
      "length msg = MESSAGE_BUFFERSIZE" by (auto simp: presents_def)
  then have "admit a client sock flag message w = (Ret (True, flag', msg), w1\<lparr>head := hp, els := h,
      clients := (clients w)(client \<mapsto> c\<lparr>command_socket := el_socket eb, data_socket := sock,
        command_info := el_info eb, data_info := el_info e\<rparr>)\<rparr>)"
    using fr node(1) search del b(3) c ab presents_read [OF pres]
    by (simp add: admit_def bindM_def update_el_def el_at_def update_client_def)
  moreover have "same_data ((els w)(a \<mapsto> el_for msg sock e)) h"
    using dl_delete_same_data [OF del] by (simp add: el_for_def)
  ultimately show ?thesis using s'(2,4) hh
    by (intro exI [of _ hp] exI [of _ h]) (simp add: waiting_def)
qed

text \<open>The abstract view: the connections that wait, as (token, socket, address), oldest first.  A
  connection that arrives takes away the one waiting under its token, or waits itself.\<close>

type_synonym half = "byte list \<times> fd \<times> sockaddr"

definition half_of :: "el_heap \<Rightarrow> addr \<Rightarrow> half" where
  "half_of h a = (token_at h a, el_socket (the (h a)), el_info (the (h a)))"

definition halves :: "server \<Rightarrow> addr list \<Rightarrow> half list" where
  "halves w xs = map (half_of (els w)) xs"

definition arrive :: "half \<Rightarrow> half list \<Rightarrow> half option \<times> half list" where
  "arrive new hs =
     (case find (\<lambda>old. fst old = fst new) hs of
        None \<Rightarrow> (None, hs @ [new])
      | Some old \<Rightarrow> (Some old, remove1 old hs))"

lemma same_data_half:
  assumes "same_data h h'" and "h a \<noteq> None"
  shows "half_of h' a = half_of h a"
proof -
  from assms obtain e e' where "h a = Some e" "h' a = Some e'" "el_data e' = el_data e"
    by (auto simp: same_data_def) (metis map_option_eq_Some)
  then show ?thesis using same_data_tokens(1) [OF assms(1)] by (simp add: half_of_def el_data_def)
qed

lemma find_map_key:
  "find (\<lambda>x. fst x = t) (map f xs) = map_option f (find (\<lambda>a. fst (f a) = t) xs)"
  by (induction xs) auto

lemma map_remove1_inj: "inj_on f (set (b # xs)) \<Longrightarrow> map f (remove1 b xs) = remove1 (f b) (map f xs)"
  by (induction xs) (auto simp: inj_on_def)

lemma waiting_node: "waiting w xs \<Longrightarrow> b \<in> set xs \<Longrightarrow> \<exists>e. els w b = Some e"
  using dl_list_allocated [of "els w" "head w" xs b] by (auto simp: waiting_def dl_holds_def)

lemma waiting_halves:
  assumes "waiting w xs" and "same_data ((els w)(a \<mapsto> e)) h" and "a \<notin> set xs"
  shows "map (half_of h) xs = halves w xs" and "inj_on (half_of (els w)) (set xs)"
proof -
  show "map (half_of h) xs = halves w xs"
    unfolding halves_def
  proof (rule map_cong [OF refl])
    fix b assume b: "b \<in> set xs"
    then have "els w b \<noteq> None" using waiting_node [OF assms(1)] by auto
    moreover have "b \<noteq> a" using b assms(3) by auto
    ultimately show "half_of h b = half_of (els w) b"
      using same_data_half [OF assms(2), of b] by (simp add: half_of_def token_at_def)
  qed
  have "inj_on (dl_key (head w, els w)) (set xs)"
    using assms(1) by (simp add: waiting_def dl.unique_def distinct_map)
  then show "inj_on (half_of (els w)) (set xs)"
    by (auto simp: inj_on_def half_of_def dl_key_def)
qed

lemma admit_refines:
  assumes wait: "waiting w xs" and node: "els w a = Some e" "a \<notin> set xs"
    and pres: "presents sock t flag message flag' msg w w1" and c: "clients w client = Some c"
    and abs: "arrive (t, sock, el_info e) (halves w xs) = (found, hs)"
  shows "\<exists>w' xs'. admit a client sock flag message w = (Ret (found \<noteq> None, flag', msg), w') \<and>
    waiting w' xs' \<and> halves w' xs' = hs \<and> set xs' \<subseteq> insert a (set xs) \<and> fresh_addr w' = fresh_addr w \<and>
    accepts w' = accepts w \<and> rx w' = rx w1 \<and> clients w' = (case found of None \<Rightarrow> clients w
      | Some (_, s, i) \<Rightarrow> (clients w)(client \<mapsto> c\<lparr>command_socket := s, data_socket := sock,
          command_info := i, data_info := el_info e\<rparr>))"
proof -
  note fr = presents_frame [OF pres]
  have find: "find (\<lambda>old. fst old = t) (halves w xs) =
      map_option (half_of (els w)) (find (\<lambda>b. token_at (els w) b = t) xs)"
    by (simp add: halves_def find_map_key half_of_def)
  show ?thesis
  proof (cases "find (\<lambda>b. token_at (els w) b = t) xs")
    case None
    then have "t \<notin> token_at (els w) ` set xs" by (auto simp: find_None_iff)
    from admit_waits [OF wait node pres this, of client] obtain hp h where
      run: "admit a client sock flag message w = (Ret (False, flag', msg), w1\<lparr>head := hp, els := h\<rparr>)"
        "waiting (w1\<lparr>head := hp, els := h\<rparr>) (xs @ [a])" "same_data ((els w)(a \<mapsto> el_for msg sock e)) h"
      by blast
    have "half_of h a = (t, sock, el_info e)"
      using same_data_half [OF run(3), of a] pres
      by (simp add: half_of_def token_at_def el_for_def presents_def)
    then have "halves (w1\<lparr>head := hp, els := h\<rparr>) (xs @ [a]) = halves w xs @ [(t, sock, el_info e)]"
      using waiting_halves(1) [OF wait run(3) node(2)] by (simp add: halves_def)
    then show ?thesis using run abs None find fr
      by (intro exI [of _ "w1\<lparr>head := hp, els := h\<rparr>"] exI [of _ "xs @ [a]"]) (auto simp: arrive_def)
  next
    case (Some b)
    then have b: "b \<in> set xs" "token_at (els w) b = t" by (auto simp: find_Some_iff)
    then obtain eb where eb: "els w b = Some eb" using waiting_node [OF wait] by blast
    from admit_pairs [OF wait node pres b eb c] obtain hp h where
      run: "admit a client sock flag message w = (Ret (True, flag', msg), w1\<lparr>head := hp, els := h,
        clients := (clients w)(client \<mapsto> c\<lparr>command_socket := el_socket eb, data_socket := sock,
        command_info := el_info eb, data_info := el_info e\<rparr>)\<rparr>)" (is "_ = (_, ?w')")
        "waiting (w1\<lparr>head := hp, els := h\<rparr>) (remove1 b xs)" "same_data ((els w)(a \<mapsto> el_for msg sock e)) h"
      by blast
    note inj = waiting_halves [OF wait run(3) node(2)]
    have "inj_on (half_of h) (set (b # xs))"
      using inj b(1) by (auto simp: inj_on_def halves_def insert_absorb)
    then have "halves ?w' (remove1 b xs) = remove1 (half_of h b) (halves w xs)"
      unfolding inj(1) [symmetric] by (simp add: halves_def map_remove1_inj)
    moreover have "half_of h b = half_of (els w) b" using inj(1) b(1) by (simp add: halves_def)
    moreover have "waiting ?w' (remove1 b xs)" using run(2) by (simp add: waiting_def)
    moreover have "found = Some (t, el_socket eb, el_info eb)" "hs = remove1 (half_of (els w) b) (halves w xs)"
      using abs Some find b(2) eb by (simp_all add: arrive_def half_of_def)
    moreover have "set (remove1 b xs) \<subseteq> insert a (set xs)" by (auto dest: notin_set_remove1)
    ultimately show ?thesis using run(1) fr
      by (intro exI [of _ ?w'] exI [of _ "remove1 b xs"]) simp
  qed
qed

text \<open>What is still to come: for each connection in the listening socket's queue its token, socket
  and address, where its message is complete.\<close>

definition announces :: "server \<Rightarrow> (fd \<times> sockaddr) option \<Rightarrow> half \<Rightarrow> bool" where
  "announces w r n \<longleftrightarrow> (case n of (t, sock, info) \<Rightarrow> r = Some (sock, info) \<and> NUL \<notin> set t \<and>
     (\<exists>flag rest. dec_message (avail sock w) = Some ((flag, t @ [NUL]), rest)))"

definition arrivals :: "server \<Rightarrow> half list \<Rightarrow> bool" where
  "arrivals w ns \<longleftrightarrow> list_all2 (announces w) (accepts w) ns \<and> distinct (map (\<lambda>n. fst (snd n)) ns)"

fun pair_up :: "half list \<Rightarrow> half list \<Rightarrow> (half \<times> half \<times> half list \<times> half list) option" where
  "pair_up hs [] = None"
| "pair_up hs (n # ns) =
     (case arrive n hs of
        (Some old, hs') \<Rightarrow> Some (old, n, hs', ns)
      | (None, hs') \<Rightarrow> pair_up hs' ns)"

lemma presents_message:
  assumes "dec_message (avail sock w) = Some ((f, t @ [NUL]), rest)" and "NUL \<notin> set t"
    and "length message = MESSAGE_BUFFERSIZE"
  shows "presents sock t flag message f (patched message 0 (t @ [NUL])) w (consume sock (length t + 3) w)"
proof -
  from assms(1) have "\<exists>l tail. take (nat_of l - 2) tail = t @ [NUL]"
    by (auto simp: dec_message_def split: list.splits if_splits)
  then obtain l tail where "t @ [NUL] = take (nat_of l - 2) tail" by metis
  then have "length (t @ [NUL]) \<le> nat_of l - 2" by (metis length_take min.cobounded2)
  then have body: "length (t @ [NUL]) \<le> 253" using nat_of_less [of l] by linarith
  have "receive_message sock flag message w =
      (Ret (EXIT_SUCCESS, f, patched message 0 (t @ [NUL])), consume sock (2 + length (t @ [NUL])) w)"
    by (rule receive_message_spec [OF assms(1)]) (use body assms(3) in \<open>simp add: MESSAGE_BUFFERSIZE_def\<close>)
  moreover have "c_str (patched message 0 (t @ [NUL])) = Some t"
    using assms(2) by (simp add: patched_0)
  moreover have "length (patched message 0 (t @ [NUL])) = MESSAGE_BUFFERSIZE"
    using body assms(3) by (simp add: MESSAGE_BUFFERSIZE_def)
  ultimately show ?thesis by (auto simp: presents_def numeral_3_eq_3)
qed

text \<open>A state of the accept loop: the list, the connections to come, and new memory being new.\<close>

definition accepting :: "server \<Rightarrow> addr list \<Rightarrow> half list \<Rightarrow> bool" where
  "accepting w xs ns \<longleftrightarrow> waiting w xs \<and> arrivals w ns \<and> (\<forall>b \<in> set xs. b < fresh_addr w)"

lemma accept_round_refines:
  assumes acc: "accepting w xs ((t, sock, info) # ns)" and c: "clients w client = Some c"
    and len: "length message = MESSAGE_BUFFERSIZE"
    and abs: "arrive (t, sock, info) (halves w xs) = (found, hs)"
  shows "\<exists>w' xs' flag' msg. accept_round e0 client flag message w = (Ret (found \<noteq> None, flag', msg), w') \<and>
    length msg = MESSAGE_BUFFERSIZE \<and> accepting w' xs' ns \<and> halves w' xs' = hs \<and>
    clients w' = (case found of None \<Rightarrow> clients w
      | Some (_, s, i) \<Rightarrow> (clients w)(client \<mapsto> c\<lparr>command_socket := s, data_socket := sock,
          command_info := i, data_info := info\<rparr>))"
proof -
  let ?a = "fresh_addr w"
  let ?e = "e0\<lparr>el_info := info\<rparr>"
  from acc obtain rs f rest where rs: "accepts w = Some (sock, info) # rs" "list_all2 (announces w) rs ns"
    and t: "NUL \<notin> set t" "dec_message (avail sock w) = Some ((f, t @ [NUL]), rest)"
    by (auto simp: accepting_def arrivals_def announces_def list_all2_Cons2)
  have a: "?a \<notin> set xs" and ws: "waiting w xs" using acc by (auto simp: accepting_def)
  define w0 where "w0 = w\<lparr>fresh_addr := ?a + 1, accepts := rs, els := (els w)(?a \<mapsto> ?e)\<rparr>"
  have av: "avail s w0 = avail s w" for s by (simp add: w0_def avail_def)
  have wait: "waiting w0 xs" using ws a by (simp add: waiting_def w0_def dl_holds_other unique_other)
  have hv: "halves w0 xs = halves w xs"
    using a by (auto simp: halves_def w0_def half_of_def token_at_def)
  note pres = presents_message [of sock w0 f t rest message flag, unfolded av, OF t(2,1) len]
  obtain w' xs' where run: "admit ?a client sock flag message w0 =
      (Ret (found \<noteq> None, f, patched message 0 (t @ [NUL])), w')"
    and post: "waiting w' xs'" "halves w' xs' = hs" "set xs' \<subseteq> insert ?a (set xs)" "fresh_addr w' = fresh_addr w0"
      "accepts w' = accepts w0" "rx w' = rx (consume sock (length t + 3) w0)"
      "clients w' = (case found of None \<Rightarrow> clients w0
        | Some (_, s, i) \<Rightarrow> (clients w0)(client \<mapsto> c\<lparr>command_socket := s, data_socket := sock,
          command_info := i, data_info := el_info ?e\<rparr>))"
    using admit_refines [OF wait _ a pres, of ?e client c found hs] abs c hv by (auto simp: w0_def)
  have round: "accept_round e0 client flag message w = admit ?a client sock flag message w0"
    using rs(1) by (simp add: accept_round_def bindM_def malloc_el_run os_accept_def update_el_def el_at_def w0_def)
  have "list_all2 (announces w') rs ns"
  proof -
    have "announces w' r n" if "announces w r n" "n \<in> set ns" for r n
    proof -
      have "fst (snd n) \<noteq> sock" using acc that(2) by (auto simp: accepting_def arrivals_def)
      then have "avail (fst (snd n)) w' = avail (fst (snd n)) w" using post(6) by (simp add: avail_def w0_def)
      with that(1) show ?thesis by (cases n) (simp add: announces_def)
    qed
    with rs(2) show ?thesis by (auto simp: list_all2_conv_all_nth)
  qed
  moreover have "length (patched message 0 (t @ [NUL])) = MESSAGE_BUFFERSIZE"
    using pres by (simp add: presents_def)
  moreover have "\<forall>b \<in> set xs'. b < fresh_addr w'"
  proof
    fix b assume "b \<in> set xs'"
    then have "b = ?a \<or> b < ?a" using post(3) acc unfolding accepting_def by blast
    moreover have "fresh_addr w' = Suc ?a" using post(4) by (simp add: w0_def)
    ultimately show "b < fresh_addr w'" by linarith
  qed
  moreover have "accepts w' = rs" using post(5) by (simp add: w0_def)
  moreover have "distinct (map (\<lambda>n. fst (snd n)) ns)" using acc by (simp add: accepting_def arrivals_def)
  ultimately have "accepting w' xs' ns" using post(1) by (simp add: accepting_def arrivals_def)
  moreover have "clients w' = (case found of None \<Rightarrow> clients w
      | Some (_, s, i) \<Rightarrow> (clients w)(client \<mapsto> c\<lparr>command_socket := s, data_socket := sock,
          command_info := i, data_info := info\<rparr>))"
    using post(7) by (simp add: w0_def split: option.split)
  ultimately show ?thesis
    using run post(2) round \<open>length (patched message 0 (t @ [NUL])) = MESSAGE_BUFFERSIZE\<close>
    by (intro exI conjI) (simp only:, assumption+)
qed

text \<open>The whole function returns the first pair that completes, in order of arrival, and waits when
  none does.\<close>

lemma accept_connection_pairs:
  assumes "accepting w xs ns" and "clients w client = Some c" and "length message = MESSAGE_BUFFERSIZE"
  shows "case pair_up (halves w xs) ns of
      Some ((_, s, i), (_, s', i'), hs, ns') \<Rightarrow>
        \<exists>w' xs'. accept_connection e0 client flag message w = (Ret (), w') \<and> accepting w' xs' ns' \<and>
          halves w' xs' = hs \<and> clients w' = (clients w)(client \<mapsto> c\<lparr>command_socket := s,
            data_socket := s', command_info := i, data_info := i'\<rparr>)
    | None \<Rightarrow> fst (accept_connection e0 client flag message w) = Block"
  using assms
proof (induction ns arbitrary: w xs flag message)
  case Nil
  then have "accepts w = []" by (simp add: accepting_def arrivals_def)
  then show ?case
    by (simp add: accept_connection_def accept_loop.simps [of e0] accept_round_def bindM_def malloc_el_run os_accept_def)
next
  case (Cons n ns)
  obtain t sock info where n: "n = (t, sock, info)" by (metis prod.collapse)
  obtain found hs where abs: "arrive n (halves w xs) = (found, hs)" by fastforce
  from accept_round_refines [OF _ Cons.prems(2,3), of xs t sock info ns found hs] Cons.prems(1) abs n
  obtain w' xs' flag' msg where run: "accept_round e0 client flag message w = (Ret (found \<noteq> None, flag', msg), w')"
    and post: "length msg = MESSAGE_BUFFERSIZE" "accepting w' xs' ns" "halves w' xs' = hs"
      "clients w' = (case found of None \<Rightarrow> clients w
      | Some (_, s, i) \<Rightarrow> (clients w)(client \<mapsto> c\<lparr>command_socket := s, data_socket := sock,
          command_info := i, data_info := info\<rparr>))"
    by blast
  show ?case
  proof (cases found)
    case None
    have step: "accept_connection e0 client flag message w = accept_connection e0 client flag' msg w'"
      using run None by (simp add: accept_connection_def accept_loop.simps [of e0 client flag message])
    have same: "clients w' = clients w" and pu: "pair_up (halves w xs) (n # ns) = pair_up (halves w' xs') ns"
      using post(3,4) None abs by simp_all
    show ?thesis
      unfolding step pu
      using Cons.IH [OF post(2) _ post(1), of flag'] Cons.prems(2) unfolding same by simp
  next
    case (Some old)
    then have "accept_connection e0 client flag message w = (Ret (), w')"
      using run by (simp add: accept_connection_def accept_loop.simps [of e0 client flag message])
    then show ?thesis using post abs Some n by (auto split: prod.splits)
  qed
qed

section \<open>The clients\<close>

text \<open>The accept loop leaves the list of clients alone.\<close>

definition list_frame :: "ptr \<Rightarrow> nat \<Rightarrow> server \<Rightarrow> bool" where
  "list_frame l n w \<longleftrightarrow> last_client w = l \<and> n \<le> fresh_addr w"

lemma on_ret_frame_parts [on_ret_intros]:
  "on_ret (list_frame l n) (malloc_el e0)" "on_ret (list_frame l n) (update_el a f)"
  "on_ret (list_frame l n) (update_client b g)" "on_ret (list_frame l n) (receive_message t flag m)"
  "on_ret (list_frame l n) os_accept"
  by (auto simp: malloc_el_run update_el_def on_ret_def bindM_eq_Ret el_at_def orUb_def os_accept_def
      update_client_def list_frame_def dest!: receive_message_frame split: option.splits list.splits)

lemma on_ret_frame_rounds [on_ret_intros]:
  "on_ret (list_frame l n) (admit a client sock flag message)"
  "on_ret (list_frame l n) (accept_round e0 client flag message)"
proof -
  show admit: "on_ret (list_frame l n) (admit a client sock flag message)" for a client sock flag message
    unfolding admit_def by (intro on_ret_intros; simp add: list_frame_def)
  show "on_ret (list_frame l n) (accept_round e0 client flag message)"
    unfolding accept_round_def by (intro on_ret_intros admit)
qed

lemma accept_connection_frame:
  "accept_connection e0 client flag message w = (Ret (), w') \<Longrightarrow> list_frame l n w \<Longrightarrow> list_frame l n w'"
  unfolding accept_connection_def
proof (induction e0 client flag message w rule: accept_loop.induct)
  case (1 e0 client flag message w)
  from "1.prems"(1) obtain found f m w1 where run: "accept_round e0 client flag message w = (Ret (found, f, m), w1)"
    by (auto simp: accept_loop.simps [of e0 client flag message] split: prod.splits result.splits)
  then have "list_frame l n w1" using "1.prems"(2) on_ret_frame_rounds(2) by (metis on_retD)
  then show ?case
    using "1.IH" [OF run [symmetric] refl refl refl] "1.prems"(1) run
    by (auto simp: accept_loop.simps [of e0 client flag message] split: if_splits)
qed

lemma srv_main_round_spec:
  assumes acc: "accepting w xs ns" and cl: "client_list (clients w) (last_client w) ys" "\<forall>a \<in> set ys. a < fresh_addr w"
    and len: "length message = MESSAGE_BUFFERSIZE"
    and pair: "pair_up (halves w xs) ns = Some ((t, s, i), (t', s', i'), hs, ns')"
  shows "\<exists>w' xs'. srv_main_round c0 e0 flag message srv no w = (Ret (fresh_addr w), w') \<and>
    accepting w' xs' ns' \<and> halves w' xs' = hs \<and>
    client_list (clients w') (last_client w') (ys @ [fresh_addr w]) \<and>
    (\<forall>a \<in> set (ys @ [fresh_addr w]). a < fresh_addr w') \<and>
    (\<exists>c. clients w' (fresh_addr w) = Some c \<and> command_socket c = s \<and> data_socket c = s')"
proof -
  let ?a = "fresh_addr w"
  define w1 where "w1 = w\<lparr>fresh_addr := ?a + 1, clients := (clients w)(?a \<mapsto> c0)\<rparr>"
  have "avail b w1 = avail b w" for b by (simp add: w1_def avail_def)
  then have "announces w1 = announces w" by (auto simp: announces_def fun_eq_iff)
  then have acc1: "accepting w1 xs ns" and hv: "halves w1 xs = halves w xs"
    using acc by (auto simp: accepting_def arrivals_def waiting_def w1_def halves_def)
  obtain w2 xs' where run: "accept_connection e0 ?a flag message w1 = (Ret (), w2)"
    and post: "accepting w2 xs' ns'" "halves w2 xs' = hs"
      "clients w2 = (clients w1)(?a \<mapsto> c0\<lparr>command_socket := s, data_socket := s', command_info := i, data_info := i'\<rparr>)"
    using accept_connection_pairs [OF acc1 _ len, of ?a c0 e0 flag] pair hv by (auto simp: w1_def)
  have fr: "last_client w2 = last_client w" "?a < fresh_addr w2"
    using accept_connection_frame [OF run, of "last_client w" "?a + 1"] by (auto simp: list_frame_def w1_def)
  let ?c = "c0\<lparr>command_socket := s, data_socket := s', command_info := i, data_info := i', server_socket := srv, thr := no\<rparr>"
  let ?h = "(clients w)(?a \<mapsto> ?c)"
  have new: "?a \<notin> set ys" using cl(2) by auto
  have other: "ys ! j \<noteq> ?a" if "j < length ys" for j using new nth_mem [OF that] by metis
  have "client_list ?h (last_client w) ys" using cl(1) other by (simp add: client_list_def)
  from link_client_spec [OF this _ new, of ?c] obtain h'
    where link: "link_client (Some ?a) (last_client w) ?h = Some (Some ?a, h')" "client_list h' (Some ?a) (ys @ [?a])"
    by auto
  have keep: "\<exists>c. h' ?a = Some c \<and> command_socket c = s \<and> data_socket c = s'"
    using link(1) by (auto simp: link_client_def upd_client_def get_client_def split: bind_splits if_splits)
  let ?w' = "w2\<lparr>last_client := Some ?a, clients := h'\<rparr>"
  have "srv_main_round c0 e0 flag message srv no w = (Ret ?a, ?w')"
    using run post(3) fr link(1)
    by (simp add: srv_main_round_def malloc_client_def malloc_def bindM_def update_client_def w1_def)
  moreover have "accepting ?w' xs' ns'"
  proof -
    have "avail b ?w' = avail b w2" for b by (simp add: avail_def)
    then have "announces ?w' = announces w2" by (auto simp: announces_def fun_eq_iff)
    then show ?thesis using post(1) by (auto simp: accepting_def arrivals_def waiting_def)
  qed
  moreover have "halves ?w' xs' = hs" using post(2) by (simp add: halves_def)
  ultimately show ?thesis using link(2) keep fr(2) cl(2)
    by (intro exI [of _ ?w'] exI [of _ xs']) auto
qed

end
