(* ===== verification/Client_Steps.thy ===== *)
theory Client_Steps
  imports Client_List
begin

text \<open>
  The list of clients over time.  A state is the set of the clients whose threads run, the pointer
  \<open>last_client\<close> and the heap; a step is what the main thread or a client's thread does to the list
  in one piece: a client structure is allocated or written to without its links, a client joins
  (\<open>main\<close>), a client that is first or last leaves (\<open>dealloc\<close>).  In every state such steps reach,
  the list is well formed and holds exactly the running clients.
\<close>

type_synonym client_state = "addr set \<times> ptr \<times> client_heap"

inductive client_step :: "client_state \<Rightarrow> client_state \<Rightarrow> bool" where
  allocate: "a \<notin> run \<Longrightarrow> client_step (run, lst, h) (run, lst, h(a \<mapsto> c))"
| touch: "h a = Some c \<Longrightarrow> ci_next c' = ci_next c \<Longrightarrow> ci_before c' = ci_before c \<Longrightarrow>
    client_step (run, lst, h) (run, lst, h(a \<mapsto> c'))"
| join: "a \<notin> run \<Longrightarrow> h a = Some c \<Longrightarrow> link_client (Some a) lst h = Some (lst', h') \<Longrightarrow>
    client_step (run, lst, h) (insert a run, lst', h')"
| leave: "a \<in> run \<Longrightarrow> h a = Some c \<Longrightarrow> ci_next c = None \<or> ci_before c = None \<Longrightarrow>
    unlink_client (Some a) lst h = Some (lst', h') \<Longrightarrow> client_step (run, lst, h) (run - {a}, lst', h')"

inductive_cases client_stepE: "client_step (run, lst, h) s'"

definition well_linked :: "client_state \<Rightarrow> bool" where
  "well_linked s \<longleftrightarrow> (case s of (run, lst, h) \<Rightarrow> \<exists>xs. client_list h lst xs \<and> set xs = run)"

definition reachable_clients :: "client_state \<Rightarrow> bool" where
  "reachable_clients s \<longleftrightarrow> (\<exists>h0. client_step\<^sup>*\<^sup>* ({}, None, h0) s)"

lemma client_list_fresh:
  assumes "client_list h lst xs" and "a \<notin> set xs"
  shows "client_list (h(a \<mapsto> c)) lst xs"
proof -
  have "xs ! i \<noteq> a" if "i < length xs" for i using assms(2) nth_mem [OF that] by metis
  then show ?thesis using assms(1) by (simp add: client_list_def)
qed

text \<open>A client without a successor is the last of the list, one without a predecessor the first.\<close>

lemma unlink_end:
  assumes l: "client_list h lst xs" and a: "a \<in> set xs" "h a = Some c" "ci_next c = None \<or> ci_before c = None"
    and run: "unlink_client (Some a) lst h = Some (lst', h')"
  shows "client_list h' lst' (remove1 a xs)"
proof -
  obtain k where k: "k < length xs" "xs ! k = a" using a(1) by (auto simp: in_set_conv_nth)
  have d: "distinct xs" using l by (simp add: client_list_def)
  obtain c' where "h (xs ! k) = Some c'" "ci_before c' = (if k = 0 then None else Some (xs ! (k - 1)))"
    "ci_next c' = (if Suc k < length xs then Some (xs ! Suc k) else None)"
    by (rule client_list_node [OF l k(1)])
  with a k have ends: "k = 0 \<or> Suc k = length xs" by (auto split: if_splits)
  have "client_list h' lst' (without k xs)"
  proof (cases "length xs = 1")
    case True
    with k have "xs = [a]" "k = 0" by (auto simp: length_Suc_conv)
    with unlink_only l run show ?thesis by (auto simp: client_list_def without_def)
  next
    case False
    with k have n: "1 < length xs" by linarith
    from ends show ?thesis
    proof
      assume "k = 0"
      with unlink_first [OF l n] k run show ?thesis by auto
    next
      assume "Suc k = length xs"
      with unlink_last [OF l n this] k run show ?thesis by auto
    qed
  qed
  then show ?thesis using without_remove1 [OF d k(1)] k(2) by simp
qed

lemma well_linked_step:
  assumes "client_step s s'" and "well_linked s"
  shows "well_linked s'"
proof -
  obtain run lst h where s: "s = (run, lst, h)" by (metis prod.collapse)
  from assms(2) s obtain xs where xs: "client_list h lst xs" "set xs = run" by (auto simp: well_linked_def)
  from assms(1) show ?thesis unfolding s
  proof (cases rule: client_stepE [consumes 1, case_names allocate touch join leave])
    case (allocate a c)
    with xs client_list_fresh [of h lst xs a c] show ?thesis by (auto simp: well_linked_def)
  next
    case (touch a c c')
    with xs client_list_upd [of h lst xs a c c'] show ?thesis by (auto simp: well_linked_def)
  next
    case (join a c lst' h')
    with xs have "a \<notin> set xs" by simp
    from link_client_spec [OF xs(1) join(3) this] join xs show ?thesis
      by (auto simp: well_linked_def intro!: exI [of _ "xs @ [a]"])
  next
    case (leave a c lst' h')
    have "set (remove1 a xs) = run - {a}" using xs by (simp add: client_list_def)
    moreover have "client_list h' lst' (remove1 a xs)"
      by (rule unlink_end [OF xs(1)]) (use leave xs(2) in simp_all)
    ultimately show ?thesis using leave(1) by (auto simp: well_linked_def)
  qed
qed

lemma reachable_well_linked: "reachable_clients s \<Longrightarrow> well_linked s"
proof -
  assume "reachable_clients s"
  then obtain h0 where "client_step\<^sup>*\<^sup>* ({}, None, h0) s" by (auto simp: reachable_clients_def)
  then show ?thesis
  proof (induction rule: rtranclp_induct)
    case base
    then show ?case by (auto simp: well_linked_def client_list_def)
  next
    case (step s t)
    then show ?case by (blast intro: well_linked_step)
  qed
qed

end
