(* ===== verification/Server_Example.thy ===== *)
theory Server_Example
  imports Server_Confined Server_Accept Client_Steps
begin

text \<open>
  A concrete server to run the properties on: one client at address 7 with the command socket 3 and
  the data socket 4, the chroot directory \<^verbatim>\<open>/srv\<close> and the password \<^verbatim>\<open>pw\<close>.
\<close>

definition client0 :: client_info where
  "client0 = \<lparr>command_info = ''peer'', data_info = ''peer'', ip_address = [], command_socket = 3,
     data_socket = 4, server_socket = 9, file_path = replicate PATH_MAX NUL, thr = 0, ci_next = None, ci_before = None\<rparr>"

definition server0 :: server where
  "server0 = \<lparr>rx = \<lambda>_. [], tx = \<lambda>_. [], snd_evs = [], sel_evs = [], closed = [], errno = 0, sigpipe_ignored = False,
     clients = [7 \<mapsto> client0], last_client = Some 7, els = \<lambda>_. None, head = None, fresh_addr = 8,
     password = cs ''pw'', dest_chroot = cs ''/srv'', is_dest_chroot = True, accepts = [], fs = \<lambda>_. None,
     fopen_evs = [], mkdir_evs = [], fwrite_evs = [], logfile = [], now = ''now'',
     errtext = \<lambda>_. ''no space'', ntoa = \<lambda>_. ''10.0.0.2''\<rparr>"

text \<open>With events on the two sockets.\<close>

definition server_rx :: "rx_ev list \<Rightarrow> rx_ev list \<Rightarrow> server" where
  "server_rx cq dq = server0\<lparr>rx := (\<lambda>_. [])(3 := cq, 4 := dq)\<rparr>"

definition locals0 :: thr_locals where
  "locals0 = \<lparr>l_attrs = \<lparr>structure_len = 0, command = NUL, path_len = 0, data_len = 0, discard = 0\<rparr>,
     l_header = replicate MAX_HEADER_LEN NUL, l_data = replicate BUFFERSIZE NUL\<rparr>"

definition message0 :: "byte list" where
  "message0 = replicate MESSAGE_BUFFERSIZE NUL"

lemma client0_simps [simp]:
  "command_info client0 = ''peer''" "command_socket client0 = 3" "data_socket client0 = 4" "ip_address client0 = []"
  "length (file_path client0) = PATH_MAX" "ci_next client0 = None" "ci_before client0 = None"
  "server_socket client0 = 9"
  by (simp_all add: client0_def)

lemma server_rx_simps [simp]:
  "avail 3 (server_rx cq dq) = stream cq" "avail 4 (server_rx cq dq) = stream dq"
  "rx (server_rx cq dq) 3 = cq" "rx (server_rx cq dq) 4 = dq" "tx (server_rx cq dq) = (\<lambda>_. [])"
  "snd_evs (server_rx cq dq) = []" "closed (server_rx cq dq) = []" "clients (server_rx cq dq) = [7 \<mapsto> client0]"
  "last_client (server_rx cq dq) = Some 7" "password (server_rx cq dq) = cs ''pw''"
  "fs (server_rx cq dq) = (\<lambda>_. None)" "errtext (server_rx cq dq) = (\<lambda>_. ''no space'')"
  "ntoa (server_rx cq dq) = (\<lambda>_. ''10.0.0.2'')" "els (server_rx cq dq) = (\<lambda>_. None)" "head (server_rx cq dq) = None"
  "fresh_addr (server_rx cq dq) = 8"
  by (simp_all add: server_rx_def server0_def avail_def)

lemma server_rx_ready [simp]:
  "connected 7 3 4 (server_rx cq dq)" "permissive (server_rx cq dq)" "locals_ok locals0"
  "prefix_of (server_rx cq dq) = Some ''/srv/''" "client_list [7 \<mapsto> client0] (Some 7) [7]"
  "length message0 = MESSAGE_BUFFERSIZE"
proof -
  show "prefix_of (server_rx cq dq) = Some ''/srv/''"
    by (simp add: prefix_of_def server_rx_def server0_def)
  show "connected 7 3 4 (server_rx cq dq)" by (simp add: connected_def)
  show "permissive (server_rx cq dq)" by (simp add: permissive_def server_rx_def server0_def)
  show "client_list [7 \<mapsto> client0] (Some 7) [7]" by (simp add: client_list_def)
qed (simp_all add: locals_ok_def locals0_def message0_def)

text \<open>A daemon that presents a password and then transfers a file and a directory.\<close>

definition jobs0 :: "job list" where
  "jobs0 = [(''a'', File ''hi''), (''d'', Dir)]"

definition session0 :: "byte list \<Rightarrow> server" where
  "session0 t = server_rx [Seg (enc_message (as_char AUTH_REQUEST, t @ [NUL])), Seg (session_cmd jobs0), Eof]
     [Seg (session_data jobs0)]"

lemma jobs0_ok [simp]: "list_all (job_ok ''/srv/'') jobs0"
  by (simp add: jobs0_def job_ok_def announced_def valid_small_transfer PATH_MAX_def)

lemma session0_start [simp]:
  assumes "NUL \<notin> set t" and "length t \<le> 252"
  shows "at_start 7 3 4 t ''pw'' (session_cmd jobs0) (session0 t)"
proof -
  have "dec_message (enc_message (as_char AUTH_REQUEST, t @ [NUL]) @ session_cmd jobs0) =
      Some ((as_char AUTH_REQUEST, t @ [NUL]), session_cmd jobs0)"
    by (rule messages.dec_enc) (use assms(2) in \<open>simp add: valid_message_def\<close>)
  then show ?thesis using assms(1) by (auto simp: at_start_def session0_def MESSAGE_BUFFERSIZE_def intro!: exI [of _ "[7]"])
qed

lemma stored_jobs0: "stored ''/srv/'' jobs0 f = f(''/srv/a'' \<mapsto> File ''hi'', ''/srv/d'' \<mapsto> Dir)"
  by (simp add: jobs0_def)

end
