(* ===== verification/Server_Properties.thy ===== *)
theory Server_Properties
  imports Server_Example
begin

text \<open>
  What \<^verbatim>\<open>src/server.c\<close> does with the daemons that connect to it, each property with a run that
  meets its hypotheses on the server of \<open>Server_Example\<close>.
\<close>

section \<open>A thread\<close>

text \<open>Whatever a peer sends and whatever the operating system answers, a client thread leaves
  every path alone that does not start with the chroot directory and a slash, or that contains
  \<^verbatim>\<open>../\<close>.\<close>

theorem writes_stay_inside:
  assumes "prefix_of w = Some pre" and "NUL \<notin> set pre" and "length pre < PATH_MAX"
    and "\<forall>a c. clients w a = Some c \<longrightarrow> length (file_path c) = PATH_MAX"
  shows "fs (snd (thr_func client message flag l w)) p = fs w p \<or> ((\<exists>t. p = pre @ t) \<and> \<not> strstr p ''../'')"
proof -
  have "guard pre (fs w) w" using assms(1,4) by (simp add: guard_def)
  from thr_func_guard [OF this assms(2,3), of client message flag l] show ?thesis
    by (auto simp: guard_def inside_def)
qed

theorem writes_stay_inside_witness:
  "fs (snd (thr_func 7 message0 NUL locals0 (server_rx [Seg ''anything''] [Seg ''at all'', RErr 5]))) ''/etc/passwd'' = None"
  using writes_stay_inside [of "server_rx [Seg ''anything''] [Seg ''at all'', RErr 5]" "''/srv/''" 7 message0 NUL
      locals0 "''/etc/passwd''"]
  by (simp add: PATH_MAX_def [symmetric]) (simp add: PATH_MAX_def)

text \<open>C6: a daemon that presents the password gets every file and directory it then sends stored
  under the chroot directory with exactly the bytes sent, in order, and one \<open>ACK_OK\<close> for each; when
  it closes the connection the thread ends, with its sockets closed and its client freed.\<close>

theorem thread_serves_session:
  assumes "at_start client cm dt pw pw (session_cmd ts) w" and "locals_ok l" and "permissive w"
    and "prefix_of w = Some pre" and "NUL \<notin> set pre" and "list_all (job_ok pre) ts"
    and "avail dt w = session_data ts @ rest" and "closes (rx w cm)" and "length message = MESSAGE_BUFFERSIZE"
  shows "\<exists>w'. thr_func client message f0 l w = (Exit 0, w') \<and> fs w' = stored pre ts (fs w) \<and>
    tx w' = (tx w)(cm := tx w cm @ concat (replicate (Suc (length ts)) (enc_message (as_char ACK_OK, [])))) \<and>
    closed w' = closed w @ [cm, dt] \<and> clients w' client = None"
proof -
  from assms(1) obtain c where c: "clients w client = Some c" by (auto simp: at_start_def connected_def)
  let ?v = "admitted client c cm pw ACK_OK w"
  have run: "thr_func client message f0 l w = thr_loop client l ?v"
    using thr_func_start [OF assms(1) c assms(9)] by simp
  have "in_session client cm dt pre ts [] rest l ?v"
    using admitted_session [of client cm dt pw ts "[]" w c l pre rest] assms c by simp
  moreover have "closes (rx ?v cm)" using assms(8) by simp
  ultimately obtain w' where "thr_loop client l ?v = (Exit 0, w')"
    "fs w' = stored pre ts (fs ?v)" "closed w' = closed ?v @ [cm, dt]" "clients w' client = None"
    "tx w' = (tx ?v)(cm := tx ?v cm @ concat (replicate (length ts) (enc_message (as_char ACK_OK, []))))"
    using session_served by blast
  then show ?thesis unfolding run by (simp add: fun_eq_iff)
qed

theorem thread_serves_session_witness:
  "\<exists>w'. thr_func 7 message0 NUL locals0 (session0 ''pw'') = (Exit 0, w') \<and>
    fs w' = [''/srv/a'' \<mapsto> File ''hi'', ''/srv/d'' \<mapsto> Dir] \<and>
    tx w' = (\<lambda>_. [])(3 := concat (replicate 3 (enc_message (as_char ACK_OK, [])))) \<and>
    closed w' = [3, 4] \<and> clients w' 7 = None"
proof -
  have "\<exists>w'. thr_func 7 message0 NUL locals0 (session0 ''pw'') = (Exit 0, w') \<and>
    fs w' = stored ''/srv/'' jobs0 (fs (session0 ''pw'')) \<and>
    tx w' = (tx (session0 ''pw''))(3 := tx (session0 ''pw'') 3 @ concat (replicate (Suc (length jobs0)) (enc_message (as_char ACK_OK, [])))) \<and>
    closed w' = closed (session0 ''pw'') @ [3, 4] \<and> clients w' 7 = None"
    by (rule thread_serves_session [where pw = "''pw''" and rest = "[]"]) (simp_all add: session0_def [symmetric], simp_all add: session0_def)
  then show ?thesis by (simp add: stored_jobs0 session0_def jobs0_def numeral_3_eq_3)
qed

text \<open>C10: a daemon with any other password is told \<open>BAD_AUTH\<close> and is gone: nothing is stored, its
  sockets are closed and its client is freed.\<close>

theorem wrong_password_shut_out:
  assumes "at_start client cm dt t pw crest w" and "t \<noteq> pw" and "length message = MESSAGE_BUFFERSIZE"
  shows "\<exists>w'. thr_func client message f0 l w = (Ret (), w') \<and> fs w' = fs w \<and>
    tx w' = (tx w)(cm := tx w cm @ enc_message (as_char BAD_AUTH, [])) \<and>
    closed w' = closed w @ [cm, dt] \<and> clients w' client = None"
proof -
  from assms(1) obtain c xs where c: "clients w client = Some c" "command_socket c = cm" "data_socket c = dt"
    and xs: "client_list (clients w) (last_client w) xs" "client \<in> set xs" by (auto simp: at_start_def connected_def)
  let ?v = "admitted client c cm t BAD_AUTH w"
  let ?u = "logged (ntoa w (command_info c)) ''BAD AUTH'' None True ?v"
  obtain w' where "dealloc client ?u = (Ret (), w')" "gone client cm dt ?u w'"
    using dealloc_gone [of ?u client "c\<lparr>ip_address := ntoa w (command_info c)\<rparr>" xs]
      client_list_upd [OF xs(1) c(1), of "c\<lparr>ip_address := ntoa w (command_info c)\<rparr>"] xs(2) c by auto
  then show ?thesis
    using thr_func_start [OF assms(1) c(1) assms(3), of f0 l] assms(2)
    by (simp add: bindM_def print_log_message_run gone_def)
qed

theorem wrong_password_shut_out_witness:
  "\<exists>w'. thr_func 7 message0 NUL locals0 (session0 ''guess'') = (Ret (), w') \<and> fs w' = Map.empty \<and>
    closed w' = [3, 4] \<and> clients w' 7 = None"
  using wrong_password_shut_out [of 7 3 4 "''guess''" "''pw''" "session_cmd jobs0" "session0 ''guess''" message0 NUL locals0]
  by (simp del: fun_upd_apply) (auto simp: session0_def)

text \<open>C7: \<open>authenticate\<close>, which compares as many characters as the password has and then the two
  lengths, is a comparison of the two strings: it answers \<open>ACK_OK\<close> to the password and
  \<open>BAD_AUTH\<close> to everything else, proper prefixes and extensions of the password included, and
  returns accordingly whatever becomes of the answer.\<close>

theorem authenticate_compares_strings:
  assumes "clients w client = Some c"
    and "dec_message (avail (command_socket c) w) = Some ((flag, t @ [NUL]), rest)" and "NUL \<notin> set t"
    and "c_str (password w) = Some pw" and "length pw < MESSAGE_BUFFERSIZE" and "length message = MESSAGE_BUFFERSIZE"
  shows "authenticate client message f0 w =
    bindM (send_message (command_socket c) (as_char (if t = pw then ACK_OK else BAD_AUTH)) (cs []))
      (\<lambda>_. retM (if t = pw then EXIT_SUCCESS else BAD_AUTH)) (consume (command_socket c) (length t + 3) w)"
  by (rule authenticate_answers [OF assms])

theorem authenticate_compares_strings_witness:
  "authenticate 7 message0 NUL (session0 ''p'') =
    bindM (send_message 3 (as_char BAD_AUTH) (cs [])) (\<lambda>_. retM BAD_AUTH) (consume 3 4 (session0 ''p''))"
proof -
  have "dec_message (avail 3 (session0 ''p'')) = Some ((as_char AUTH_REQUEST, ''p'' @ [NUL]), session_cmd jobs0)"
    using messages.dec_enc [of "(as_char AUTH_REQUEST, ''p'' @ [NUL])" "session_cmd jobs0"]
    by (simp add: session0_def valid_message_def)
  then show ?thesis
    using authenticate_compares_strings [of "session0 ''p''" 7 client0 "as_char AUTH_REQUEST" "''p''" "session_cmd jobs0"
        "''pw''" message0 NUL]
    by (simp add: session0_def MESSAGE_BUFFERSIZE_def)
qed

text \<open>C38: \<open>authenticate\<close> ignores whether a message was received: when \<^verbatim>\<open>recv\<close> fails, the password is
  compared with whatever the uninitialised array \<open>message\<close> holds, and a daemon that sent nothing is
  let in if that is the password.\<close>

theorem authenticated_without_message:
  assumes "clients w client = Some c" and "rx w (command_socket c) = RErr e # q" and "snd_evs w = []"
    and "c_str (password w) = Some pw" and "length pw < MESSAGE_BUFFERSIZE" and "c_str message = Some pw"
  shows "fst (authenticate client message f0 w) = Ret EXIT_SUCCESS"
proof -
  obtain tail where m: "message = pw @ NUL # tail" using c_str_split [OF assms(6)] by blast
  obtain ptail where p: "password w = pw @ NUL # ptail" using c_str_split [OF assms(4)] by blast
  have pn: "NUL \<notin> set pw" using c_str_no_NUL [OF assms(4)] .
  have "strncmp_eq (length pw) message (password w) = Some True"
    unfolding m p using strncmp_eq_strings [OF pn pn] by simp
  moreover have "strnlen (password w) MESSAGE_BUFFERSIZE = Some (length pw)"
    using strnlen_c_str [OF assms(4)] assms(5) by (simp add: min_def)
  ultimately show ?thesis
    using assms(1,3,6) receive_message_error [OF assms(2), of f0 message]
    by (simp add: authenticate_def bindM_def send_message_ideal)
qed

theorem authenticated_without_message_witness:
  "fst (authenticate 7 (cs ''pw'' @ replicate 252 NUL) NUL (server_rx [RErr 104] [])) = Ret EXIT_SUCCESS"
  by (rule authenticated_without_message [of _ _ client0 104 "[]" "''pw''"])
    (simp_all add: MESSAGE_BUFFERSIZE_def cs_def c_str_def)



section \<open>Single transfers\<close>

text \<open>C35: a transfer to a path with \<^verbatim>\<open>../\<close> in it ends the connection: the daemon is told
  \<open>BAD PATH\<close>, nothing is stored, the sockets are closed and the client is freed.\<close>

theorem bad_path_rejected:
  assumes "connected client cm dt w" and "locals_ok l" and "transfer_in cm dt nd junk t crest drest w"
    and "target t full w" and "strstr full ''../''"
    and "client_list (clients w) (last_client w) xs" and "client \<in> set xs"
  shows "\<exists>w'. thr_iteration client l w = (Exit 0, w') \<and> fs w' = fs w \<and>
    tx w' = (tx w)(cm := tx w cm @ enc_message (as_char FORCED_SOCKET_CLOSED, cs ''BAD PATH'')) \<and>
    closed w' = closed w @ [cm, dt] \<and> clients w' client = None"
proof -
  from assms(1) obtain c where c: "clients w client = Some c" "command_socket c = cm" "data_socket c = dt"
    "snd_evs w = []" by (auto simp: connected_def)
  have inc: "incoming cm dt (node_command nd) junk t (of_nat (length (node_bytes nd))) crest (node_bytes nd @ drest) w"
    using assms(3) by (simp add: transfer_in_def incoming_def announced_def)
  obtain n fp m where fp: "c_str fp = Some full" and it: "thr_iteration client l w =
      map_prod recast id ((bad_path client full :: int srv) (arrived client c fp cm n dt m w))"
    using thr_iteration_arrived [OF assms(1) c(1) assms(2) inc assms(4)] assms(5) by metis
  let ?w = "arrived client c fp cm n dt m w" and ?c = "c\<lparr>file_path := fp\<rparr>"
  have l: "client_list (clients ?w) (last_client ?w) xs" using assms(6) c(1) by simp
  obtain lst h where "h client = None"
    "(bad_path client full :: int srv) ?w = (Exit 0,
      (logged (ip_address ?c) ''BAD PATH'' (Some full) True (replied (command_socket ?c) FORCED_SOCKET_CLOSED ''BAD PATH'' ?w))
      \<lparr>closed := closed ?w @ [command_socket ?c, data_socket ?c], last_client := lst, clients := h\<rparr>)"
    by (rule bad_path_run [OF _ _ l assms(7), of ?c full]) (use c in simp_all)
  then show ?thesis unfolding it using c by (simp add: text_body_def cs_def)
qed

theorem bad_path_rejected_witness:
  "\<exists>w'. thr_iteration 7 locals0 (server_rx [Seg (enc_transfer (announced Dir ''a/../b'' 0))] [Seg (''a/../b'' @ [NUL])]) =
      (Exit 0, w') \<and> fs w' = Map.empty \<and>
    tx w' = (\<lambda>_. [])(3 := enc_message (as_char FORCED_SOCKET_CLOSED, cs ''BAD PATH'')) \<and> closed w' = [3, 4] \<and>
    clients w' 7 = None"
  using bad_path_rejected [of 7 3 4 "server_rx [Seg (enc_transfer (announced Dir ''a/../b'' 0))] [Seg (''a/../b'' @ [NUL])]"
      locals0 Dir "[]" "''a/../b''" "[]" "[]" "''/srv/a/../b''" "[7]"]
  by (simp add: transfer_in_def target_def announced_def valid_small_transfer PATH_MAX_def)

text \<open>C19: when the operating system refuses to create a file, the daemon gets the reason as
  \<open>ACK_ERROR\<close> and nothing is stored; and if it then announces as many bytes to discard as it had
  sent of that file, the server is in step again: the next file is stored intact and
  acknowledged.\<close>

theorem refusal_then_in_step:
  assumes "connected client cm dt w" and "locals_ok l" and "fopen_evs w = [Some e]" and "mkdir_evs w = []"
    and "fwrite_evs w = []" and "NUL \<notin> set (errtext w e)" and "length (errtext w e) \<le> 252"
    and "avail cm w = enc_transfer (announced (File bs) t 0) @ enc_transfer (announced nd u (of_nat (length bs))) @ crest"
    and "avail dt w = t @ NUL # bs @ u @ NUL # node_bytes nd @ drest"
    and "target t full w" and "target u full' w" and "\<not> strstr full ''../''" and "\<not> strstr full' ''../''"
    and "NUL \<notin> set t" and "NUL \<notin> set u" and "length bs < 2 ^ 64" and "length (node_bytes nd) < 2 ^ 64"
    and "valid_transfer (announced (File bs) t 0)" and "valid_transfer (announced nd u (of_nat (length bs)))"
  shows "\<exists>l1 w1 l2 w2. thr_iteration client l w = (Ret (True, l1), w1) \<and> thr_iteration client l1 w1 = (Ret (True, l2), w2) \<and>
    fs w1 = fs w \<and> fs w2 = (fs w)(full' \<mapsto> nd) \<and> avail cm w2 = crest \<and> avail dt w2 = drest \<and>
    tx w2 = (tx w)(cm := tx w cm @ enc_message (as_char ACK_ERROR, text_body (errtext w e)) @ enc_message (as_char ACK_OK, []))"
proof -
  let ?crest = "enc_transfer (announced nd u (of_nat (length bs))) @ crest"
  let ?drest = "bs @ u @ NUL # node_bytes nd @ drest"
  have inc: "incoming cm dt (as_char MK_FILE) [] t (of_nat (length bs)) ?crest ?drest w"
    using assms(8,9,14,18) by (simp add: incoming_def announced_def)
  have ref: "refuses (as_char MK_FILE) e w (w\<lparr>fopen_evs := [], errno := e\<rparr>)"
    using assms(3) by (simp add: refuses_def)
  from serve_refused_step [OF assms(1,2) inc assms(10,12) ref assms(6,7)] obtain l1 w1 where
    1: "thr_iteration client l w = (Ret (True, l1), w1)" "fopen_evs w1 = []" "mkdir_evs w1 = []" "fs w1 = fs w"
    and d1: "round_done client cm dt ACK_ERROR (errtext w e) ?crest ?drest l1 w w1"
    using assms(4) by auto
  have c1: "connected client cm dt w1" "locals_ok l1" using d1 by (simp_all add: round_done_def)
  have inc1: "transfer_in cm dt nd bs u crest drest w1"
    using d1 assms(15-17,19) by (simp add: round_done_def transfer_in_def)
  have tgt1: "target u full' w1" using d1 assms(11) by (auto simp: round_done_def target_def)
  have ok1: "permissive w1" using d1 1 assms(5) by (simp add: permissive_def round_done_def)
  from serve_node_step [OF c1 inc1 tgt1 assms(13) ok1] obtain l2 w2 where
    2: "thr_iteration client l1 w1 = (Ret (True, l2), w2)" "fs w2 = (fs w1)(full' \<mapsto> nd)"
    and d2: "round_done client cm dt ACK_OK [] crest drest l2 w1 w2" by blast
  have "tx w2 = (tx w)(cm := tx w cm @ enc_message (as_char ACK_ERROR, text_body (errtext w e)) @ enc_message (as_char ACK_OK, []))"
    using d1 d2 by (simp add: round_done_def)
  then show ?thesis
    by (intro exI [of _ l1] exI [of _ w1] exI [of _ l2] exI [of _ w2]) (use 1 2 d2 in \<open>simp add: round_done_def\<close>)
qed

theorem refusal_then_in_step_witness:
  "\<exists>l1 w1 l2 w2. thr_iteration 7 locals0 ((server_rx
        [Seg (enc_transfer (announced (File ''lost'') ''a'' 0)), Seg (enc_transfer (announced (File ''kept'') ''b'' 4))]
        [Seg (''a'' @ NUL # ''lo''), Seg (''stb'' @ NUL # ''kept'')])\<lparr>fopen_evs := [Some 28]\<rparr>) = (Ret (True, l1), w1) \<and>
    thr_iteration 7 l1 w1 = (Ret (True, l2), w2) \<and> fs w1 = Map.empty \<and> fs w2 = [''/srv/b'' \<mapsto> File ''kept'']"
proof -
  let ?w = "(server_rx
        [Seg (enc_transfer (announced (File ''lost'') ''a'' 0)), Seg (enc_transfer (announced (File ''kept'') ''b'' 4))]
        [Seg (''a'' @ NUL # ''lo''), Seg (''stb'' @ NUL # ''kept'')])\<lparr>fopen_evs := [Some 28]\<rparr>"
  have w: "connected 7 3 4 ?w" "prefix_of ?w = Some ''/srv/''" "mkdir_evs ?w = []" "fwrite_evs ?w = []"
    "avail 3 ?w = enc_transfer (announced (File ''lost'') ''a'' 0) @ enc_transfer (announced (File ''kept'') ''b'' 4)"
    "avail 4 ?w = ''a'' @ NUL # ''lost'' @ ''b'' @ NUL # ''kept''"
    by (simp_all add: connected_def prefix_of_def server_rx_def server0_def avail_def)
  from refusal_then_in_step [of 7 3 4 ?w locals0 28 "''lost''" "''a''" "File ''kept''" "''b''" "[]" "[]" "''/srv/a''" "''/srv/b''"]
  show ?thesis
    using w by (simp add: target_def announced_def valid_small_transfer PATH_MAX_def) blast
qed

section \<open>Limits\<close>

text \<open>C39: \<open>load_path\<close> compares a path's length with \<open>PATH_MAX\<close> alone, though the path goes
  behind the chroot directory: a path that is short enough but does not fit there writes past
  \<open>client->file_path\<close> once it arrives.\<close>

theorem chroot_path_overflow:
  assumes "clients w client = Some c" and "length (file_path c) = PATH_MAX" and "prefix_of w = Some pre"
    and "length pre < PATH_MAX" and "0 \<le> len" and "len \<le> int PATH_MAX"
    and "int PATH_MAX < int (length pre) + len" and "PATH_MAX < length pre + length (avail (data_socket c) w)"
  shows "fst (srv_load_path_wrapper len client w) = Ub"
proof -
  obtain n where n: "chroot_prefix (dest_chroot w) (is_dest_chroot w) (file_path c) = Some (n, patched (file_path c) 0 pre)"
    "length pre = n + (if is_dest_chroot w then 1 else 0)"
    by (rule chroot_prefix_spec [OF assms(3,2,4)])
  let ?p = "patched (file_path c) 0 pre"
  have "length ?p = PATH_MAX" using assms(2,4) by simp
  moreover have "unat (word_of_int len :: u64) = nat len"
    using assms(5,6) by (intro word_of_path_len) (simp_all add: PATH_MAX_def)
  ultimately have "fst (recv_bytes ?p (length pre) (data_socket c) (word_of_int len) w) = Ub"
    using assms(4-8) by (intro recv_bytes_overrun) simp_all
  then obtain v where "load_path len (data_socket c) ?p (length pre) w = (Ub, v)"
    using assms(6) by (cases "recv_bytes ?p (length pre) (data_socket c) (word_of_int len) w") (simp add: load_path_def)
  then show ?thesis
    using assms(1) n(1) by (simp add: srv_load_path_wrapper_def bindM_def n(2) [symmetric])
qed

theorem chroot_path_overflow_witness:
  "fst (srv_load_path_wrapper 4096 7 (server_rx [] [Seg (replicate 4096 CHR ''a'')])) = Ub"
  by (rule chroot_path_overflow [of _ _ client0 "''/srv/''"]) (simp_all add: PATH_MAX_def [symmetric], simp_all add: PATH_MAX_def)

text \<open>The length byte of a header is not compared with the size of the array: a peer that
  announces more than the 31 bytes of \<open>dest_file_attrs_buffer\<close> makes the server write past it, before
  it has looked at the fields.\<close>

theorem header_length_overflow:
  assumes "clients w client = Some c" and "length buf = MAX_HEADER_LEN"
    and "MAX_HEADER_LEN < nat_of (hd (avail (command_socket c) w))"
    and "MAX_HEADER_LEN < length (avail (command_socket c) w)"
  shows "fst (load_dest_file_attrs buf da client w) = Ub"
proof -
  let ?s = "command_socket c" and ?av = "avail (command_socket c) w"
  let ?l = "nat_of (hd ?av)"
  let ?buf = "patched buf 0 (take 10 ?av)"
  have len: "length buf = 31" "31 < ?l" "31 < length ?av" using assms by (simp_all add: MAX_HEADER_LEN_def)
  have rd: "srv_recv_bytes_wrapper buf 0 ?s 10 client w = (Ret ?buf, consume ?s 10 w)"
    using len by (subst srv_recv_bytes_wrapper_ok) simp_all
  have hd: "nat_of (?buf ! 0) = ?l" using len by (cases ?av) (simp_all add: patched_0)
  have u: "uint (of_nat ?l :: u8) = int ?l" "(of_nat ?l :: u8) \<noteq> 0" using u8_numbers [of ?l] len by simp_all
  have n: "unat (word_of_int (int ?l - 10) :: u64) = ?l - 10"
  proof (subst word_of_path_len)
    have "int ?l < 256" using nat_of_less [of "hd ?av"] by linarith
    then show "int ?l - 10 \<le> 4096" by linarith
  qed (use len in simp_all)
  have "fst (recv_bytes ?buf 10 ?s (word_of_int (int ?l - 10)) (consume ?s 10 w)) = Ub"
    using len n by (intro recv_bytes_overrun) simp_all
  then obtain v where "srv_recv_bytes_wrapper ?buf 10 ?s (word_of_int (int ?l - 10)) client (consume ?s 10 w) = (Ub, v)"
    by (cases "recv_bytes ?buf 10 ?s (word_of_int (int ?l - 10)) (consume ?s 10 w)")
      (simp add: srv_recv_bytes_wrapper_def bindM_def)
  then show ?thesis
    using assms(1) rd hd u len(2)
    by (simp add: load_dest_file_attrs_def bindM_def Let_def MIN_DEST_FILE_ATTRS_LEN_def)
qed

theorem header_length_overflow_witness:
  "fst (load_dest_file_attrs (replicate MAX_HEADER_LEN NUL) (l_attrs locals0) 7
     (server_rx [Seg (byte_of 200 # replicate 40 CHR ''0'')] [])) = Ub"
  by (rule header_length_overflow [of _ _ client0]) (simp_all add: MAX_HEADER_LEN_def)

section \<open>Accepting\<close>

text \<open>C15: \<open>accept_connection\<close> implements the pairing by token: it returns the first two connections
  that present the same token, in their order of arrival, the first as the command socket and the
  second as the data socket, keeps the others waiting, and waits itself while no pair is complete.\<close>

theorem accept_connection_pairs_by_token:
  assumes "accepting w xs ns" and "clients w client = Some c" and "length message = MESSAGE_BUFFERSIZE"
  shows "case pair_up (halves w xs) ns of
      Some ((_, s, i), (_, s', i'), hs, ns') \<Rightarrow>
        \<exists>w' xs'. accept_connection e0 client flag message w = (Ret (), w') \<and> accepting w' xs' ns' \<and>
          halves w' xs' = hs \<and> clients w' = (clients w)(client \<mapsto> c\<lparr>command_socket := s,
            data_socket := s', command_info := i, data_info := i'\<rparr>)
    | None \<Rightarrow> fst (accept_connection e0 client flag message w) = Block"
  by (rule accept_connection_pairs [OF assms])

definition arriving :: server where
  "arriving = server0\<lparr>rx := (\<lambda>_. [])(5 := [Seg (enc_message (as_char AUTH_REQUEST, ''tok'' @ [NUL]))],
       6 := [Seg (enc_message (as_char AUTH_REQUEST, ''other'' @ [NUL]))],
       8 := [Seg (enc_message (as_char AUTH_REQUEST, ''tok'' @ [NUL]))]),
     accepts := [Some (5, ''peer''), Some (6, ''second''), Some (8, ''peer'')]\<rparr>"

text \<open>What the fresh memory of a list node holds.\<close>

definition el0 :: el where
  "el0 = \<lparr>el_token = replicate MESSAGE_BUFFERSIZE NUL, el_socket = 0, el_info = [], el_next = None, el_prev = None\<rparr>"

definition arriving_halves :: "half list" where
  "arriving_halves = [(''tok'', 5, ''peer''), (''other'', 6, ''second''), (''tok'', 8, ''peer'')]"

lemma arriving_accepting: "accepting arriving [] arriving_halves" "halves arriving [] = []"
proof -
  have msg: "\<exists>flag rest. dec_message (enc_message (as_char AUTH_REQUEST, t @ [NUL])) = Some ((flag, t @ [NUL]), rest)"
    if "length t \<le> 252" for t
    using messages.dec_enc [of "(as_char AUTH_REQUEST, t @ [NUL])" "[]"] that by (simp add: valid_message_def)
  have "announces arriving (Some (s, i)) (t, s, i)"
    if "NUL \<notin> set t" "length t \<le> 252" "avail s arriving = enc_message (as_char AUTH_REQUEST, t @ [NUL])" for s i t
    using msg [OF that(2)] that by (simp add: announces_def)
  moreover have "accepts arriving = [Some (5, ''peer''), Some (6, ''second''), Some (8, ''peer'')]" by (simp add: arriving_def)
  moreover have "avail 5 arriving = enc_message (as_char AUTH_REQUEST, ''tok'' @ [NUL])"
    "avail 6 arriving = enc_message (as_char AUTH_REQUEST, ''other'' @ [NUL])"
    "avail 8 arriving = enc_message (as_char AUTH_REQUEST, ''tok'' @ [NUL])"
    by (simp_all add: arriving_def avail_def)
  ultimately have "arrivals arriving arriving_halves" by (simp add: arrivals_def arriving_halves_def)
  moreover have "waiting arriving []"
    by (simp add: waiting_def arriving_def server0_def dl_holds_def tokens_ok_def dl.unique_def)
  ultimately show "accepting arriving [] arriving_halves" by (simp add: accepting_def)
qed (simp add: halves_def)

lemma arriving_pair:
  "pair_up [] arriving_halves = Some ((''tok'', 5, ''peer''), (''tok'', 8, ''peer''), [(''other'', 6, ''second'')], [])"
  by (simp add: arriving_halves_def arrive_def)

theorem accept_connection_pairs_by_token_witness:
  "\<exists>w' xs'. accept_connection el0 7 NUL message0 arriving = (Ret (), w') \<and> accepting w' xs' [] \<and>
    halves w' xs' = [(''other'', 6, ''second'')] \<and>
    clients w' = [7 \<mapsto> client0\<lparr>command_socket := 5, data_socket := 8, command_info := ''peer'', data_info := ''peer''\<rparr>]"
  using accept_connection_pairs_by_token [OF arriving_accepting(1), of 7 client0 message0 el0 NUL]
  by (simp add: arriving_accepting(2) arriving_pair) (simp add: arriving_def server0_def)

text \<open>C31: a round of \<open>main\<close> puts the daemon whose two connections have paired up at the end of the
  list of clients, with those connections as its sockets, and leaves the list well formed.\<close>

theorem main_round_registers:
  assumes "accepting w xs ns" and "client_list (clients w) (last_client w) ys" and "\<forall>a \<in> set ys. a < fresh_addr w"
    and "length message = MESSAGE_BUFFERSIZE" and "pair_up (halves w xs) ns = Some ((t, s, i), (t', s', i'), hs, ns')"
  shows "\<exists>w' xs'. srv_main_round c0 e0 flag message srv no w = (Ret (fresh_addr w), w') \<and>
    accepting w' xs' ns' \<and> halves w' xs' = hs \<and>
    client_list (clients w') (last_client w') (ys @ [fresh_addr w]) \<and>
    (\<forall>a \<in> set (ys @ [fresh_addr w]). a < fresh_addr w') \<and>
    (\<exists>c. clients w' (fresh_addr w) = Some c \<and> command_socket c = s \<and> data_socket c = s')"
  by (rule srv_main_round_spec [OF assms])

theorem main_round_registers_witness:
  "\<exists>w' xs'. srv_main_round client0 el0 NUL message0 9 1 arriving = (Ret 8, w') \<and>
    accepting w' xs' [] \<and> halves w' xs' = [(''other'', 6, ''second'')] \<and>
    client_list (clients w') (last_client w') [7, 8] \<and> (\<forall>a \<in> set [7, 8]. a < fresh_addr w') \<and>
    (\<exists>c. clients w' 8 = Some c \<and> command_socket c = 5 \<and> data_socket c = 8)"
proof -
  have a: "fresh_addr arriving = 8" "clients arriving = [7 \<mapsto> client0]" "last_client arriving = Some 7"
    by (simp_all add: arriving_def server0_def)
  show ?thesis
    using main_round_registers [OF arriving_accepting(1), of "[7]" message0 "''tok''" 5 "''peer''" "''tok''" 8 "''peer''"
        "[(''other'', 6, ''second'')]" "[]" client0 el0 NUL 9 1]
    unfolding a arriving_accepting(2) by (simp add: arriving_pair)
qed

section \<open>The list of clients\<close>

text \<open>C17: in every state the list of clients can reach, as clients join and leave at its ends, it
  is well formed and holds exactly the running clients.\<close>

theorem clients_well_linked:
  assumes "reachable_clients (run, lst, h)"
  shows "\<exists>xs. client_list h lst xs \<and> set xs = run"
  using reachable_well_linked [OF assms] by (simp add: well_linked_def)

lemma joined_reachable: "reachable_clients ({7}, Some 7, [7 \<mapsto> client0])"
proof -
  let ?h = "[7 \<mapsto> client0] :: client_heap"
  have "link_client (Some 7) None ?h = Some (Some 7, ?h)"
    by (simp add: link_client_def upd_client_def get_client_def client0_def fun_eq_iff)
  from client_step.join [OF _ _ this, of "{}" client0] have "client_step ({}, None, ?h) ({7}, Some 7, ?h)" by simp
  then show ?thesis unfolding reachable_clients_def by blast
qed

theorem clients_well_linked_witness:
  "\<exists>xs. client_list [7 \<mapsto> client0] (Some 7) xs \<and> set xs = {7}"
  by (rule clients_well_linked [OF joined_reachable])



text \<open>C40: a client that leaves from the middle of the list breaks it, since \<open>dealloc\<close> assigns
  \<open>client->next->before\<close> to itself: when the signal handler then walks the list it reads the freed
  client.\<close>

theorem middle_client_leaves_dangling:
  assumes "client_list (clients w) (last_client w) xs" and "0 < k" and "Suc k < length xs"
    and "dealloc (xs ! k) w = (Ret (), w')"
  shows "fst (srv_signal_handler w') = Ub"
proof -
  have "k < length xs" using assms(3) by simp
  then obtain c where c: "clients w (xs ! k) = Some c"
    by (rule client_list_node [OF assms(1)])
  obtain h' where u: "unlink_client (Some (xs ! k)) (last_client w) (clients w) = Some (last_client w, h')"
    using unlink_middle [OF assms(1-3)] by blast
  have "w' = w\<lparr>closed := closed w @ [command_socket c, data_socket c], last_client := last_client w, clients := h'\<rparr>"
    using dealloc_run [OF c u] assms(4) by simp
  then show ?thesis
    using close_clients_dangling [OF assms(1-3) u] by (simp add: srv_signal_handler_def bindM_def)
qed

definition three_clients :: server where
  "three_clients = server0\<lparr>clients := [7 \<mapsto> client0\<lparr>ci_next := Some 8\<rparr>,
     8 \<mapsto> client0\<lparr>ci_before := Some 7, ci_next := Some 9\<rparr>, 9 \<mapsto> client0\<lparr>ci_before := Some 8\<rparr>], last_client := Some 9\<rparr>"

theorem middle_client_leaves_dangling_witness:
  "fst (dealloc 8 three_clients) = Ret () \<and> fst (srv_signal_handler (snd (dealloc 8 three_clients))) = Ub"
proof -
  have l: "client_list (clients three_clients) (last_client three_clients) [7, 8, 9]"
    by (auto simp: client_list_def three_clients_def less_Suc_eq numeral_3_eq_3)
  have d: "fst (dealloc 8 three_clients) = Ret ()"
    by (simp add: dealloc_def client_at_def three_clients_def server0_def bindM_def os_close_def unlink_client_def
        get_client_def upd_client_def)
  have "fst (srv_signal_handler (snd (dealloc 8 three_clients))) = Ub"
    by (rule middle_client_leaves_dangling [OF l, of 1]) (use d in \<open>simp_all add: prod_eq_iff\<close>)
  with d show ?thesis by simp
qed

end
