(* ===== verification/Calm.thy ===== *)
theory Calm
  imports Request_Header "HOL-Library.Sublist"
begin

text \<open>
  Two things that hold of everything the programs do on their sockets: what was sent stays sent
  (\<open>tx\<close> only grows), and a program that ignores SIGPIPE keeps ignoring it and is never killed.
  \<open>calm\<close> is preserved by sequencing, so that it is proved of a program by its structure.
\<close>

definition grows :: "'z net_scheme \<Rightarrow> 'z net_scheme \<Rightarrow> bool" where
  "grows w w' \<longleftrightarrow> sigpipe_ignored w' = sigpipe_ignored w \<and> (\<forall>s. prefix (tx w s) (tx w' s))"

definition calm :: "('z net_scheme, 'a) prog \<Rightarrow> bool" where
  "calm m \<longleftrightarrow> (\<forall>w r w'. m w = (r, w') \<longrightarrow> grows w w' \<and> (sigpipe_ignored w \<longrightarrow> r \<noteq> Killed))"

named_theorems calm_intros "composition rules of calm"

lemma calmI:
  "(\<And>w r w'. m w = (r, w') \<Longrightarrow> grows w w' \<and> (sigpipe_ignored w \<longrightarrow> r \<noteq> Killed)) \<Longrightarrow> calm m"
  by (simp add: calm_def)

lemma calmD: "calm m \<Longrightarrow> m w = (r, w') \<Longrightarrow> grows w w' \<and> (sigpipe_ignored w \<longrightarrow> r \<noteq> Killed)"
  by (simp add: calm_def)

lemma grows_trans: "grows w v \<Longrightarrow> grows v u \<Longrightarrow> grows w u"
  by (auto simp: grows_def intro: prefix_order.trans)

lemma grows_refl [simp]: "grows w w"
  by (simp add: grows_def)

lemma grows_same: "tx v = tx w \<Longrightarrow> sigpipe_ignored v = sigpipe_ignored w \<Longrightarrow> grows w v"
  by (simp add: grows_def)

text \<open>What a first step leads to, and what follows it.\<close>

lemma calm_step: "grows w v \<Longrightarrow> grows v u \<and> (sigpipe_ignored v \<longrightarrow> r \<noteq> Killed) \<Longrightarrow>
    grows w u \<and> (sigpipe_ignored w \<longrightarrow> r \<noteq> Killed)"
  by (auto intro: grows_trans) (simp add: grows_def)

lemma calm_bindM [calm_intros]:
  assumes m: "calm m" and f: "\<And>a. calm (f a)"
  shows "calm (bindM m f)"
proof (rule calmI)
  fix w r u assume "bindM m f w = (r, u)"
  then show "grows w u \<and> (sigpipe_ignored w \<longrightarrow> r \<noteq> Killed)"
  proof (cases rule: bindM_cases)
    case (ret a v)
    then show ?thesis using calm_step [of w v u r] calmD [OF m] calmD [OF f] by blast
  next
    case (stop r')
    then have "bindM m f w = (recast r', u)" by (intro bindM_no_ret) auto
    then have "r = recast r'" using \<open>bindM m f w = (r, u)\<close> by simp
    then show ?thesis using calmD [OF m stop(1)] stop(2) by (cases r') auto
  qed
qed

lemma calm_basic [calm_intros]:
  "calm (retM a)" "calm (getM g)" "calm (orUb x)" "calm (failM Ub)" "calm (failM (Throw e))" "calm (failM (Exit c))"
  by (auto simp: calm_def orUb_def split: option.splits)

lemma calm_modifyM [calm_intros]:
  "(\<And>w. tx (h w) = tx w) \<Longrightarrow> (\<And>w. sigpipe_ignored (h w) = sigpipe_ignored w) \<Longrightarrow> calm (modifyM h)"
  by (auto simp: calm_def intro: grows_same)

lemma calm_if [calm_intros]: "calm m \<Longrightarrow> calm n \<Longrightarrow> calm (if b then m else n)"
  by simp

lemma calm_whenM [calm_intros]: "calm m \<Longrightarrow> calm (whenM b m)"
  by (simp add: whenM_def calm_basic)

lemma calm_case_prod [calm_intros]: "(\<And>a b. calm (f a b)) \<Longrightarrow> calm (case x of (a, b) \<Rightarrow> f a b)"
  by (cases x) simp

section \<open>The calls and the library\<close>

lemma calm_os_send [calm_intros]: "calm (os_send s bs)"
proof (rule calmI)
  fix w :: "'z net_scheme" and r w' assume run: "os_send s bs w = (r, w')"
  then show "grows w w' \<and> (sigpipe_ignored w \<longrightarrow> r \<noteq> Killed)"
    by (auto simp: os_send_def grows_def split: list.splits snd_ev.splits if_splits)
qed

lemma calm_os_select [calm_intros]: "calm os_select"
  by (auto simp: calm_def grows_def os_select_def split: list.splits)

lemma calm_os_close [calm_intros]: "calm (os_close s)"
  by (auto simp: os_close_def intro: calm_modifyM)

lemma calm_os_socket [calm_intros]: "calm os_socket"
  by (auto simp: calm_def grows_def os_socket_def split: list.splits)

lemma calm_os_connect [calm_intros]: "calm (os_connect s)"
  by (auto simp: calm_def grows_def os_connect_def split: list.splits option.splits)

lemma calm_recv_bytes [calm_intros]: "calm (recv_bytes buf off s n)"
proof (rule calmI)
  fix w :: "'z net_scheme" and r w' assume run: "recv_bytes buf off s n w = (r, w')"
  then show "grows w w' \<and> (sigpipe_ignored w \<longrightarrow> r \<noteq> Killed)"
    using recv_bytes_frame [OF run] recv_loop_outcomes [OF run [unfolded recv_bytes_def]] by (auto simp: grows_def)
qed

lemma calm_receive_message [calm_intros]: "calm (receive_message s flag m)"
proof (rule calmI)
  fix w :: "'z net_scheme" and r w' assume run: "receive_message s flag m w = (r, w')"
  then show "grows w w' \<and> (sigpipe_ignored w \<longrightarrow> r \<noteq> Killed)"
    using receive_message_frame [OF run] receive_message_outcomes [OF run] by (auto simp: grows_def)
qed

lemma calm_load_path [calm_intros]: "calm (load_path n s p off)"
  unfolding load_path_def by (intro calm_intros)

lemma calm_send_message [calm_intros]: "calm (send_message s f m)"
  unfolding send_message_def by (intro calm_intros)

lemma calm_send_loop: "calm (send_loop buf off s bytes k)"
proof (rule calmI)
  fix w :: "'z net_scheme" and r w'
  show "send_loop buf off s bytes k w = (r, w') \<Longrightarrow> grows w w' \<and> (sigpipe_ignored w \<longrightarrow> r \<noteq> Killed)"
  proof (induction buf off s bytes k w arbitrary: r w' rule: send_loop.induct)
    case (1 buf off s bytes k w)
    show ?case
    proof (cases "k < bytes \<and> sel_evs w \<noteq> []")
      case False
      then show ?thesis using "1.prems"
        by (auto simp: send_loop.simps [of buf off] os_select_def split: if_splits)
    next
      case True
      then obtain e es where lt: "k < bytes" and ev: "sel_evs w = e # es" by (cases "sel_evs w") auto
      let ?w1 = "w\<lparr>sel_evs := es\<rparr>"
      have sel: "os_select w = (Ret e, ?w1)" using ev by (simp add: os_select_def)
      note run = "1.prems" [unfolded send_loop.simps [of buf off s bytes k w]]
      have g: "grows w ?w1" by (simp add: grows_same)
      show ?thesis
      proof (cases "sel_write e")
        case False
        then show ?thesis
          using run sel lt "1.IH"(3) [OF lt sel [symmetric] refl False] calm_step [OF g]
          by (auto simp: g split: if_splits)
      next
        case wr: True
        show ?thesis
        proof (cases "buf_read buf (off + unat k) (unat (bytes - k))")
          case None
          then show ?thesis using run sel lt wr g by auto
        next
          case (Some rest)
          obtain x v where sn: "os_send s rest ?w1 = (x, v)" by fastforce
          note c = calmD [OF calm_os_send sn]
          show ?thesis
          proof (cases "\<exists>n. x = Ret n")
            case False
            then show ?thesis using run sel lt wr Some sn c calm_step [OF g] by (cases x) auto
          next
            case True
            then obtain n where n: "x = Ret n" by blast
            note IH1 = "1.IH"(1) [OF lt sel [symmetric] refl wr Some sn [symmetric] n refl]
            note IH2 = "1.IH"(2) [OF lt sel [symmetric] refl wr Some sn [symmetric] n refl]
            have gv: "grows w v" using c grows_trans [OF g] by blast
            show ?thesis
              using run sel lt wr Some sn n IH1 IH2 calm_step [OF gv] gv
              by (auto simp: Let_def split: if_splits)
          qed
        qed
      qed
    qed
  qed
qed

lemma calm_send_bytes [calm_intros]: "calm (send_bytes buf off s n)"
  unfolding send_bytes_def by (rule calm_send_loop)

lemma calm_send_path [calm_intros]: "calm (send_path p s n)"
proof -
  have "calm (send_path_blocks p s i k)" for i k
    by (induction k arbitrary: i) (auto intro!: calm_intros)
  then show ?thesis unfolding send_path_def Let_def by (intro calm_intros)
qed

end
