(* ===== verification/Daemon_State.thy ===== *)
theory Daemon_State
  imports Transfer_Header Chunks
begin

text \<open>
  The state of the client daemon of \<^verbatim>\<open>src/client_daemon.c\<close> and its wrappers around the library's
  routines, which raise an exception (\<open>Throw\<close>) where the routine fails.  The state has the
  globals and the locals of \<open>main\<close>, the file system as \<^verbatim>\<open>stat64\<close> and \<^verbatim>\<open>fopen\<close> see it, and scripts
  for the calls that can fail: a call without an entry succeeds, except that \<^verbatim>\<open>accept\<close> waits.
  The locals keep their values across \<^verbatim>\<open>longjmp\<close>.
\<close>

text \<open>\<^verbatim>\<open>FILE *file\<close>: NULL, open with the bytes still to be read, or closed.\<close>

datatype handle = Null | Open "byte list" | Closed

record daemon = dialer +
  d_command_socket :: fd
  d_data_socket :: fd
  d_server_socket :: fd
  d_client_socket :: fd
  d_logfile :: "byte list"
  d_token :: "byte list"
  d_accepts :: "fd list"
  d_resolves :: "bool list"
  d_fs :: "byte list \<Rightarrow> node option"
  d_fopen_evs :: "int option list"
  d_fread_evs :: "int option list"
  d_errtext :: "int \<Rightarrow> byte list"
  d_request :: file_attrs
  d_request_buffer :: "byte list"
  d_attrs :: dest_file_attrs
  d_header :: "byte list"
  d_data :: "byte list"
  d_message :: "byte list"
  d_flag :: byte
  d_password :: "byte list"
  d_file :: handle
  d_resend :: bool

lemma daemon_consume [simp]:
  "d_command_socket (consume s n w) = d_command_socket w" "d_data_socket (consume s n w) = d_data_socket w"
  "d_client_socket (consume s n w) = d_client_socket w" "d_request (consume s n w) = d_request w"
  "d_request_buffer (consume s n w) = d_request_buffer w" "d_attrs (consume s n w) = d_attrs w"
  "d_header (consume s n w) = d_header w" "d_data (consume s n w) = d_data w"
  "d_message (consume s n w) = d_message w" "d_fs (consume s n w) = d_fs w"
  "d_fopen_evs (consume s n w) = d_fopen_evs w" "d_fread_evs (consume s n w) = d_fread_evs w"
  "d_resend (consume s n w) = d_resend w" "d_flag (consume s n w) = d_flag w" "d_file (consume s n w) = d_file w" "d_accepts (consume s n w) = d_accepts w"
  by (simp_all add: consume_def)

lemma daemon_sent [simp]:
  "d_command_socket (sent s n w) = d_command_socket w" "d_data_socket (sent s n w) = d_data_socket w"
  "d_client_socket (sent s n w) = d_client_socket w" "d_request (sent s n w) = d_request w"
  "d_request_buffer (sent s n w) = d_request_buffer w" "d_attrs (sent s n w) = d_attrs w"
  "d_header (sent s n w) = d_header w" "d_data (sent s n w) = d_data w"
  "d_message (sent s n w) = d_message w" "d_fs (sent s n w) = d_fs w"
  "d_fopen_evs (sent s n w) = d_fopen_evs w" "d_fread_evs (sent s n w) = d_fread_evs w"
  "d_resend (sent s n w) = d_resend w" "d_flag (sent s n w) = d_flag w" "d_file (sent s n w) = d_file w" "d_accepts (sent s n w) = d_accepts w"
  by (simp_all add: sent_def)

lemma avail_daemon [simp]:
  "avail s (w\<lparr>d_request := a1\<rparr>) = avail s w" "avail s (w\<lparr>d_request_buffer := a2\<rparr>) = avail s w"
  "avail s (w\<lparr>d_attrs := a3\<rparr>) = avail s w" "avail s (w\<lparr>d_header := a4\<rparr>) = avail s w"
  "avail s (w\<lparr>d_file := a5\<rparr>) = avail s w" "avail s (w\<lparr>d_data := a6\<rparr>) = avail s w"
  "avail s (w\<lparr>d_message := a7\<rparr>) = avail s w" "avail s (w\<lparr>d_flag := a8\<rparr>) = avail s w"
  "avail s (w\<lparr>d_client_socket := a9\<rparr>) = avail s w" "avail s (w\<lparr>d_accepts := b1\<rparr>) = avail s w"
  "avail s (w\<lparr>d_fopen_evs := b2\<rparr>) = avail s w"
  by (simp_all add: avail_def)

type_synonym 'a dmn = "(daemon, 'a) prog"

definition NL :: byte where "NL = CHR 0x0A"

definition d_log :: "byte list \<Rightarrow> unit dmn" where
  "d_log t = modifyM (\<lambda>w. w\<lparr>d_logfile := d_logfile w @ t\<rparr>)"

definition d_strerror :: "byte list dmn" where
  "d_strerror = getM (\<lambda>w. d_errtext w (errno w))"

text \<open>\<^verbatim>\<open>fprintf(logfile, "what: %s\n", strerror(errno))\<close>\<close>

definition d_log_error :: "byte list \<Rightarrow> unit dmn" where
  "d_log_error what = bindM d_strerror (\<lambda>e. d_log (what @ '': '' @ e @ [NL]))"

definition d_fclose :: "unit dmn" where
  "d_fclose w =
     (case d_file w of Open rest \<Rightarrow> (Ret (), w\<lparr>d_file := Closed\<rparr>) | _ \<Rightarrow> (Ub, w))"

section \<open>Wrappers\<close>

definition send_wrapper :: "fd \<Rightarrow> byte list \<Rightarrow> nat \<Rightarrow> unit dmn" where
  "send_wrapper sock buffer len =
     bindM (orUb (buf_read buffer 0 len)) (\<lambda>bs.
     bindM (os_send sock bs) (\<lambda>error.
     if error = - 1 then
       bindM (d_log_error ''send'') (\<lambda>_.
       bindM (os_close sock) (\<lambda>_. failM (Throw SOCKET_CLOSED)))
     else retM ()))"

text \<open>\<^verbatim>\<open>fread\<close> stores what is left of the file, at most \<open>len\<close> bytes, and the check looks at
  \<^verbatim>\<open>ferror\<close> alone: a file that has shrunk leaves old bytes in the buffer.\<close>

definition os_fread :: "byte list \<Rightarrow> nat \<Rightarrow> (bool \<times> byte list) dmn" where
  "os_fread buffer len w =
     (case d_file w of
        Open rest \<Rightarrow>
          (case d_fread_evs w of
             Some e # es \<Rightarrow> (Ret (True, buffer), w\<lparr>d_fread_evs := es, errno := e\<rparr>)
           | evs \<Rightarrow>
               (case buf_write buffer 0 (take len rest) of
                  None \<Rightarrow> (Ub, w)
                | Some buf \<Rightarrow> (Ret (False, buf), w\<lparr>d_fread_evs := tl evs, d_file := Open (drop len rest)\<rparr>)))
      | _ \<Rightarrow> (Ub, w))"

definition fread_wrapper :: "byte list \<Rightarrow> nat \<Rightarrow> byte list dmn" where
  "fread_wrapper buffer len =
     bindM (os_fread buffer len) (\<lambda>(ferror, buf).
     if ferror then
       bindM d_fclose (\<lambda>_.
       bindM (d_log_error ''fread'') (\<lambda>_. failM (Throw FILE_ERROR)))
     else retM buf)"

definition send_message_wrapper :: "fd \<Rightarrow> byte \<Rightarrow> byte list \<Rightarrow> ('z net_scheme, unit) prog" where
  "send_message_wrapper sock message_flag message =
     bindM (send_message sock message_flag message) (\<lambda>error.
       if error \<noteq> EXIT_SUCCESS then failM (Throw FORCED_SOCKET_CLOSED) else retM ())"

text \<open>\<open>put\<close> stores the array the path is read into, whatever the outcome.\<close>

definition load_path_wrapper ::
  "int \<Rightarrow> fd \<Rightarrow> byte list \<Rightarrow> (byte list \<Rightarrow> daemon \<Rightarrow> daemon) \<Rightarrow> unit dmn" where
  "load_path_wrapper len sock path put =
     bindM (load_path len sock path 0) (\<lambda>(error, path).
     bindM (modifyM (put path)) (\<lambda>_.
       if error \<noteq> EXIT_SUCCESS then
         if error = SOCKET_CLOSED then failM (Throw FORCED_SOCKET_CLOSED) else failM (Throw error)
       else retM ()))"

definition send_path_wrapper :: "byte list \<Rightarrow> fd \<Rightarrow> int \<Rightarrow> ('z net_scheme, unit) prog" where
  "send_path_wrapper path sock len =
     bindM (send_path path sock len) (\<lambda>error.
       if error \<noteq> EXIT_SUCCESS then failM (Throw error) else retM ())"

text \<open>The text always goes into \<open>main\<close>'s \<open>message\<close>.\<close>

definition receive_message_wrapper :: "fd \<Rightarrow> byte \<Rightarrow> byte dmn" where
  "receive_message_wrapper sock message_flag =
     bindM (getM d_message) (\<lambda>message.
     bindM (receive_message sock message_flag message) (\<lambda>(error, flag, message).
     bindM (modifyM (\<lambda>w. w\<lparr>d_message := message\<rparr>)) (\<lambda>_.
       if error \<noteq> EXIT_SUCCESS then failM (Throw error) else retM flag)))"

section \<open>max, dealloc, signal\_handler\<close>

definition max_of :: "int \<Rightarrow> int \<Rightarrow> int \<Rightarrow> int" where
  "max_of num1 num2 num3 =
     (let tmp = num1;
          tmp = (if tmp < num2 then num2 else tmp);
          tmp = (if tmp < num3 then num3 else tmp)
      in tmp)"

definition dmn_dealloc :: "unit dmn" where
  "dmn_dealloc =
     bindM (getM d_command_socket) (\<lambda>s. bindM (os_close s) (\<lambda>_.
     bindM (getM d_data_socket) (\<lambda>s. bindM (os_close s) (\<lambda>_.
     bindM (getM d_server_socket) (\<lambda>s. bindM (os_close s) (\<lambda>_.
     bindM (getM d_client_socket) os_close))))))"

definition dmn_signal_handler :: "unit dmn" where
  "dmn_signal_handler =
     bindM (d_log ([NL] @ ''Interupted by user. Exiting.'' @ [NL])) (\<lambda>_.
     bindM dmn_dealloc (\<lambda>_. failM (Exit EXIT_SUCCESS)))"

section \<open>generate\_token\<close>

text \<open>The result of \<^verbatim>\<open>rand\<close> and the host name \<^verbatim>\<open>gethostname\<close> stores are arguments.\<close>

definition generate_token :: "int \<Rightarrow> byte list \<Rightarrow> byte list option" where
  "generate_token random_number hostname = do {
     let token = replicate MESSAGE_BUFFERSIZE NUL;
     number_char \<leftarrow> sprintf_into MESSAGE_BUFFERSIZE (sprintf_ld random_number);
     host \<leftarrow> c_str hostname;
     token \<leftarrow> buf_write token 0 (host @ [NUL]);
     buf_write token (length host) (number_char @ [NUL])
   }"

lemma generate_token_run:
  assumes "c_str hostname = Some host" and "- (2 ^ 63) \<le> n" and "n < 2 ^ 63" and "length host \<le> 234"
  shows "\<exists>token. generate_token n hostname = Some token \<and> c_str token = Some (host @ sprintf_ld n) \<and>
    length token = MESSAGE_BUFFERSIZE \<and>
    (\<forall>m. - (2 ^ 63) \<le> m \<and> m < 2 ^ 63 \<and> generate_token m hostname = Some token \<longrightarrow> m = n)"
proof -
  let ?tok = "\<lambda>n. host @ sprintf_ld n @ NUL # drop (length host + length (sprintf_ld n) + 1) (replicate MESSAGE_BUFFERSIZE NUL)"
  have gen: "generate_token k hostname = Some (?tok k)" if "- (2 ^ 63) \<le> k" "k < 2 ^ 63" for k
  proof -
    have l: "length (sprintf_ld k) \<le> 20" using length_sprintf_ld [OF that] .
    let ?z = "replicate MESSAGE_BUFFERSIZE NUL"
    have w1: "buf_write ?z 0 (host @ [NUL]) = Some (patched ?z 0 (host @ [NUL]))"
      using assms(4) by (intro buf_write_Some) (simp add: MESSAGE_BUFFERSIZE_def)
    have w2: "buf_write (patched ?z 0 (host @ [NUL])) (length host) (sprintf_ld k @ [NUL]) =
        Some (patched (patched ?z 0 (host @ [NUL])) (length host) (sprintf_ld k @ [NUL]))"
      using assms(4) l by (intro buf_write_Some) (simp add: MESSAGE_BUFFERSIZE_def)
    have "0 < length (sprintf_ld k)" by simp
    then have p: "patched (patched ?z 0 (host @ [NUL])) (length host) (sprintf_ld k @ [NUL]) = ?tok k"
      by (cases "sprintf_ld k") (simp_all add: patched_def)
    have sp: "sprintf_into MESSAGE_BUFFERSIZE (sprintf_ld k) = Some (sprintf_ld k)"
      using l by (simp add: sprintf_into_def MESSAGE_BUFFERSIZE_def)
    show ?thesis
      unfolding generate_token_def Let_def sp assms(1) Option.bind_lunit w1 w2 p by (rule refl)
  qed
  have str: "c_str (?tok k) = Some (host @ sprintf_ld k)" for k
    using c_str_append [of "host @ sprintf_ld k"] c_str_no_NUL [OF assms(1)] by simp
  have "m = n" if "- (2 ^ 63) \<le> m" "m < 2 ^ 63" "generate_token m hostname = Some (?tok n)" for m
  proof -
    have "Some (?tok m) = Some (?tok n)" using gen [OF that(1,2)] that(3) by (rule trans [OF sym])
    then have eq: "?tok m = ?tok n" by (simp only: option.inject)
    have "Some (host @ sprintf_ld m) = Some (host @ sprintf_ld n)"
      using str [of m] str [of n] unfolding eq by (rule trans [OF sym])
    then have "sprintf_ld m = sprintf_ld n" by simp
    with strtol_sprintf_ld [OF that(1,2), of "[]"] strtol_sprintf_ld [OF assms(2,3), of "[]"]
    have "Some m = Some n" by (metis (no_types))
    then show ?thesis by (simp only: option.inject)
  qed
  moreover have "length (?tok n) = MESSAGE_BUFFERSIZE"
    using assms(4) length_sprintf_ld [OF assms(2,3)] by (simp add: MESSAGE_BUFFERSIZE_def)
  ultimately show ?thesis using gen [OF assms(2,3)] str by blast
qed

section \<open>Connections to the server\<close>

definition client_connect :: "fd dmn" where
  "client_connect =
     bindM os_socket (\<lambda>client_socket.
     if client_socket = - 1 then bindM (d_log_error ''socket'') (\<lambda>_. retM (- 1))
     else
     bindM (os_connect client_socket) (\<lambda>r.
     if r = - 1 then bindM (d_log_error ''connect'') (\<lambda>_. retM (- 1))
     else
     bindM (getM d_token) (\<lambda>token.
     bindM (send_message_wrapper client_socket (as_char AUTH_REQUEST) token) (\<lambda>_.
       retM client_socket))))"

text \<open>Both connections, the command socket's first.\<close>

definition connect_both :: "unit dmn" where
  "connect_both =
     bindM client_connect (\<lambda>s.
     bindM (modifyM (\<lambda>w. w\<lparr>d_command_socket := s\<rparr>)) (\<lambda>_.
     bindM client_connect (\<lambda>s.
       modifyM (\<lambda>w. w\<lparr>d_data_socket := s\<rparr>))))"

text \<open>The local \<^verbatim>\<open>message_flag\<close> is stored before it is read.\<close>

definition dmn_authenticate :: "int dmn" where
  "dmn_authenticate =
     bindM (getM d_command_socket) (\<lambda>sock.
     bindM (getM d_password) (\<lambda>pw.
     bindM (send_message sock (as_char AUTH_REQUEST) pw) (\<lambda>_.
     bindM (receive_message_wrapper sock NUL) (\<lambda>message_flag.
     if message_flag = as_char BAD_AUTH then retM BAD_AUTH
     else bindM (d_log (''Authenticated. Wainting for client connection.'' @ [NL])) (\<lambda>_. retM EXIT_SUCCESS)))))"

text \<open>\<^verbatim>\<open>gethostbyname\<close>: is there an answer?\<close>

definition os_gethostbyname :: "bool dmn" where
  "os_gethostbyname w =
     (case d_resolves w of
        [] \<Rightarrow> (Ret True, w)
      | b # bs \<Rightarrow> (Ret b, w\<lparr>d_resolves := bs\<rparr>))"

text \<open>Every attempt asks for at least one socket.\<close>

lemma client_connect_sockets:
  assumes "client_connect w = (Ret s, w')"
  shows "length (socket_evs w') < length (socket_evs w)"
proof -
  have send: "socket_evs v' = socket_evs v" if "send_message t f m v = (r, v')" for t f m v r v'
    using send_message_frame [OF that] by auto
  show ?thesis using assms
    by (auto simp: client_connect_def bindM_eq_Ret os_socket_def os_connect_def d_log_error_def d_strerror_def
        d_log_def send_message_wrapper_def dest!: send split: list.splits option.splits if_splits)
qed

definition retry :: "byte list \<Rightarrow> unit dmn" where
  "retry server_addr =
     bindM (d_log (''Still trying to connect to the server '' @ server_addr @ [NL])) (\<lambda>_. connect_both)"

function reconnect_loop :: "byte list \<Rightarrow> unit dmn" where
  "reconnect_loop server_addr w =
     (if d_command_socket w = - 1 \<or> d_data_socket w = - 1 then
        (case retry server_addr w of
           (Ret _, w') \<Rightarrow> reconnect_loop server_addr w'
         | (x, w') \<Rightarrow> (recast x, w'))
      else (Ret (), w))"
  by pat_completeness auto

lemma connect_both_sockets:
  "connect_both w = (Ret u, w') \<Longrightarrow> length (socket_evs w') < length (socket_evs w)"
  by (auto simp: connect_both_def bindM_eq_Ret dest!: client_connect_sockets)

termination reconnect_loop
proof (relation "measure (\<lambda>(server_addr, w). length (socket_evs w))")
  fix server_addr :: "byte list" and w w' :: daemon and x u
  assume "(x, w') = retry server_addr w" and "x = Ret u"
  then have "connect_both (w\<lparr>d_logfile := d_logfile w @ ''Still trying to connect to the server '' @ server_addr @ [NL]\<rparr>) = (Ret u, w')"
    by (simp add: retry_def d_log_def bindM_def)
  from connect_both_sockets [OF this]
  show "((server_addr, w'), server_addr, w) \<in> measure (\<lambda>(server_addr, w). length (socket_evs w))" by simp
qed simp

declare reconnect_loop.simps [simp del]

definition restart_connection :: "byte list \<Rightarrow> unit dmn" where
  "restart_connection server_addr =
     bindM (d_log (''server SOCKET CLOSED'' @ [NL])) (\<lambda>_.
     bindM os_gethostbyname (\<lambda>found.
     if \<not> found then bindM (d_log_error ''gethostbyname'') (\<lambda>_. failM (Exit EXIT_FAILURE))
     else
     bindM (getM d_command_socket) (\<lambda>s. bindM (os_close s) (\<lambda>_.
     bindM (getM d_data_socket) (\<lambda>s. bindM (os_close s) (\<lambda>_.
     bindM connect_both (\<lambda>_.
     bindM (reconnect_loop server_addr) (\<lambda>_.
     bindM dmn_authenticate (\<lambda>r.
     if r \<noteq> EXIT_SUCCESS then failM (Exit EXIT_FAILURE) else retM ())))))))))"

end
