(* ===== verification/Daemon_Request.thy ===== *)
theory Daemon_Request
  imports Daemon_State
begin

text \<open>
  The header of a request as the daemon reads it: \<open>load_file_attrs\<close> of
  \<^verbatim>\<open>src/client_daemon.c\<close> fills \<open>main\<close>'s array and structure, which keep what was
  stored in them when it raises an exception.
\<close>

definition recv_bytes_wrapper :: "nat \<Rightarrow> fd \<Rightarrow> u64 \<Rightarrow> byte list dmn" where
  "recv_bytes_wrapper off sock bytes =
     bindM (getM d_request_buffer) (\<lambda>file_attrs_buffer.
     bindM (recv_bytes file_attrs_buffer off sock bytes) (\<lambda>(error, buf).
     bindM (modifyM (\<lambda>w. w\<lparr>d_request_buffer := buf\<rparr>)) (\<lambda>_.
       if error \<noteq> EXIT_SUCCESS then failM (Throw error) else retM buf)))"

definition load_file_attrs :: "fd \<Rightarrow> unit dmn" where
  "load_file_attrs sock =
     bindM (recv_bytes_wrapper 0 sock (of_nat MIN_FILE_ATTRS_LEN)) (\<lambda>buf.
     let structure_len = (of_nat (nat_of (buf ! 0)) :: u8) in
     bindM (modifyM (\<lambda>w. w\<lparr>d_request := (d_request w)\<lparr>fa_structure_len := structure_len\<rparr>\<rparr>)) (\<lambda>_.
     if structure_len = 0 \<or> uint structure_len - int MIN_FILE_ATTRS_LEN < 0
       then failM (Throw PROTOCOL_ERROR)
     else
     bindM (recv_bytes_wrapper MIN_FILE_ATTRS_LEN sock
        (word_of_int (uint structure_len - int MIN_FILE_ATTRS_LEN))) (\<lambda>buf.
     let source_path_len_string = drop 2 buf in
     bindM (orUb (strnlen source_path_len_string MAX_FILE_ATTRS_LEN)) (\<lambda>source_path_len_raw.
     let destination_path_len_string = drop (source_path_len_raw + 1) source_path_len_string in
     bindM (orUb (strnlen destination_path_len_string MAX_FILE_ATTRS_LEN)) (\<lambda>destination_path_len_raw.
     bindM (orUb (strtol source_path_len_string)) (\<lambda>source_path_len.
     bindM (orUb (strtol destination_path_len_string)) (\<lambda>destination_path_len.
     bindM (modifyM (\<lambda>w. w\<lparr>d_request := (d_request w)\<lparr>fa_source_path_len := source_path_len,
           fa_destination_path_len := destination_path_len\<rparr>\<rparr>)) (\<lambda>_.
     if uint structure_len \<noteq> int (1 + 1 + source_path_len_raw + 1 + destination_path_len_raw + 1)
       then failM (Throw PROTOCOL_ERROR)
     else retM ()))))))))"

lemma recv_bytes_wrapper_ok [exec]:
  assumes "off + unat bytes \<le> length (d_request_buffer w)" and "unat bytes \<le> length (avail sock w)"
  shows "recv_bytes_wrapper off sock bytes w =
    (Ret (patched (d_request_buffer w) off (take (unat bytes) (avail sock w))),
     (consume sock (unat bytes) w)\<lparr>d_request_buffer := patched (d_request_buffer w) off (take (unat bytes) (avail sock w))\<rparr>)"
  by (simp add: recv_bytes_wrapper_def bindM_def recv_bytes_ok [OF assms])

lemma load_file_attrs_spec:
  assumes "dec_request (avail s w) = Some ((x, y), rest)" and "length (d_request_buffer w) = MAX_FILE_ATTRS_LEN"
  obtains l where "rest = drop l (avail s w)" "l \<le> length (avail s w)" "6 \<le> l" "l \<le> 20"
    "load_file_attrs s w = (Ret (), (consume s l w)
      \<lparr>d_request := (d_request w)\<lparr>fa_structure_len := of_nat l, fa_source_path_len := x, fa_destination_path_len := y\<rparr>,
       d_request_buffer := patched (d_request_buffer w) 0 (take l (avail s w))\<rparr>)"
proof -
  let ?av = "avail s w" and ?buf = "d_request_buffer w"
  from assms(1) obtain l a b c where
    l: "l = length a + length b + 4" "6 \<le> l" "l \<le> 20" "l \<le> length ?av" "rest = drop l ?av"
    and t: "take l ?av = byte_of l # c # a @ NUL # b @ [NUL]"
    and nz: "NUL \<notin> set a" "NUL \<notin> set b" "strtol (a @ [NUL]) = Some x" "strtol (b @ [NUL]) = Some y"
    by (rule dec_requestD)
  have room: "length ?buf = 20" using assms(2) by (simp add: MAX_FILE_ATTRS_LEN_def)
  let ?buf1 = "patched ?buf 0 (take 6 ?av)"
  let ?buf2 = "patched ?buf 0 (take l ?av)"
  have "take 6 (take l ?av) = take 6 ?av" using l by (simp add: min_def)
  then have first: "take 6 ?av = byte_of l # take 5 (c # a @ NUL # b @ [NUL])"
    unfolding t by (simp add: eval_nat_numeral)
  then have hd: "nat_of (?buf1 ! 0) = l" using l(3) by (simp add: patched_0)
  let ?w1 = "(consume s 6 w)\<lparr>d_request_buffer := ?buf1, d_request := (d_request w)\<lparr>fa_structure_len := of_nat l\<rparr>\<rparr>"
  have r1: "recv_bytes_wrapper 0 s 6 w = (Ret ?buf1, (consume s 6 w)\<lparr>d_request_buffer := ?buf1\<rparr>)"
    using room l by (subst recv_bytes_wrapper_ok) simp_all
  have n: "unat (word_of_int (int l - 6) :: u64) = l - 6"
    using l by (subst word_of_path_len) simp_all
  have av1: "avail s ?w1 = drop 6 ?av" using l by (simp add: avail_def consume_def)
  have "consume s (l - 6) (consume s 6 w) = consume s l w"
    using l(2,4) consume_consume [of 6 "l - 6" s w] by simp
  moreover have "consume s (l - 6) ?w1 = (consume s (l - 6) (consume s 6 w))
      \<lparr>d_request_buffer := ?buf1, d_request := (d_request w)\<lparr>fa_structure_len := of_nat l\<rparr>\<rparr>"
    by (cases w) (simp add: consume_def)
  ultimately have r2: "recv_bytes_wrapper 6 s (word_of_int (int l - 6)) ?w1 =
      (Ret ?buf2, (consume s l w)\<lparr>d_request_buffer := ?buf2, d_request := (d_request w)\<lparr>fa_structure_len := of_nat l\<rparr>\<rparr>)"
    using room l(2-4) n two_reads [of 6 l ?buf ?av]
    by (subst recv_bytes_wrapper_ok) (simp_all only: av1, simp_all)
  let ?tail = "drop l ?buf"
  have d2: "drop 2 ?buf2 = a @ NUL # b @ NUL # ?tail"
  proof -
    have "?buf2 = take l ?av @ ?tail" using l(4) by (simp add: patched_0 min_def)
    then show ?thesis unfolding t by (simp add: numeral_2_eq_2)
  qed
  have len: "length a \<le> MAX_FILE_ATTRS_LEN" "length b \<le> MAX_FILE_ATTRS_LEN"
    using l by (simp_all add: MAX_FILE_ATTRS_LEN_def)
  have parts: "strnlen (drop 2 ?buf2) MAX_FILE_ATTRS_LEN = Some (length a)"
    "strnlen (drop (length a + 1) (drop 2 ?buf2)) MAX_FILE_ATTRS_LEN = Some (length b)"
    "strtol (drop 2 ?buf2) = Some x" "strtol (drop (length a + 1) (drop 2 ?buf2)) = Some y"
    unfolding d2 using nz len strtol_NUL [of a "b @ NUL # ?tail"] strtol_NUL [of b ?tail]
    by (simp_all add: strnlen_string min_def)
  have u: "uint (of_nat l :: u8) = int l" "(of_nat l :: u8) \<noteq> 0"
    using l u8_numbers [of l] by simp_all
  have crc: "int l = int (length a) + int (length b) + 4" using l(1) by simp
  show ?thesis
    by (rule that [OF l(5,4,2,3)])
      (use l(2) parts u r2 crc in \<open>simp add: load_file_attrs_def bindM_def r1 hd Let_def MIN_FILE_ATTRS_LEN_def\<close>)
qed


end
