(* ===== verification/Daemon_Transfer.thy ===== *)
theory Daemon_Transfer
  imports Daemon_Request
begin

text \<open>
  Sending one request on to the server in \<^verbatim>\<open>src/client_daemon.c\<close>: \<open>create_dest_file_attrs\<close>,
  \<open>send_bytes_check_message\<close> and \<open>send_data\<close>.
\<close>

section \<open>create\_dest\_file\_attrs\<close>

definition ENOENT :: int where "ENOENT = 2"

definition os_stat64 :: "byte list \<Rightarrow> node option dmn" where
  "os_stat64 path w =
     (case d_fs w path of
        None \<Rightarrow> (Ret None, w\<lparr>errno := ENOENT\<rparr>)
      | Some nd \<Rightarrow> (Ret (Some nd), w))"

text \<open>\<^verbatim>\<open>st_buf\<close>: is it a directory, and the size; \<open>st0\<close> is what the uninitialised structure holds.
  After a failing \<^verbatim>\<open>stat64\<close> the code goes on with it.\<close>

definition st_buf :: "bool \<times> u64 \<Rightarrow> node option \<Rightarrow> bool \<times> u64" where
  "st_buf st0 nd =
     (case nd of None \<Rightarrow> st0 | Some Dir \<Rightarrow> (True, 0) | Some (File bs) \<Rightarrow> (False, of_nat (length bs)))"

definition create_dest_file_attrs :: "bool \<times> u64 \<Rightarrow> unit dmn" where
  "create_dest_file_attrs st0 =
     bindM (getM d_request) (\<lambda>fa.
     bindM (orUb (c_str (fa_source fa))) (\<lambda>source.
     bindM (os_stat64 source) (\<lambda>nd.
     bindM (whenM (nd = None)
        (bindM (d_log_error ''stat'') (\<lambda>_.
         bindM (getM d_client_socket) (\<lambda>sock.
         bindM d_strerror (\<lambda>e. send_message_wrapper sock (as_char ACK_ERROR) (cs e)))))) (\<lambda>_.
     bindM (modifyM (\<lambda>w. w\<lparr>d_attrs := (d_attrs w)\<lparr>path_len := fa_destination_path_len fa\<rparr>\<rparr>)) (\<lambda>_.
     let (is_dir, sz) = st_buf st0 nd in
     bindM (if is_dir
        then modifyM (\<lambda>w. w\<lparr>d_attrs := (d_attrs w)\<lparr>command := as_char MK_DIRECTORY, data_len := 0\<rparr>\<rparr>)
        else modifyM (\<lambda>w. w\<lparr>d_attrs := (d_attrs w)\<lparr>command := as_char MK_FILE, data_len := sz\<rparr>\<rparr>)) (\<lambda>_.
     bindM (getM (\<lambda>w. write_dest_header (d_attrs w) (d_header w))) (\<lambda>r.
     bindM (orUb r) (\<lambda>(da, header).
       modifyM (\<lambda>w. w\<lparr>d_attrs := da, d_header := header\<rparr>)))))))))"

section \<open>send\_bytes\_check\_message\<close>

text \<open>The result is the message flag and \<^verbatim>\<open>*sent_bytes\<close>.  The test \<^verbatim>\<open>n < 1\<close> is on an
  \<^verbatim>\<open>unsigned long long\<close>, so that a failing \<^verbatim>\<open>send\<close> adds -1 modulo \<open>2 ^ 64\<close>.\<close>

function scm_loop :: "byte list \<Rightarrow> fd \<Rightarrow> fd \<Rightarrow> fd \<Rightarrow> u64 \<Rightarrow> byte \<Rightarrow> u64 \<Rightarrow> (byte \<times> u64) dmn" where
  "scm_loop buffer write_socket server_read_socket client_read_socket bytes message_flag sent_bytes w =
     (if sent_bytes < bytes then
        (case os_select w of
           (Ret e, w1) \<Rightarrow>
             (if sel_write e then
                (case bindM (orUb (buf_read buffer (unat sent_bytes) (unat (bytes - sent_bytes))))
                    (os_send write_socket) w1 of
                   (Ret r, w2) \<Rightarrow>
                     (let n = (word_of_int r :: u64) in
                      if n < 1 \<and> errno w2 = EWOULDBLOCK
                        then scm_loop buffer write_socket server_read_socket client_read_socket bytes
                          message_flag sent_bytes w2
                      else if n < 1
                        then bindM (d_log_error ''send'') (\<lambda>_. failM (Throw SOCKET_CLOSED)) w2
                      else scm_loop buffer write_socket server_read_socket client_read_socket bytes
                          message_flag (sent_bytes + n) w2)
                 | (x, w2) \<Rightarrow> (recast x, w2))
              else if sel_server e then
                bindM (receive_message_wrapper server_read_socket message_flag) (\<lambda>flag. retM (flag, sent_bytes)) w1
              else if sel_client e then
                bindM (getM d_message) (\<lambda>message.
                bindM (receive_message client_read_socket message_flag message) (\<lambda>(r, flag, message).
                bindM (modifyM (\<lambda>w. w\<lparr>d_message := message\<rparr>)) (\<lambda>_.
                  if r = SOCKET_CLOSED then failM (Throw FORCED_SOCKET_CLOSED) else retM (flag, sent_bytes)))) w1
              else if sel_ret e = - 1 then
                bindM (d_log_error ''select'') (\<lambda>_. failM (Throw EXIT_FAILURE)) w1
              else scm_loop buffer write_socket server_read_socket client_read_socket bytes
                  message_flag sent_bytes w1)
         | (x, w1) \<Rightarrow> (recast x, w1))
      else (Ret (message_flag, sent_bytes), w))"
  by pat_completeness auto

lemma bindM_orUb_os_send_sel:
  "bindM (orUb x) (os_send s) w = (Ret r, w') \<Longrightarrow> sel_evs w' = sel_evs w"
  by (auto simp: bindM_eq_Ret orUb_def dest: os_send_sel_evs split: option.splits)

termination scm_loop
proof (relation "measure (\<lambda>(b, ws, ss, cl, bytes, flag, sent, w). length (sel_evs w))")
qed (auto dest!: sym [of "(_, _)" "os_select _"] sym [of "(_, _)" "bindM _ _ _"]
  os_select_sel_evs bindM_orUb_os_send_sel)

declare scm_loop.simps [simp del]

definition send_bytes_check_message ::
  "byte list \<Rightarrow> fd \<Rightarrow> fd \<Rightarrow> fd \<Rightarrow> u64 \<Rightarrow> byte \<Rightarrow> (byte \<times> u64) dmn" where
  "send_bytes_check_message buffer write_socket server_read_socket client_read_socket bytes message_flag =
     scm_loop buffer write_socket server_read_socket client_read_socket bytes message_flag 0"

section \<open>send\_data\<close>

text \<open>The locals \<^verbatim>\<open>message_flag\<close> and \<^verbatim>\<open>totall_sent_bytes\<close> go from block to block.\<close>

definition send_block :: "nat \<Rightarrow> byte \<times> u64 \<Rightarrow> (byte \<times> u64) dmn" where
  "send_block n l =
     bindM (getM d_data) (\<lambda>buffer.
     bindM (fread_wrapper buffer n) (\<lambda>buffer.
     bindM (modifyM (\<lambda>w. w\<lparr>d_data := buffer\<rparr>)) (\<lambda>_.
     bindM (getM d_data_socket) (\<lambda>data_sock.
     bindM (getM d_command_socket) (\<lambda>command_sock.
     bindM (getM d_client_socket) (\<lambda>client_sock.
     bindM (send_bytes_check_message buffer data_sock command_sock client_sock (of_nat n) (fst l)) (\<lambda>(flag, sent_bytes).
     let total = snd l + sent_bytes in
     if flag = as_char ACK_OK then retM (flag, total)
     else if flag = as_char ACK_ERROR then
       bindM (modifyM (\<lambda>w. w\<lparr>d_attrs := (d_attrs w)\<lparr>discard := total\<rparr>\<rparr>)) (\<lambda>_.
       bindM d_fclose (\<lambda>_. failM (Throw RECEIVED_BAD_ACK)))
     else if flag = as_char FORCED_SOCKET_CLOSED then
       bindM (getM d_message) (\<lambda>message.
       bindM (send_message_wrapper client_sock (as_char ACK_ERROR) message) (\<lambda>_.
       bindM d_fclose (\<lambda>_. failM (Throw FORCED_SOCKET_CLOSED))))
     else retM (flag, total))))))))"

fun send_blocks :: "nat \<Rightarrow> byte \<times> u64 \<Rightarrow> (byte \<times> u64) dmn" where
  "send_blocks 0 l = retM l"
| "send_blocks (Suc i) l = bindM (send_block BUFFERSIZE l) (send_blocks i)"

definition send_data :: "u64 \<Rightarrow> unit dmn" where
  "send_data len =
     (let remaining_bytes = unat (len mod of_nat BUFFERSIZE) in
      bindM (modifyM (\<lambda>w. w\<lparr>d_attrs := (d_attrs w)\<lparr>discard := 0\<rparr>\<rparr>)) (\<lambda>_.
      bindM (send_blocks (unat (len div of_nat BUFFERSIZE)) (as_char ACK_OK, 0)) (\<lambda>l.
      bindM (if remaining_bytes \<noteq> 0 then send_block remaining_bytes l else retM l) (\<lambda>_. retM ()))))"

end
