(* ===== verification/Daemon_Main.thy ===== *)
theory Daemon_Main
  imports Daemon_Transfer
begin

text \<open>
  The loop of \<open>main\<close> in \<^verbatim>\<open>src/client_daemon.c\<close>: one request, with the \<^verbatim>\<open>TRY\<close>/\<^verbatim>\<open>CATCH\<close> macros of
  \<^verbatim>\<open>src/libs/try_throw_catch.h\<close>.  An exception raised inside a handler goes back to the same
  \<^verbatim>\<open>setjmp\<close>, so that handlers run until one completes.
\<close>

section \<open>The request\<close>

definition put_source :: "byte list \<Rightarrow> daemon \<Rightarrow> daemon" where
  "put_source p w = w\<lparr>d_request := (d_request w)\<lparr>fa_source := p\<rparr>\<rparr>"

definition put_destination :: "byte list \<Rightarrow> daemon \<Rightarrow> daemon" where
  "put_destination p w = w\<lparr>d_request := (d_request w)\<lparr>fa_destination := p\<rparr>\<rparr>"

definition load_request :: "bool \<times> u64 \<Rightarrow> unit dmn" where
  "load_request st0 =
     bindM (getM d_client_socket) (\<lambda>sock.
     bindM (load_file_attrs sock) (\<lambda>_.
     bindM (getM d_request) (\<lambda>fa.
     bindM (load_path_wrapper (fa_source_path_len fa) sock (fa_source fa) put_source) (\<lambda>_.
     bindM (load_path_wrapper (fa_destination_path_len fa) sock (fa_destination fa) put_destination) (\<lambda>_.
       create_dest_file_attrs st0)))))"

section \<open>The transfer\<close>

text \<open>\<^verbatim>\<open>fopen(path, "rb")\<close>: is there a file now?\<close>

definition os_fopen_rb :: "byte list \<Rightarrow> bool dmn" where
  "os_fopen_rb path w =
     (case d_fopen_evs w of
        Some e # es \<Rightarrow> (Ret False, w\<lparr>d_fopen_evs := es, errno := e, d_file := Null\<rparr>)
      | evs \<Rightarrow>
          (case d_fs w path of
             None \<Rightarrow> (Ret False, w\<lparr>d_fopen_evs := tl evs, errno := ENOENT, d_file := Null\<rparr>)
           | Some nd \<Rightarrow> (Ret True, w\<lparr>d_fopen_evs := tl evs,
               d_file := Open (case nd of File bs \<Rightarrow> bs | Dir \<Rightarrow> [])\<rparr>)))"

definition send_request :: "unit dmn" where
  "send_request =
     bindM (getM d_attrs) (\<lambda>da.
     bindM (getM d_header) (\<lambda>header.
     bindM (getM d_request) (\<lambda>fa.
     bindM (getM d_command_socket) (\<lambda>command_sock.
     bindM (getM d_data_socket) (\<lambda>data_sock.
     bindM (send_wrapper command_sock header (unat (structure_len da))) (\<lambda>_.
       send_path_wrapper (fa_destination fa) data_sock (path_len da)))))))"

definition transfer_file :: "unit dmn" where
  "transfer_file =
     bindM (getM d_request) (\<lambda>fa.
     bindM (orUb (c_str (fa_source fa))) (\<lambda>source.
     bindM (os_fopen_rb source) (\<lambda>opened.
     if \<not> opened then
       bindM (getM d_client_socket) (\<lambda>sock.
       bindM d_strerror (\<lambda>e.
       bindM (send_message_wrapper sock (as_char ACK_ERROR) (cs e)) (\<lambda>_.
       bindM (d_log_error ''fopen'') (\<lambda>_. failM (Throw FILE_ERROR)))))
     else
       bindM send_request (\<lambda>_.
       bindM (getM d_attrs) (\<lambda>da.
       bindM (send_data (data_len da)) (\<lambda>_. d_fclose))))))"

definition await_answer :: "unit dmn" where
  "await_answer =
     bindM (getM d_command_socket) (\<lambda>command_sock.
     bindM (getM d_flag) (\<lambda>flag.
     bindM (receive_message_wrapper command_sock flag) (\<lambda>flag.
     bindM (modifyM (\<lambda>w. w\<lparr>d_flag := flag\<rparr>)) (\<lambda>_.
     bindM (getM d_client_socket) (\<lambda>client_sock.
     bindM (getM d_message) (\<lambda>message.
     if flag = as_char ACK_ERROR then
       bindM (modifyM (\<lambda>w. w\<lparr>d_attrs := (d_attrs w)\<lparr>discard := data_len (d_attrs w)\<rparr>\<rparr>)) (\<lambda>_.
         failM (Throw RECEIVED_BAD_ACK))
     else if flag = as_char FORCED_SOCKET_CLOSED then
       bindM (send_message_wrapper client_sock (as_char ACK_ERROR) message) (\<lambda>_.
         failM (Throw FORCED_SOCKET_CLOSED))
     else
       bindM (send_message_wrapper client_sock flag message) (\<lambda>_. os_close client_sock)))))))"

definition try_body :: "bool \<times> u64 \<Rightarrow> unit dmn" where
  "try_body st0 =
     bindM (getM d_resend) (\<lambda>resend.
     bindM (if \<not> resend then load_request st0 else modifyM (\<lambda>w. w\<lparr>d_resend := False\<rparr>)) (\<lambda>_.
     bindM (getM d_attrs) (\<lambda>da.
     bindM (if command da = as_char MK_FILE then transfer_file else send_request) (\<lambda>_.
       await_answer))))"

section \<open>The handlers\<close>

definition close_client :: "unit dmn" where
  "close_client = bindM (getM d_client_socket) os_close"

definition catch :: "byte list \<Rightarrow> int \<Rightarrow> unit dmn" where
  "catch server_addr x =
     (if x = FILE_ERROR then bindM (d_log (''FILE_ERROR'' @ [NL])) (\<lambda>_. close_client)
      else if x = RECEIVED_BAD_ACK then
        bindM (getM d_message) (\<lambda>message.
        bindM (orUb (c_str message)) (\<lambda>t.
        bindM (d_log (''Message from server: '' @ t @ [NL])) (\<lambda>_.
        bindM (getM d_client_socket) (\<lambda>sock.
        bindM (send_message_wrapper sock (as_char ACK_ERROR) message) (\<lambda>_. close_client)))))
      else if x = SOCKET_CLOSED then
        bindM (modifyM (\<lambda>w. w\<lparr>d_attrs := (d_attrs w)\<lparr>discard := 0\<rparr>\<rparr>)) (\<lambda>_.
        bindM (modifyM (\<lambda>w. w\<lparr>d_resend := True\<rparr>)) (\<lambda>_. restart_connection server_addr))
      else if x = FORCED_SOCKET_CLOSED then
        bindM (modifyM (\<lambda>w. w\<lparr>d_resend := False\<rparr>)) (\<lambda>_.
        bindM close_client (\<lambda>_. restart_connection server_addr))
      else if x = PROTOCOL_ERROR then bindM (d_log (''PROTOCOL ERROR'' @ [NL])) (\<lambda>_. close_client)
      else if x = BAD_AUTH then bindM (d_log (''BAD_AUTH'' @ [NL])) (\<lambda>_. failM (Exit EXIT_FAILURE))
      else if x = EXIT_FAILURE then
        bindM (d_log (''EXIT_FAILURE'' @ [NL])) (\<lambda>_.
        bindM (getM d_file) (\<lambda>file.
        bindM (whenM (file \<noteq> Null) d_fclose) (\<lambda>_.
        bindM dmn_dealloc (\<lambda>_. failM (Exit EXIT_FAILURE)))))
      else retM ())"

text \<open>Only two kinds of handler can raise again: the one that passes on a refusal, to close the
  connection for good, and the reconnecting ones, after asking for a socket.\<close>

definition few_sockets :: "nat \<Rightarrow> daemon \<Rightarrow> bool" where
  "few_sockets n w \<longleftrightarrow> length (socket_evs w) \<le> n"

lemma send_message_sockets:
  "send_message s f m w = (r, w') \<Longrightarrow> socket_evs w' = socket_evs w"
  by (auto dest!: send_message_frame)

lemma receive_message_sockets:
  "receive_message s f m w = (r, w') \<Longrightarrow> socket_evs w' = socket_evs w"
  by (auto dest!: receive_message_frame)

lemma client_connect_pops:
  "client_connect w = (r, w') \<Longrightarrow> r = Block \<or> length (socket_evs w') < length (socket_evs w)"
  by (auto simp: client_connect_def os_socket_def os_connect_def d_log_error_def d_strerror_def
      d_log_def send_message_wrapper_def bindM_def dest!: send_message_sockets
      split: list.splits option.splits if_splits prod.splits result.splits)

lemma dmn_authenticate_sockets: "dmn_authenticate w = (r, w') \<Longrightarrow> socket_evs w' = socket_evs w"
  by (auto simp: dmn_authenticate_def receive_message_wrapper_def d_log_def bindM_def
      dest!: send_message_sockets receive_message_sockets
      split: list.splits option.splits if_splits prod.splits result.splits)

lemma connect_both_pops:
  assumes "connect_both w = (r, w')"
  shows "r = Block \<or> length (socket_evs w') < length (socket_evs w)"
proof -
  obtain r1 w1 where 1: "client_connect w = (r1, w1)" by fastforce
  show ?thesis
  proof (cases "\<exists>s. r1 = Ret s")
    case True
    then obtain s where s: "r1 = Ret s" by blast
    obtain r2 w2 where 2: "client_connect (w1\<lparr>d_command_socket := s\<rparr>) = (r2, w2)" by fastforce
    have "r2 = Block \<or> length (socket_evs w2) < length (socket_evs w1)"
      using client_connect_pops [OF 2] by simp
    moreover have "length (socket_evs w1) < length (socket_evs w)"
      using client_connect_pops [OF 1] s by simp
    ultimately show ?thesis using assms 1 2 s
      by (cases r2) (auto simp: connect_both_def bindM_def)
  next
    case False
    then show ?thesis using assms 1 client_connect_pops [OF 1]
      by (cases r1) (auto simp: connect_both_def bindM_def)
  qed
qed

lemma retry_pops:
  assumes "retry a w = (r, w')"
  shows "r = Block \<or> length (socket_evs w') < length (socket_evs w)"
  using assms connect_both_pops [of "w\<lparr>d_logfile := d_logfile w @ ''Still trying to connect to the server '' @ a @ [NL]\<rparr>" r w']
  by (simp add: retry_def d_log_def bindM_def)

lemma reconnect_loop_sockets:
  "reconnect_loop a w = (r, w') \<Longrightarrow> r = Block \<or> length (socket_evs w') \<le> length (socket_evs w)"
proof (induction a w arbitrary: r w' rule: reconnect_loop.induct)
  case (1 a w)
  show ?case
  proof (cases "d_command_socket w = - 1 \<or> d_data_socket w = - 1")
    case False
    with "1.prems" show ?thesis by (simp add: reconnect_loop.simps [of a w])
  next
    case again: True
    obtain x v where v: "retry a w = (x, v)" by fastforce
    note pops = retry_pops [OF v]
    show ?thesis
    proof (cases "\<exists>u. x = Ret u")
      case True
      then obtain u where u: "x = Ret u" by blast
      then have "reconnect_loop a v = (r, w')"
        using "1.prems" again v by (simp add: reconnect_loop.simps [of a w])
      from "1.IH" [OF again v [symmetric] u this] pops u show ?thesis by auto
    next
      case False
      with v pops "1.prems" again show ?thesis by (cases x) (auto simp: reconnect_loop.simps [of a w])
    qed
  qed
qed

lemma restart_connection_throws:
  assumes "restart_connection a w = (Throw e, w')"
  shows "length (socket_evs w') < length (socket_evs w)"
proof -
  let ?rest = "bindM connect_both (\<lambda>_. bindM (reconnect_loop a) (\<lambda>_. bindM dmn_authenticate (\<lambda>r.
     if r \<noteq> EXIT_SUCCESS then failM (Exit EXIT_FAILURE) else retM ())))"
  obtain v where v: "?rest v = (Throw e, w')" "socket_evs v = socket_evs w"
    using assms
    by (auto simp: restart_connection_def d_log_def os_gethostbyname_def d_log_error_def d_strerror_def
        os_close_def bindM_def split: list.splits if_splits)
  obtain r1 w1 where 1: "connect_both v = (r1, w1)" by fastforce
  note pops = connect_both_pops [OF 1]
  show ?thesis
  proof (cases "\<exists>u. r1 = Ret u")
    case False
    then show ?thesis using v 1 pops by (cases r1) (auto simp: bindM_def)
  next
    case True
    then have rest: "bindM (reconnect_loop a) (\<lambda>_. bindM dmn_authenticate (\<lambda>r.
        if r \<noteq> EXIT_SUCCESS then failM (Exit EXIT_FAILURE) else retM ())) w1 = (Throw e, w')"
      using v(1) 1 by (auto simp: bindM_def)
    obtain r2 w2 where 2: "reconnect_loop a w1 = (r2, w2)" by fastforce
    have "r2 \<noteq> Block" using rest 2 by (auto simp: bindM_def)
    then have le: "length (socket_evs w2) \<le> length (socket_evs w1)" using reconnect_loop_sockets [OF 2] by simp
    have "socket_evs w' = socket_evs w2"
      using rest 2 by (cases r2) (auto simp: bindM_def dest!: dmn_authenticate_sockets
          split: prod.splits result.splits if_splits)
    then show ?thesis using le pops True v(2) by auto
  qed
qed

lemma send_message_no_throw [simp]: "send_message s f m w \<noteq> (Throw e, w')"
  by (auto simp: send_message_def bindM_def orUb_def os_send_def
      split: option.splits result.splits prod.splits list.splits snd_ev.splits if_splits)

text \<open>The measure of the exception being handled.\<close>

definition pending :: "int \<Rightarrow> daemon \<Rightarrow> nat" where
  "pending x w = 2 * length (socket_evs w) + (if x = RECEIVED_BAD_ACK then 1 else 0)"

lemma catch_throws:
  assumes "catch a x w = (Throw y, w')"
  shows "pending y w' < pending x w"
proof -
  have "(x = RECEIVED_BAD_ACK \<and> y = FORCED_SOCKET_CLOSED \<and> socket_evs w' = socket_evs w) \<or>
    (\<exists>v. restart_connection a v = (Throw y, w') \<and> socket_evs v = socket_evs w)"
    using assms
    by (auto simp: catch_def d_log_def close_client_def os_close_def bindM_def send_message_wrapper_def
        orUb_def whenM_def d_fclose_def dmn_dealloc_def dest!: send_message_sockets
        split: prod.splits result.splits if_splits option.splits handle.splits)
  then show ?thesis
    using restart_connection_throws [of a _ y w'] by (fastforce simp: pending_def return_codes)
qed

function run_handlers :: "byte list \<Rightarrow> int \<Rightarrow> unit dmn" where
  "run_handlers server_addr x w =
     (case catch server_addr x w of
        (Throw y, w') \<Rightarrow> run_handlers server_addr y w'
      | r \<Rightarrow> r)"
  by pat_completeness auto

termination run_handlers
proof (relation "measure (\<lambda>(a, x, w). pending x w)")
qed (auto dest!: sym [of "(_, _)" "catch _ _ _"] catch_throws)

declare run_handlers.simps [simp del]

section \<open>The loop\<close>

definition os_accept_client :: "fd dmn" where
  "os_accept_client w =
     (case d_accepts w of [] \<Rightarrow> (Block, w) | s # ss \<Rightarrow> (Ret s, w\<lparr>d_accepts := ss\<rparr>))"

definition accept_request :: "unit dmn" where
  "accept_request =
     bindM (getM d_resend) (\<lambda>resend.
     if resend then retM ()
     else
       bindM os_accept_client (\<lambda>s.
       bindM (modifyM (\<lambda>w. w\<lparr>d_client_socket := s\<rparr>)) (\<lambda>_.
       if s = - 1 then failM (Exit EXIT_FAILURE) else retM ())))"

definition dmn_round :: "byte list \<Rightarrow> bool \<times> u64 \<Rightarrow> unit dmn" where
  "dmn_round server_addr st0 =
     bindM (modifyM (\<lambda>w. w\<lparr>d_flag := as_char ACK_OK\<rparr>)) (\<lambda>_.
     bindM accept_request (\<lambda>_ w.
       (case try_body st0 w of
          (Throw x, w') \<Rightarrow> run_handlers server_addr x w'
        | r \<Rightarrow> r)))"

end
