(* ===== verification/Daemon_Serves.thy ===== *)
theory Daemon_Serves
  imports Daemon_Main
begin

text \<open>
  What the daemon does with a request on a working network: the header, the path and the bytes of
  the file go out, whatever pieces \<^verbatim>\<open>send\<close> takes them in; the answer decides what happens next.
\<close>

section \<open>Sending on a working socket\<close>

definition sent_on :: "fd \<Rightarrow> byte list \<Rightarrow> nat \<Rightarrow> 'z net_scheme \<Rightarrow> 'z net_scheme \<Rightarrow> bool" where
  "sent_on s bs k w w' \<longleftrightarrow> (\<exists>j.
     w' = w\<lparr>tx := (tx w)(s := tx w s @ bs), snd_evs := drop j (snd_evs w), sel_evs := drop k (sel_evs w)\<rparr>)"

lemma sent_on_trans: "sent_on s bs j w v \<Longrightarrow> sent_on s ds k v u \<Longrightarrow> sent_on s (bs @ ds) (j + k) w u"
  by (auto simp: sent_on_def add.commute)

lemma os_send_some:
  assumes "list_all takes_some (snd_evs w)" and "bs \<noteq> []"
  shows "\<exists>k j. os_send s bs w =
      (Ret (int k), w\<lparr>tx := (tx w)(s := tx w s @ take k bs), snd_evs := drop j (snd_evs w)\<rparr>) \<and>
    0 < k \<and> k \<le> length bs"
proof (cases "snd_evs w")
  case Nil
  then show ?thesis using assms
    by (intro exI [of _ "length bs"]) (cases w, simp add: os_send_def)
next
  case (Cons e es)
  with assms(1) obtain k where "e = SOk k" "0 < k" by (cases e) auto
  with Cons assms show ?thesis
    by (intro exI [of _ "min k (length bs)"] exI [of _ 1]) (simp add: os_send_def)
qed

lemma scm_loop_round:
  assumes "sent_bytes < bytes" and "sel_evs w = e # es" and "sel_write e" and "unat bytes \<le> length buf"
    and "os_send ws (take (unat (bytes - sent_bytes)) (drop (unat sent_bytes) buf)) (w\<lparr>sel_evs := es\<rparr>) = (Ret r, w2)"
  shows "scm_loop buf ws ss cl bytes flag sent_bytes w =
    (let n = (word_of_int r :: u64) in
     if n < 1 \<and> errno w2 = EWOULDBLOCK then scm_loop buf ws ss cl bytes flag sent_bytes w2
     else if n < 1 then bindM (d_log_error ''send'') (\<lambda>_. failM (Throw SOCKET_CLOSED)) w2
     else scm_loop buf ws ss cl bytes flag (sent_bytes + n) w2)"
proof -
  have "unat sent_bytes + unat (bytes - sent_bytes) \<le> length buf"
    using assms(1,4) by (simp add: unat_minus_le word_less_nat_alt word_le_nat_alt)
  then show ?thesis
    using assms by (subst scm_loop.simps) (simp add: os_select_def buf_read_Some bindM_def)
qed

lemma scm_loop_live:
  assumes "sent_bytes \<le> bytes" and "unat bytes \<le> length buf"
    and "list_all takes_some (snd_evs w)" and "list_all sel_write (sel_evs w)"
    and "unat (bytes - sent_bytes) \<le> length (sel_evs w)"
  shows "\<exists>k w'. k \<le> unat (bytes - sent_bytes) \<and>
    scm_loop buf ws ss cl bytes flag sent_bytes w = (Ret (flag, bytes), w') \<and>
    sent_on ws (take (unat (bytes - sent_bytes)) (drop (unat sent_bytes) buf)) k w w'"
  using assms
proof (induction "unat (bytes - sent_bytes)" arbitrary: sent_bytes w rule: less_induct)
  case less
  show ?case
  proof (cases "sent_bytes = bytes")
    case True
    then show ?thesis using less.prems(3)
      by (auto simp: scm_loop.simps [of buf] sent_on_def intro!: exI [of _ 0])
  next
    case False
    with less.prems(1) have lt: "sent_bytes < bytes" by simp
    let ?m = "unat (bytes - sent_bytes)"
    let ?rest = "take ?m (drop (unat sent_bytes) buf)"
    have m: "0 < ?m" using lt by (simp add: unat_gt_0)
    with less.prems(5) obtain e es where ev: "sel_evs w = e # es" by (cases "sel_evs w") auto
    have len: "length ?rest = ?m"
      using less.prems(2) lt by (simp add: unat_minus_le word_less_nat_alt word_le_nat_alt)
    then have "?rest \<noteq> []" using m by (metis list.size(3) less_numeral_extra(3))
    then obtain k i where snd: "os_send ws ?rest (w\<lparr>sel_evs := es\<rparr>) =
        (Ret (int k), w\<lparr>sel_evs := es, tx := (tx w)(ws := tx w ws @ take k ?rest), snd_evs := drop i (snd_evs w)\<rparr>)"
      and k: "0 < k" "k \<le> ?m"
      using os_send_some [of "w\<lparr>sel_evs := es\<rparr>" ?rest ws] less.prems(3) len by auto
    let ?v = "w\<lparr>sel_evs := es, tx := (tx w)(ws := tx w ws @ take k ?rest), snd_evs := drop i (snd_evs w)\<rparr>"
    let ?sent = "sent_bytes + word_of_int (int k) :: u64"
    note adv = counter_advance [OF lt k(2)]
    have "(word_of_int (int k) :: u64) \<noteq> 0" using k word_of_int_count_0 [OF k(2)] by auto
    then have step: "scm_loop buf ws ss cl bytes flag sent_bytes w = scm_loop buf ws ss cl bytes flag ?sent ?v"
      using scm_loop_round [OF lt ev _ less.prems(2) snd] less.prems(4) ev by (simp add: word_less_1)
    have first: "sent_on ws (take k ?rest) 1 w ?v"
      unfolding sent_on_def using ev by (intro exI [of _ i]) simp
    have "\<exists>j w'. j \<le> unat (bytes - ?sent) \<and> scm_loop buf ws ss cl bytes flag ?sent ?v = (Ret (flag, bytes), w') \<and>
        sent_on ws (take (unat (bytes - ?sent)) (drop (unat ?sent) buf)) j ?v w'"
      by (rule less.hyps) (use adv k less.prems ev in \<open>auto simp: list_all_drop\<close>)
    then obtain j w' where j: "j \<le> ?m - k" "scm_loop buf ws ss cl bytes flag ?sent ?v = (Ret (flag, bytes), w')"
      and rest: "sent_on ws (take (?m - k) (drop (unat sent_bytes + k) buf)) j ?v w'"
      unfolding adv by blast
    from sent_on_trans [OF first rest] have "sent_on ws ?rest (1 + j) w w'"
      by (simp only: take_rest [OF k(2)])
    then show ?thesis using step j k by (intro exI [of _ "1 + j"] exI [of _ w']) auto
  qed
qed

section \<open>send\_data\<close>

definition unread :: "daemon \<Rightarrow> byte list" where
  "unread w = (case d_file w of Open rest \<Rightarrow> rest | _ \<Rightarrow> [])"

definition can_send :: "fd \<Rightarrow> daemon \<Rightarrow> bool" where
  "can_send s w \<longleftrightarrow> (\<exists>rest. d_file w = Open rest) \<and> length (d_data w) = BUFFERSIZE \<and>
     d_fread_evs w = [] \<and> d_data_socket w = s \<and> list_all takes_some (snd_evs w) \<and>
     list_all sel_write (sel_evs w) \<and> length (unread w) \<le> length (sel_evs w)"

text \<open>\<open>n\<close> bytes of the file have gone to the data socket.\<close>

definition file_sent :: "fd \<Rightarrow> nat \<Rightarrow> daemon \<Rightarrow> daemon \<Rightarrow> bool" where
  "file_sent s n w w' \<longleftrightarrow> (\<exists>k j buf. k \<le> n \<and> length buf = BUFFERSIZE \<and>
     w' = w\<lparr>tx := (tx w)(s := tx w s @ take n (unread w)), snd_evs := drop j (snd_evs w), sel_evs := drop k (sel_evs w),
       d_data := buf, d_file := Open (drop n (unread w))\<rparr>)"

lemma fread_wrapper_run:
  assumes "d_file w = Open rest" and "d_fread_evs w = []" and "n \<le> length buf" and "n \<le> length rest"
  shows "fread_wrapper buf n w = (Ret (patched buf 0 (take n rest)), w\<lparr>d_file := Open (drop n rest)\<rparr>)"
proof -
  have "buf_write buf 0 (take n rest) = Some (patched buf 0 (take n rest))"
    using assms(3,4) by (intro buf_write_Some) simp
  moreover have "w\<lparr>d_fread_evs := []\<rparr> = w" using assms(2) by (cases w) simp
  ultimately show ?thesis
    using assms by (cases w) (simp add: fread_wrapper_def os_fread_def bindM_def)
qed

lemma send_block_run:
  assumes good: "can_send s w" and n: "n \<le> BUFFERSIZE" "n \<le> length (unread w)" and l: "fst l = as_char ACK_OK"
  shows "\<exists>l' w'. fst l' = as_char ACK_OK \<and> send_block n l w = (Ret l', w') \<and> file_sent s n w w'"
proof -
  from good obtain rest where f: "d_file w = Open rest" "unread w = rest" by (auto simp: can_send_def unread_def)
  let ?buf = "patched (d_data w) 0 (take n rest)"
  let ?v = "w\<lparr>d_file := Open (drop n rest), d_data := ?buf\<rparr>"
  have len: "length ?buf = BUFFERSIZE" using good n f by (simp add: can_send_def)
  have rd: "fread_wrapper (d_data w) n w = (Ret ?buf, w\<lparr>d_file := Open (drop n rest)\<rparr>)"
    using good n f by (intro fread_wrapper_run) (simp_all add: can_send_def)
  have un: "unat (of_nat n :: u64) = n" using n(1) by (rule unat_block)
  have "\<exists>k w'. k \<le> unat (of_nat n - 0 :: u64) \<and>
    scm_loop ?buf s (d_command_socket w) (d_client_socket w) (of_nat n) (fst l) 0 ?v = (Ret (fst l, of_nat n), w') \<and>
    sent_on s (take (unat (of_nat n - 0 :: u64)) (drop (unat (0 :: u64)) ?buf)) k ?v w'"
    by (rule scm_loop_live) (use good n f len un in \<open>auto simp: can_send_def\<close>)
  then obtain k w' where k: "k \<le> n" and
    run: "scm_loop ?buf s (d_command_socket w) (d_client_socket w) (of_nat n) (fst l) 0 ?v = (Ret (fst l, of_nat n), w')"
    and snt: "sent_on s (take n ?buf) k ?v w'"
    using un by auto
  have "take n ?buf = take n rest" using n f by (simp add: patched_0)
  with snt obtain j where es:
    "w' = ?v\<lparr>tx := (tx w)(s := tx w s @ take n rest), snd_evs := drop j (snd_evs w), sel_evs := drop k (sel_evs w)\<rparr>"
    by (auto simp: sent_on_def)
  have "w' = w\<lparr>tx := (tx w)(s := tx w s @ take n (unread w)), snd_evs := drop j (snd_evs w), sel_evs := drop k (sel_evs w),
       d_data := ?buf, d_file := Open (drop n (unread w))\<rparr>"
    unfolding es f(2) by (cases w) simp
  then have "file_sent s n w w'" unfolding file_sent_def using k len by blast
  moreover have "d_data_socket w = s" using good by (simp add: can_send_def)
  then have "send_block n l w = (Ret (as_char ACK_OK, snd l + of_nat n), w')"
    using rd run l by (simp add: send_block_def bindM_def send_bytes_check_message_def Let_def)
  ultimately show ?thesis by (intro exI [of _ "(as_char ACK_OK, snd l + of_nat n)"]) auto
qed

lemma file_sent_trans:
  assumes "file_sent s m w v" and "file_sent s n v u"
  shows "file_sent s (m + n) w u"
proof -
  from assms(1) obtain k i buf where "k \<le> m" "v = w\<lparr>tx := (tx w)(s := tx w s @ take m (unread w)),
      snd_evs := drop i (snd_evs w), sel_evs := drop k (sel_evs w), d_data := buf, d_file := Open (drop m (unread w))\<rparr>"
    by (auto simp: file_sent_def)
  moreover from assms(2) obtain k' i' buf' where "k' \<le> n" "length buf' = BUFFERSIZE"
    "u = v\<lparr>tx := (tx v)(s := tx v s @ take n (unread v)), snd_evs := drop i' (snd_evs v),
      sel_evs := drop k' (sel_evs v), d_data := buf', d_file := Open (drop n (unread v))\<rparr>"
    by (auto simp: file_sent_def)
  ultimately show ?thesis
    unfolding file_sent_def
    by (intro exI [of _ "k + k'"] exI [of _ "i + i'"] exI [of _ buf'])
      (simp add: unread_def take_add add.commute)
qed

interpretation sending: chunked_loop send_blocks send_block "\<lambda>l. fst l = as_char ACK_OK" "can_send s" unread "file_sent s"
  for s
proof unfold_locales
  fix w :: daemon and n and l :: "byte \<times> u64"
  assume "can_send s w" "n \<le> BUFFERSIZE" "fst l = as_char ACK_OK" "n \<le> length (unread w)"
  then show "\<exists>l' w'. fst l' = as_char ACK_OK \<and> send_block n l w = (Ret l', w') \<and> file_sent s n w w'"
    by (blast intro: send_block_run)
next
  fix w w' :: daemon and n
  assume "can_send s w" "file_sent s n w w'" "n \<le> length (unread w)"
  then show "can_send s w' \<and> unread w' = drop n (unread w)"
    by (auto simp: can_send_def file_sent_def unread_def list_all_drop)
next
  fix w v u :: daemon and m n
  assume "file_sent s m w v" "file_sent s n v u"
  then show "file_sent s (m + n) w u" by (rule file_sent_trans)
next
  fix w :: daemon
  assume "can_send s w"
  then show "file_sent s 0 w w"
    unfolding file_sent_def
    by (intro exI [of _ 0] exI [of _ "d_data w"])
      (cases w, auto simp: can_send_def unread_def)
qed (simp_all add: bindM_def)

lemma send_data_whole:
  "send_data len w = bindM (sending.whole len (as_char ACK_OK, 0)) (\<lambda>_. retM ())
     (w\<lparr>d_attrs := (d_attrs w)\<lparr>discard := 0\<rparr>\<rparr>)"
  by (simp add: send_data_def sending.whole_def Let_def bindM_assoc)

lemma send_data_run:
  assumes "can_send s w" and "unat len \<le> length (unread w)"
  shows "\<exists>w'. send_data len w = (Ret (), w') \<and>
    file_sent s (unat len) (w\<lparr>d_attrs := (d_attrs w)\<lparr>discard := 0\<rparr>\<rparr>) w'"
proof -
  let ?w = "w\<lparr>d_attrs := (d_attrs w)\<lparr>discard := 0\<rparr>\<rparr>"
  have "can_send s ?w" "unat len \<le> length (unread ?w)" using assms by (simp_all add: can_send_def unread_def)
  from sending.whole_ok [OF this(1) _ this(2), of "(as_char ACK_OK, 0)"] show ?thesis
    by (auto simp: send_data_whole bindM_def)
qed

section \<open>Taking the request\<close>

lemma load_path_wrapper_run:
  assumes "length p + 1 \<le> PATH_MAX" and "length path = PATH_MAX" and "avail s w = p @ NUL # rest"
  shows "load_path_wrapper (int (length p) + 1) s path put w =
    (Ret (), put (patched path 0 (p @ [NUL])) (consume s (length p + 1) w))"
proof -
  have n: "nat (int (length p) + 1) = length p + 1" by linarith
  have "load_path (int (length p) + 1) s path 0 w =
      (Ret (EXIT_SUCCESS, patched path 0 (p @ [NUL])), consume s (length p + 1) w)"
    using assms by (subst load_path_ok) (simp_all add: n)
  then show ?thesis by (simp add: load_path_wrapper_def bindM_def)
qed

text \<open>\<open>main\<close>'s variables after the request is in and the header is made; the header array says
  \<open>x\<close> bytes are to be discarded, whatever the variable \<open>discard\<close> holds by now.\<close>

definition prepared :: "byte list \<Rightarrow> byte list \<Rightarrow> node \<Rightarrow> u64 \<Rightarrow> file_attrs \<Rightarrow> dest_file_attrs \<Rightarrow> byte list \<Rightarrow> bool" where
  "prepared s d nd x fa da header \<longleftrightarrow>
     c_str (fa_source fa) = Some s \<and> length (fa_source fa) = PATH_MAX \<and>
     take (length d + 1) (fa_destination fa) = d @ [NUL] \<and> length (fa_destination fa) = PATH_MAX \<and>
     header_of (da\<lparr>discard := x\<rparr>) = announced nd d x \<and> unat (structure_len da) = header_len (announced nd d x) \<and>
     take (header_len (announced nd d x)) header = enc_transfer (announced nd d x) \<and>
     length header = MAX_HEADER_LEN"

lemma create_dest_file_attrs_run:
  assumes fa: "c_str (fa_source (d_request w)) = Some s" "fa_destination_path_len (d_request w) = int (length d) + 1"
    and nd: "d_fs w s = Some nd" and v: "valid_transfer (announced nd d (discard (d_attrs w)))"
    and len: "length (d_header w) = MAX_HEADER_LEN"
  shows "\<exists>da h. create_dest_file_attrs st0 w = (Ret (), w\<lparr>d_attrs := da, d_header := h\<rparr>) \<and>
    length h = MAX_HEADER_LEN \<and> header_of da = announced nd d (discard (d_attrs w)) \<and>
    unat (structure_len da) = header_len (announced nd d (discard (d_attrs w))) \<and>
    take (header_len (announced nd d (discard (d_attrs w)))) h = enc_transfer (announced nd d (discard (d_attrs w)))"
proof -
  let ?t = "announced nd d (discard (d_attrs w))"
  let ?da = "(d_attrs w)\<lparr>path_len := int (length d) + 1, command := node_command nd,
    data_len := of_nat (length (node_bytes nd))\<rparr>"
  have t: "header_of ?da = ?t" by (simp add: header_of_def announced_def)
  have hl: "header_len ?t \<le> MAX_HEADER_LEN" using v by (simp add: valid_transfer_def)
  let ?da' = "?da\<lparr>structure_len := of_nat (header_len ?t)\<rparr>"
  have "write_dest_header ?da (d_header w) = Some (?da', patched (d_header w) 0 (enc_transfer ?t))"
    using write_dest_header_spec [OF len, of ?da] t v hl by (simp add: valid_transfer_def announced_def)
  moreover have "st_buf st0 (Some nd) = (nd = Dir, of_nat (length (node_bytes nd)))"
    by (cases nd) (simp_all add: st_buf_def node_bytes_def)
  moreover have "(nd = Dir \<longrightarrow> node_command nd = as_char MK_DIRECTORY \<and> node_bytes nd = []) \<and>
      (nd \<noteq> Dir \<longrightarrow> node_command nd = as_char MK_FILE)"
    by (cases nd) (simp_all add: node_command_def node_bytes_def)
  ultimately have "create_dest_file_attrs st0 w =
      (Ret (), w\<lparr>d_attrs := ?da', d_header := patched (d_header w) 0 (enc_transfer ?t)\<rparr>)"
    using fa nd by (cases "nd = Dir") (auto simp: create_dest_file_attrs_def bindM_def os_stat64_def Let_def)
  moreover have "unat (structure_len ?da') = header_len ?t"
    using hl by (simp add: MAX_HEADER_LEN_def u8_of_nat)
  moreover have "header_of ?da' = ?t" using t by (simp add: header_of_def)
  moreover have "length (patched (d_header w) 0 (enc_transfer ?t)) = MAX_HEADER_LEN"
    "take (header_len ?t) (patched (d_header w) 0 (enc_transfer ?t)) = enc_transfer ?t"
    using hl len by (simp_all add: patched_0)
  ultimately show ?thesis by blast
qed

lemma load_request_run:
  assumes cl: "d_client_socket w = cl" and av: "avail cl w = request_bytes s d @ rest"
    and path: "NUL \<notin> set s" "NUL \<notin> set d" "length s < PATH_MAX" "length d < PATH_MAX"
    and len: "length (d_request_buffer w) = MAX_FILE_ATTRS_LEN" "length (fa_source (d_request w)) = PATH_MAX"
      "length (fa_destination (d_request w)) = PATH_MAX" "length (d_header w) = MAX_HEADER_LEN"
    and nd: "d_fs w s = Some nd" and v: "valid_transfer (announced nd d (discard (d_attrs w)))"
  shows "\<exists>fa b da h. load_request st0 w = (Ret (), (consume cl (length (request_bytes s d)) w)
      \<lparr>d_request := fa, d_request_buffer := b, d_attrs := da, d_header := h\<rparr>) \<and>
    prepared s d nd (discard (d_attrs w)) fa da h \<and> discard da = discard (d_attrs w)"
proof -
  let ?p = "s @ NUL # d @ NUL # rest"
  have "avail cl w = enc_request (int (length s) + 1, int (length d) + 1) @ ?p"
    using av by (simp add: request_bytes_def)
  moreover have "valid_request (int (length s) + 1, int (length d) + 1)"
    using path(3,4) by (intro valid_request_paths) simp_all
  ultimately have dec: "dec_request (avail cl w) = Some ((int (length s) + 1, int (length d) + 1), ?p)"
    by (simp add: dec_enc_request)
  obtain n where n: "?p = drop n (avail cl w)" "n \<le> length (avail cl w)" and
    hdr: "load_file_attrs cl w = (Ret (), (consume cl n w)
      \<lparr>d_request := (d_request w)\<lparr>fa_structure_len := of_nat n, fa_source_path_len := int (length s) + 1,
          fa_destination_path_len := int (length d) + 1\<rparr>, d_request_buffer := patched (d_request_buffer w) 0 (take n (avail cl w))\<rparr>)"
    by (rule load_file_attrs_spec [OF dec len(1)]) blast
  let ?fa = "(d_request w)\<lparr>fa_structure_len := of_nat n, fa_source_path_len := int (length s) + 1,
      fa_destination_path_len := int (length d) + 1\<rparr>"
  let ?b = "patched (d_request_buffer w) 0 (take n (avail cl w))"
  let ?w1 = "(consume cl n w)\<lparr>d_request := ?fa, d_request_buffer := ?b\<rparr>"
  let ?src = "patched (fa_source (d_request w)) 0 (s @ [NUL])"
  let ?dst = "patched (fa_destination (d_request w)) 0 (d @ [NUL])"
  let ?w2 = "put_source ?src (consume cl (length s + 1) ?w1)"
  let ?w3 = "put_destination ?dst (consume cl (length d + 1) ?w2)"
  have av1: "avail cl ?w1 = ?p" using n by simp
  have r1: "load_path_wrapper (int (length s) + 1) cl (fa_source ?fa) put_source ?w1 = (Ret (), ?w2)"
    using load_path_wrapper_run [of s "fa_source ?fa" cl ?w1 "d @ NUL # rest" put_source] path(3) len(2) av1 by simp
  have av2: "avail cl ?w2 = d @ NUL # rest" using av1 by (simp add: put_source_def)
  have r2: "load_path_wrapper (int (length d) + 1) cl (fa_destination ?fa) put_destination ?w2 = (Ret (), ?w3)"
    using load_path_wrapper_run [of d "fa_destination ?fa" cl ?w2 rest put_destination] path(4) len(3) av2 by simp
  have l: "length (avail cl w) = n + length ?p" using n by (metis le_add_diff_inverse length_drop)
  then have all: "n + (length s + 1) + (length d + 1) = length (request_bytes s d)" using av by simp
  let ?fa3 = "?fa\<lparr>fa_source := ?src, fa_destination := ?dst\<rparr>"
  have w3: "?w3 = (consume cl (length (request_bytes s d)) w)\<lparr>d_request := ?fa3, d_request_buffer := ?b\<rparr>"
  proof -
    have "consume cl (length d + 1) (consume cl (length s + 1) (consume cl n w)) =
        consume cl (length (request_bytes s d)) w"
      unfolding all [symmetric] using l
        consume_consume [of n "length s + 1" cl w] consume_consume [of "n + (length s + 1)" "length d + 1" cl w]
      by simp
    moreover have "?w3 = (consume cl (length d + 1) (consume cl (length s + 1) (consume cl n w)))
        \<lparr>d_request := ?fa3, d_request_buffer := ?b\<rparr>"
      by (cases w) (simp add: put_source_def put_destination_def consume_def)
    ultimately show ?thesis by simp
  qed
  have src: "c_str ?src = Some s" using path(1) by (simp add: patched_0)
  let ?v = "(consume cl (length (request_bytes s d)) w)\<lparr>d_request := ?fa3, d_request_buffer := ?b\<rparr>"
  obtain da h where r3: "create_dest_file_attrs st0 ?v = (Ret (), ?v\<lparr>d_attrs := da, d_header := h\<rparr>)"
    and post: "length h = MAX_HEADER_LEN" "header_of da = announced nd d (discard (d_attrs w))"
    "unat (structure_len da) = header_len (announced nd d (discard (d_attrs w)))"
    "take (header_len (announced nd d (discard (d_attrs w)))) h = enc_transfer (announced nd d (discard (d_attrs w)))"
    using create_dest_file_attrs_run [of ?v s d nd st0] src nd v len(4) by auto
  have "load_request st0 w = (Ret (), ?v\<lparr>d_attrs := da, d_header := h\<rparr>)"
    using hdr r1 r2 [unfolded w3] r3 cl by (simp add: load_request_def bindM_def)
  moreover have x: "discard da = discard (d_attrs w)" using post(2) by (simp add: header_of_def announced_def)
  moreover have "prepared s d nd (discard (d_attrs w)) ?fa3 da h"
    using src post path(3,4) len(2,3) x by (simp add: prepared_def patched_0 header_of_def)
  ultimately show ?thesis by (intro exI conjI)
qed

section \<open>Sending the request on\<close>

lemma drop_Suc_sel: "sel_evs w = e # es \<Longrightarrow> es = drop 1 (sel_evs w)"
  by simp

lemma send_request_run:
  assumes prep: "prepared s d nd x (d_request w) (d_attrs w) (d_header w)" and d: "length d < PATH_MAX"
    and net: "snd_evs w = []" "sel_evs w = e # es" "sel_write e"
    and sock: "d_command_socket w = cm" "d_data_socket w = dt"
  shows "send_request w = (Ret (), sent dt (d @ [NUL]) ((sent cm (enc_transfer (announced nd d x)) w)\<lparr>sel_evs := es\<rparr>))"
proof -
  let ?t = "announced nd d x"
  have len: "header_len ?t \<le> length (d_header w)"
    using prep by (simp add: prepared_def) (metis length_enc_transfer length_take min.cobounded1)
  have "buf_read (d_header w) 0 (unat (structure_len (d_attrs w))) = Some (enc_transfer ?t)"
    using prep len by (simp add: prepared_def buf_read_Some)
  then have hdr: "send_wrapper cm (d_header w) (unat (structure_len (d_attrs w))) w = (Ret (), sent cm (enc_transfer ?t) w)"
    using net(1) by (simp add: send_wrapper_def bindM_def os_send_ideal)
  have pl: "path_len (d_attrs w) = int (length d) + 1"
    using prep by (simp add: prepared_def header_of_def announced_def)
  let ?n = "word_of_int (int (length d) + 1) :: u64"
  have n: "unat ?n = length d + 1"
    using d by (subst word_of_path_len) (simp_all add: PATH_MAX_def nat_add_distrib)
  then have "0 < ?n" by (auto simp: word_gt_0)
  moreover have "?n \<noteq> - 1"
    using word_of_int_count_minus_one [of "length d + 1" "4096 :: u64"] d by (simp add: PATH_MAX_def)
  ultimately have bytes: "send_bytes (fa_destination (d_request w)) 0 dt ?n (sent cm (enc_transfer ?t) w) =
      (Ret EXIT_SUCCESS, sent dt (d @ [NUL]) ((sent cm (enc_transfer ?t) w)\<lparr>sel_evs := es\<rparr>))"
    using net d n prep by (subst send_bytes_ideal) (auto simp: prepared_def)
  have "send_path (fa_destination (d_request w)) dt (int (length d) + 1) (sent cm (enc_transfer ?t) w) =
      (Ret EXIT_SUCCESS, sent dt (d @ [NUL]) ((sent cm (enc_transfer ?t) w)\<lparr>sel_evs := es\<rparr>))"
    using d bytes by (subst send_path_short) (simp_all add: PATH_MAX_def BUFFERSIZE_def)
  then show ?thesis
    using hdr pl sock by (simp add: send_request_def bindM_def send_path_wrapper_def)
qed

lemma d_fclose_run: "d_file w = Open r \<Longrightarrow> d_fclose w = (Ret (), w\<lparr>d_file := Closed\<rparr>)"
  by (simp add: d_fclose_def)

lemma os_fopen_rb_run:
  "d_fopen_evs w = [] \<Longrightarrow> d_fs w p = Some (File data) \<Longrightarrow> os_fopen_rb p w = (Ret True, w\<lparr>d_file := Open data\<rparr>)"
  by (cases w) (simp add: os_fopen_rb_def)

text \<open>The state of a daemon whose operating system and network cooperate.\<close>

definition working :: "fd \<Rightarrow> fd \<Rightarrow> fd \<Rightarrow> nat \<Rightarrow> daemon \<Rightarrow> bool" where
  "working cm dt cl n w \<longleftrightarrow> distinct [cm, dt, cl] \<and>
     d_command_socket w = cm \<and> d_data_socket w = dt \<and> d_client_socket w = cl \<and>
     snd_evs w = [] \<and> list_all sel_write (sel_evs w) \<and> n < length (sel_evs w) \<and>
     d_fopen_evs w = [] \<and> d_fread_evs w = [] \<and> length (d_data w) = BUFFERSIZE"

lemma transfer_file_run:
  assumes prep: "prepared s d (File data) x (d_request w) (d_attrs w) (d_header w)" and d: "length d < PATH_MAX"
    and ok: "working cm dt cl (length data) w" and f: "d_fs w s = Some (File data)" and len: "length data < 2 ^ 64"
  shows "\<exists>k buf. k \<le> length data + 1 \<and> transfer_file w = (Ret (), w\<lparr>tx := (tx w)(cm := tx w cm @ enc_transfer (announced (File data) d x),
        dt := tx w dt @ d @ [NUL] @ data), sel_evs := drop k (sel_evs w),
      d_attrs := (d_attrs w)\<lparr>discard := 0\<rparr>, d_data := buf, d_file := Closed\<rparr>)"
proof -
  let ?w1 = "w\<lparr>d_file := Open data\<rparr>"
  obtain e es where ev: "sel_evs w = e # es" using ok by (cases "sel_evs w") (auto simp: working_def)
  have e: "sel_write e" and es: "list_all sel_write es" "length data \<le> length es"
    using ok ev by (auto simp: working_def)
  have src: "c_str (fa_source (d_request w)) = Some s" using prep by (simp add: prepared_def)
  have op: "os_fopen_rb s w = (Ret True, ?w1)"
    using ok f by (intro os_fopen_rb_run) (simp_all add: working_def)
  let ?w2 = "sent dt (d @ [NUL]) ((sent cm (enc_transfer (announced (File data) d x)) ?w1)\<lparr>sel_evs := es\<rparr>)"
  have rq: "send_request ?w1 = (Ret (), ?w2)"
    by (rule send_request_run [of s d "File data" x]) (use prep d ok ev e in \<open>simp_all add: working_def\<close>)
  have dl: "unat (data_len (d_attrs w)) = length data"
    using prep len unat_of_nat [of "length data", where ?'a = 64]
    by (simp add: prepared_def header_of_def announced_def node_bytes_def take_bit_eq_mod)
  have "can_send dt ?w2" "unat (data_len (d_attrs w)) \<le> length (unread ?w2)"
    using ok es dl by (simp_all add: can_send_def working_def unread_def)
  from send_data_run [OF this] obtain w3 where sd: "send_data (data_len (d_attrs w)) ?w2 = (Ret (), w3)"
    and fs: "file_sent dt (length data) (?w2\<lparr>d_attrs := (d_attrs ?w2)\<lparr>discard := 0\<rparr>\<rparr>) w3"
    using dl by auto
  have un: "unread (?w2\<lparr>d_attrs := (d_attrs ?w2)\<lparr>discard := 0\<rparr>\<rparr>) = data" by (simp add: unread_def)
  obtain k j buf where k: "k \<le> length data" and w3: "w3 = (?w2\<lparr>d_attrs := (d_attrs ?w2)\<lparr>discard := 0\<rparr>\<rparr>)\<lparr>tx := (tx ?w2)(dt := tx ?w2 dt @ data),
      snd_evs := drop j (snd_evs ?w2), sel_evs := drop k es, d_data := buf, d_file := Open []\<rparr>"
    using fs unfolding file_sent_def un by auto
  have cl: "d_fclose w3 = (Ret (), w3\<lparr>d_file := Closed\<rparr>)" by (rule d_fclose_run [of _ "[]"]) (simp add: w3)
  have run: "transfer_file w = (Ret (), w3\<lparr>d_file := Closed\<rparr>)"
    using src op rq sd cl by (simp add: transfer_file_def bindM_def)
  have "w3\<lparr>d_file := Closed\<rparr> = w\<lparr>tx := (tx w)(cm := tx w cm @ enc_transfer (announced (File data) d x),
        dt := tx w dt @ d @ [NUL] @ data), sel_evs := drop (Suc k) (sel_evs w),
      d_attrs := (d_attrs w)\<lparr>discard := 0\<rparr>, d_data := buf, d_file := Closed\<rparr>"
    unfolding w3 using ok ev by (cases w) (auto simp: sent_def working_def)
  then show ?thesis unfolding run using k by (intro exI [of _ "Suc k"] exI [of _ buf]) simp
qed

text \<open>Nothing of the daemon's host has changed but that so many calls of \<^verbatim>\<open>select\<close> are gone.\<close>

definition same_host :: "nat \<Rightarrow> daemon \<Rightarrow> daemon \<Rightarrow> bool" where
  "same_host n w w' \<longleftrightarrow> d_fs w' = d_fs w \<and> d_fopen_evs w' = d_fopen_evs w \<and> d_fread_evs w' = d_fread_evs w \<and>
     d_data_socket w' = d_data_socket w \<and> (\<exists>k \<le> n. sel_evs w' = drop k (sel_evs w))"

lemma same_host_update [simp]:
  "same_host n (w\<lparr>d_flag := f\<rparr>) w' = same_host n w w'" "same_host n (w\<lparr>d_resend := b\<rparr>) w' = same_host n w w'"
  by (simp_all add: same_host_def)

lemma same_host_trans: "same_host m w v \<Longrightarrow> same_host n v u \<Longrightarrow> same_host (m + n) w u"
  by (auto simp: same_host_def) (metis add_mono drop_drop add.commute)

text \<open>What the transmission of a request leaves behind: the header is on the command socket, path and
  data are on the data socket.\<close>

definition transmitted :: "fd \<Rightarrow> fd \<Rightarrow> node \<Rightarrow> byte list \<Rightarrow> u64 \<Rightarrow> daemon \<Rightarrow> daemon \<Rightarrow> bool" where
  "transmitted cm dt nd d x w w' \<longleftrightarrow>
     tx w' = (tx w)(cm := tx w cm @ enc_transfer (announced nd d x), dt := tx w dt @ d @ [NUL] @ node_bytes nd) \<and>
     (\<forall>s. avail s w' = avail s w) \<and> snd_evs w' = [] \<and> closed w' = closed w \<and> d_message w' = d_message w \<and>
     d_command_socket w' = cm \<and> d_client_socket w' = d_client_socket w \<and> d_resend w' = d_resend w \<and>
     data_len (d_attrs w') = of_nat (length (node_bytes nd)) \<and>
     discard (d_attrs w') = (if nd = Dir then discard (d_attrs w) else 0) \<and>
     d_accepts w' = d_accepts w \<and> same_host (length (node_bytes nd) + 1) w w'"

lemma transmit_run:
  assumes prep: "prepared s d nd x (d_request w) (d_attrs w) (d_header w)" and d: "length d < PATH_MAX"
    and ok: "working cm dt cl (length (node_bytes nd)) w" and f: "d_fs w s = Some nd"
    and len: "length (node_bytes nd) < 2 ^ 64"
  shows "\<exists>w'. (if command (d_attrs w) = as_char MK_FILE then transfer_file else send_request) w = (Ret (), w') \<and>
    transmitted cm dt nd d x w w'"
proof -
  have cmd: "command (d_attrs w) = node_command nd" "data_len (d_attrs w) = of_nat (length (node_bytes nd))"
    using prep by (simp_all add: prepared_def header_of_def announced_def)
  show ?thesis
  proof (cases nd)
    case (File data)
    obtain k buf where k: "k \<le> length data + 1" and "transfer_file w = (Ret (), w\<lparr>tx := (tx w)(cm := tx w cm @ enc_transfer (announced (File data) d x),
        dt := tx w dt @ d @ [NUL] @ data), sel_evs := drop k (sel_evs w),
      d_attrs := (d_attrs w)\<lparr>discard := 0\<rparr>, d_data := buf, d_file := Closed\<rparr>)" (is "_ = (_, ?v)")
      using transfer_file_run [of s d data x w cm dt cl] assms File by (auto simp: node_bytes_def)
    moreover have "same_host (length data + 1) w ?v" using k by (auto simp: same_host_def)
    ultimately show ?thesis
      using cmd ok File by (intro exI [of _ ?v]) (simp add: transmitted_def working_def node_command_def node_bytes_def)
  next
    case Dir
    obtain e es where ev: "sel_evs w = e # es" "sel_write e" using ok by (cases "sel_evs w") (auto simp: working_def)
    let ?v = "sent dt (d @ [NUL]) ((sent cm (enc_transfer (announced nd d x)) w)\<lparr>sel_evs := es\<rparr>)"
    have "send_request w = (Ret (), ?v)"
      by (rule send_request_run [of s d nd x]) (use prep ok d ev in \<open>simp_all add: working_def\<close>)
    moreover have "same_host 1 w ?v" using ev by (auto simp: same_host_def sent_def intro!: exI [of _ 1])
    ultimately show ?thesis
      using cmd ok Dir
      by (intro exI [of _ ?v]) (auto simp: transmitted_def working_def node_command_def node_bytes_def sent_def fun_eq_iff)
  qed
qed

section \<open>The answer\<close>

lemma receive_message_wrapper_run:
  assumes "dec_message (avail s w) = Some ((flag, body), rest)" and "length (d_message w) = MESSAGE_BUFFERSIZE"
  shows "receive_message_wrapper s f0 w = (Ret flag,
    (consume s (2 + length body) w)\<lparr>d_message := patched (d_message w) 0 body\<rparr>)"
  using receive_message_spec [OF assms(1), of "d_message w" f0] dec_message_body_le [OF assms(1)] assms(2)
  by (simp add: receive_message_wrapper_def bindM_def MESSAGE_BUFFERSIZE_def)

lemma send_message_wrapper_run:
  "snd_evs w = [] \<Longrightarrow> c_str m = Some t \<Longrightarrow> length t \<le> 252 \<Longrightarrow>
     send_message_wrapper s flag m w = (Ret (), sent s (enc_message (flag, text_body t)) w)"
  by (simp add: send_message_wrapper_def bindM_def send_message_ideal)

text \<open>The text passed on is that of the answer or, when it has none, what \<open>message\<close> held before.\<close>

definition passed_on :: "byte list \<Rightarrow> byte list \<Rightarrow> byte list \<Rightarrow> bool" where
  "passed_on message t m \<longleftrightarrow> c_str (patched message 0 (text_body t)) = Some m \<and> length m \<le> 252"

lemma passed_on_text: "t \<noteq> [] \<Longrightarrow> NUL \<notin> set t \<Longrightarrow> length t \<le> 252 \<Longrightarrow> passed_on message t t"
  by (simp add: passed_on_def patched_0 text_body_def)

lemma await_answer_ok:
  assumes rep: "dec_message (avail (d_command_socket w) w) = Some ((flag, text_body t), rest)"
    and len: "length (d_message w) = MESSAGE_BUFFERSIZE" and m: "passed_on (d_message w) t m"
    and flag: "flag \<noteq> as_char ACK_ERROR" "flag \<noteq> as_char FORCED_SOCKET_CLOSED" and net: "snd_evs w = []"
  shows "\<exists>w'. await_answer w = (Ret (), w') \<and>
    tx w' = (tx w)(d_client_socket w := tx w (d_client_socket w) @ enc_message (flag, text_body m)) \<and>
    closed w' = closed w @ [d_client_socket w] \<and> d_attrs w' = d_attrs w \<and> d_resend w' = d_resend w \<and>
    d_message w' = patched (d_message w) 0 (text_body t) \<and> snd_evs w' = [] \<and> d_command_socket w' = d_command_socket w \<and>
    (\<forall>s. avail s w' = (if s = d_command_socket w then rest else avail s w)) \<and> d_accepts w' = d_accepts w \<and>
    same_host 0 w w'"
proof -
  let ?msg = "patched (d_message w) 0 (text_body t)"
  let ?w1 = "(consume (d_command_socket w) (2 + length (text_body t)) w)\<lparr>d_message := ?msg, d_flag := flag\<rparr>"
  have snd: "send_message_wrapper (d_client_socket w) flag ?msg ?w1 =
      (Ret (), sent (d_client_socket w) (enc_message (flag, text_body m)) ?w1)"
    using net m by (intro send_message_wrapper_run) (simp_all add: passed_on_def)
  have "await_answer w = (Ret (), (sent (d_client_socket w) (enc_message (flag, text_body m)) ?w1)
      \<lparr>closed := closed w @ [d_client_socket w]\<rparr>)"
    using receive_message_wrapper_run [OF rep len, of "d_flag w"] snd flag
    by (simp add: await_answer_def bindM_def os_close_def)
  moreover have "avail (d_command_socket w) (consume (d_command_socket w) (2 + length (text_body t)) w) = rest"
    using message_taken [OF rep] by simp
  ultimately show ?thesis using net by (auto simp: sent_def avail_def same_host_def consume_def)
qed

lemma await_answer_refused:
  assumes rep: "dec_message (avail (d_command_socket w) w) = Some ((as_char ACK_ERROR, text_body t), rest)"
    and len: "length (d_message w) = MESSAGE_BUFFERSIZE"
  shows "await_answer w = (Throw RECEIVED_BAD_ACK,
    (consume (d_command_socket w) (2 + length (text_body t)) w)\<lparr>d_message := patched (d_message w) 0 (text_body t),
      d_flag := as_char ACK_ERROR, d_attrs := (d_attrs w)\<lparr>discard := data_len (d_attrs w)\<rparr>\<rparr>)"
  using receive_message_wrapper_run [OF rep len, of "d_flag w"]
  by (simp add: await_answer_def bindM_def)

lemma bad_ack_handler:
  assumes net: "snd_evs w = []" and m: "c_str (d_message w) = Some t" "length t \<le> 252"
  shows "\<exists>w'. run_handlers a RECEIVED_BAD_ACK w = (Ret (), w') \<and>
    tx w' = (tx w)(d_client_socket w := tx w (d_client_socket w) @ enc_message (as_char ACK_ERROR, text_body t)) \<and>
    closed w' = closed w @ [d_client_socket w] \<and> d_attrs w' = d_attrs w \<and> d_resend w' = d_resend w"
proof -
  let ?w1 = "w\<lparr>d_logfile := d_logfile w @ ''Message from server: '' @ t @ [NL]\<rparr>"
  have "send_message_wrapper (d_client_socket w) (as_char ACK_ERROR) (d_message w) ?w1 =
      (Ret (), sent (d_client_socket w) (enc_message (as_char ACK_ERROR, text_body t)) ?w1)"
    using net m by (intro send_message_wrapper_run) simp_all
  then have "catch a RECEIVED_BAD_ACK w = (Ret (), (sent (d_client_socket w)
      (enc_message (as_char ACK_ERROR, text_body t)) ?w1)\<lparr>closed := closed w @ [d_client_socket w]\<rparr>)"
    using m by (simp add: catch_def return_codes d_log_def bindM_def close_client_def os_close_def)
  then show ?thesis by (simp add: run_handlers.simps [of a] sent_def)
qed

section \<open>A round of the loop\<close>

text \<open>A daemon that can take the request to send the node \<open>nd\<close>, at \<open>s\<close>, to \<open>d\<close>; and one that
  has the request waiting.\<close>

definition idle_for :: "fd \<Rightarrow> fd \<Rightarrow> fd \<Rightarrow> byte list \<Rightarrow> byte list \<Rightarrow> node \<Rightarrow> daemon \<Rightarrow> bool" where
  "idle_for cm dt cl s d nd w \<longleftrightarrow>
     \<not> d_resend w \<and> cl \<noteq> - 1 \<and> (\<exists>as. d_accepts w = cl # as) \<and>
     working cm dt cl (length (node_bytes nd)) (w\<lparr>d_client_socket := cl\<rparr>) \<and>
     NUL \<notin> set s \<and> NUL \<notin> set d \<and> length s < PATH_MAX \<and> length d < PATH_MAX \<and>
     length (d_request_buffer w) = MAX_FILE_ATTRS_LEN \<and> length (fa_source (d_request w)) = PATH_MAX \<and>
     length (fa_destination (d_request w)) = PATH_MAX \<and> length (d_header w) = MAX_HEADER_LEN \<and>
     length (d_message w) = MESSAGE_BUFFERSIZE \<and>
     d_fs w s = Some nd \<and> length (node_bytes nd) < 2 ^ 64 \<and>
     valid_transfer (announced nd d (discard (d_attrs w)))"

definition ready_for :: "fd \<Rightarrow> fd \<Rightarrow> fd \<Rightarrow> byte list \<Rightarrow> byte list \<Rightarrow> node \<Rightarrow> daemon \<Rightarrow> bool" where
  "ready_for cm dt cl s d nd w \<longleftrightarrow>
     idle_for cm dt cl s d nd w \<and> (\<exists>rest. avail cl w = request_bytes s d @ rest)"

text \<open>Up to the answer.\<close>

lemma round_sends:
  assumes r: "ready_for cm dt cl s d nd w"
  shows "\<exists>w'. dmn_round a st0 w = (case await_answer w' of (Throw x, v) \<Rightarrow> run_handlers a x v | r \<Rightarrow> r) \<and>
    tx w' = (tx w)(cm := tx w cm @ enc_transfer (announced nd d (discard (d_attrs w))),
      dt := tx w dt @ d @ [NUL] @ node_bytes nd) \<and>
    avail cm w' = avail cm w \<and> snd_evs w' = [] \<and> closed w' = closed w \<and> d_message w' = d_message w \<and>
    d_command_socket w' = cm \<and> d_client_socket w' = cl \<and> \<not> d_resend w' \<and>
    data_len (d_attrs w') = of_nat (length (node_bytes nd)) \<and>
    discard (d_attrs w') = (if nd = Dir then discard (d_attrs w) else 0) \<and>
    d_accepts w' = tl (d_accepts w) \<and> (\<forall>s. s \<noteq> cl \<longrightarrow> avail s w' = avail s w) \<and>
    same_host (length (node_bytes nd) + 1) w w'"
proof -
  from r obtain as rest where acc: "d_accepts w = cl # as" and av: "avail cl w = request_bytes s d @ rest"
    by (auto simp: ready_for_def idle_for_def)
  have wk: "working cm dt cl (length (node_bytes nd)) (w\<lparr>d_client_socket := cl\<rparr>)" using r by (simp add: ready_for_def idle_for_def)
  let ?w1 = "w\<lparr>d_flag := as_char ACK_OK, d_accepts := as, d_client_socket := cl\<rparr>"
  have "accept_request (w\<lparr>d_flag := as_char ACK_OK\<rparr>) = (Ret (), ?w1)"
    using r acc by (simp add: accept_request_def bindM_def os_accept_client_def ready_for_def idle_for_def)
  then have rounds: "dmn_round a st0 w = (case try_body st0 ?w1 of (Throw x, w') \<Rightarrow> run_handlers a x w' | r \<Rightarrow> r)"
    by (simp add: dmn_round_def bindM_def)
  have "\<exists>fa b da h. load_request st0 ?w1 = (Ret (), (consume cl (length (request_bytes s d)) ?w1)
      \<lparr>d_request := fa, d_request_buffer := b, d_attrs := da, d_header := h\<rparr>) \<and>
    prepared s d nd (discard (d_attrs ?w1)) fa da h \<and> discard da = discard (d_attrs ?w1)"
    by (rule load_request_run [of ?w1 cl s d rest nd st0]) (use r av in \<open>simp_all add: ready_for_def idle_for_def\<close>)
  then obtain fa b da h where
    lr: "load_request st0 ?w1 = (Ret (), (consume cl (length (request_bytes s d)) ?w1)
      \<lparr>d_request := fa, d_request_buffer := b, d_attrs := da, d_header := h\<rparr>)" (is "_ = (_, ?w2)")
    and prep: "prepared s d nd (discard (d_attrs w)) fa da h" and x: "discard da = discard (d_attrs w)"
    by auto
  have "\<exists>w'. (if command (d_attrs ?w2) = as_char MK_FILE then transfer_file else send_request) ?w2 = (Ret (), w') \<and>
      transmitted cm dt nd d (discard (d_attrs w)) ?w2 w'"
    by (rule transmit_run [of s d _ _ ?w2 cm dt cl]) (use prep wk r in \<open>simp_all add: working_def ready_for_def idle_for_def\<close>)
  then obtain w' where tr: "(if command da = as_char MK_FILE then transfer_file else send_request) ?w2 = (Ret (), w')"
    "transmitted cm dt nd d (discard (d_attrs w)) ?w2 w'" by auto
  have nr: "\<not> d_resend w" "avail cm ?w2 = avail cm w" using r wk by (simp_all add: ready_for_def idle_for_def working_def)
  have "try_body st0 ?w1 = await_answer w'" using lr tr(1) nr by (simp add: try_body_def bindM_def)
  moreover have "same_host (length (node_bytes nd) + 1) w w'" using tr(2) by (simp add: transmitted_def same_host_def)
  moreover have "\<forall>s. s \<noteq> cl \<longrightarrow> avail s w' = avail s w" using tr(2) by (simp add: transmitted_def)
  ultimately show ?thesis unfolding rounds using tr(2) nr x acc by (intro exI [of _ w']) (simp add: transmitted_def)
qed

text \<open>The same for a request that is sent again: no client is accepted and no request is read.\<close>

lemma resend_sends:
  assumes prep: "prepared s d nd x (d_request w) (d_attrs w) (d_header w)" and d: "length d < PATH_MAX"
    and ok: "working cm dt cl (length (node_bytes nd)) w" and f: "d_fs w s = Some nd"
    and len: "length (node_bytes nd) < 2 ^ 64" and r: "d_resend w"
  shows "\<exists>w'. dmn_round a st0 w = (case await_answer w' of (Throw x, v) \<Rightarrow> run_handlers a x v | r \<Rightarrow> r) \<and>
    transmitted cm dt nd d x (w\<lparr>d_resend := False\<rparr>) w'"
proof -
  let ?w1 = "w\<lparr>d_flag := as_char ACK_OK, d_resend := False\<rparr>"
  have "\<exists>w'. (if command (d_attrs ?w1) = as_char MK_FILE then transfer_file else send_request) ?w1 = (Ret (), w') \<and>
      transmitted cm dt nd d x ?w1 w'"
    by (rule transmit_run [of s d _ _ ?w1 cm dt cl]) (use assms in \<open>simp_all add: working_def\<close>)
  then obtain w' where tr: "(if command (d_attrs w) = as_char MK_FILE then transfer_file else send_request) ?w1 = (Ret (), w')"
    "transmitted cm dt nd d x ?w1 w'" by auto
  have "try_body st0 (w\<lparr>d_flag := as_char ACK_OK\<rparr>) = await_answer w'"
    using tr(1) r by (simp add: try_body_def bindM_def)
  then have "dmn_round a st0 w = (case await_answer w' of (Throw x, v) \<Rightarrow> run_handlers a x v | r \<Rightarrow> r)"
    using r by (simp add: dmn_round_def accept_request_def bindM_def)
  then show ?thesis using tr(2) by (intro exI [of _ w']) (simp add: transmitted_def avail_def)
qed

text \<open>The whole round, acknowledged or refused.\<close>

lemma round_acknowledged_leaves:
  assumes "ready_for cm dt cl s d nd w" and "dec_message (avail cm w) = Some ((as_char ACK_OK, []), rest)"
    and "c_str (d_message w) = Some m" and "length m \<le> 252"
  shows "\<exists>w'. dmn_round a st0 w = (Ret (), w') \<and> closed w' = closed w @ [cl] \<and>
    tx w' = (tx w)(cm := tx w cm @ enc_transfer (announced nd d (discard (d_attrs w))),
      dt := tx w dt @ d @ [NUL] @ node_bytes nd, cl := tx w cl @ enc_message (as_char ACK_OK, text_body m)) \<and>
    discard (d_attrs w') = (if nd = Dir then discard (d_attrs w) else 0) \<and> \<not> d_resend w' \<and> d_message w' = d_message w \<and>
    snd_evs w' = [] \<and> d_command_socket w' = cm \<and> d_accepts w' = tl (d_accepts w) \<and> avail cm w' = rest \<and>
    (\<forall>s. s \<noteq> cl \<and> s \<noteq> cm \<longrightarrow> avail s w' = avail s w) \<and> same_host (length (node_bytes nd) + 1) w w'"
proof -
  obtain v where v: "dmn_round a st0 w = (case await_answer v of (Throw x, u) \<Rightarrow> run_handlers a x u | r \<Rightarrow> r)"
    "tx v = (tx w)(cm := tx w cm @ enc_transfer (announced nd d (discard (d_attrs w))), dt := tx w dt @ d @ [NUL] @ node_bytes nd)"
    "avail cm v = avail cm w" "snd_evs v = []" "closed v = closed w" "d_message v = d_message w"
    "d_command_socket v = cm" "d_client_socket v = cl" "\<not> d_resend v"
    "discard (d_attrs v) = (if nd = Dir then discard (d_attrs w) else 0)" "d_accepts v = tl (d_accepts w)"
    "\<forall>s. s \<noteq> cl \<longrightarrow> avail s v = avail s w" "same_host (length (node_bytes nd) + 1) w v"
    using round_sends [OF assms(1), of a st0] by blast
  have m: "passed_on (d_message v) [] m" using assms(3,4) v(6) by (simp add: passed_on_def text_body_def)
  have rep: "dec_message (avail (d_command_socket v) v) = Some ((as_char ACK_OK, text_body []), rest)"
    using v assms(2) by (simp add: text_body_def)
  have len: "length (d_message v) = MESSAGE_BUFFERSIZE" and ne: "cl \<noteq> cm" "cl \<noteq> dt"
    using v(6) assms(1) by (auto simp: ready_for_def idle_for_def working_def)
  obtain u where u: "await_answer v = (Ret (), u)" "tx u = (tx v)(cl := tx v cl @ enc_message (as_char ACK_OK, text_body m))"
    "closed u = closed v @ [cl]" "d_attrs u = d_attrs v" "d_resend u = d_resend v" "d_message u = d_message v"
    "snd_evs u = []" "d_command_socket u = cm" "\<forall>s. avail s u = (if s = cm then rest else avail s v)"
    "d_accepts u = d_accepts v" "same_host 0 v u"
    using await_answer_ok [OF rep len m answer_flags(1,3) v(4)] v(7,8) by (auto simp: text_body_def)
  have "same_host (length (node_bytes nd) + 1) w u" using same_host_trans [OF v(13) u(11)] by simp
  then show ?thesis using v u ne by auto
qed

lemma round_acknowledged:
  assumes "ready_for cm dt cl s d nd w" and "dec_message (avail cm w) = Some ((as_char ACK_OK, []), rest)"
    and "c_str (d_message w) = Some m" and "length m \<le> 252"
  shows "\<exists>w'. dmn_round a st0 w = (Ret (), w') \<and> closed w' = closed w @ [cl] \<and>
    tx w' = (tx w)(cm := tx w cm @ enc_transfer (announced nd d (discard (d_attrs w))),
      dt := tx w dt @ d @ [NUL] @ node_bytes nd, cl := tx w cl @ enc_message (as_char ACK_OK, text_body m))"
  using round_acknowledged_leaves [OF assms] by blast

lemma round_refused:
  assumes "ready_for cm dt cl s d nd w" and "dec_message (avail cm w) = Some ((as_char ACK_ERROR, text_body t), rest)"
    and "t \<noteq> []" and "NUL \<notin> set t" and "length t \<le> 252" and "length (d_message w) = MESSAGE_BUFFERSIZE"
  shows "\<exists>w'. dmn_round a st0 w = (Ret (), w') \<and> closed w' = closed w @ [cl] \<and>
    tx w' = (tx w)(cm := tx w cm @ enc_transfer (announced nd d (discard (d_attrs w))),
      dt := tx w dt @ d @ [NUL] @ node_bytes nd, cl := tx w cl @ enc_message (as_char ACK_ERROR, text_body t)) \<and>
    discard (d_attrs w') = of_nat (length (node_bytes nd))"
proof -
  obtain v where v: "dmn_round a st0 w = (case await_answer v of (Throw x, u) \<Rightarrow> run_handlers a x u | r \<Rightarrow> r)"
    "tx v = (tx w)(cm := tx w cm @ enc_transfer (announced nd d (discard (d_attrs w))), dt := tx w dt @ d @ [NUL] @ node_bytes nd)"
    "avail cm v = avail cm w" "snd_evs v = []" "closed v = closed w" "d_message v = d_message w"
    "d_command_socket v = cm" "d_client_socket v = cl" "data_len (d_attrs v) = of_nat (length (node_bytes nd))"
    using round_sends [OF assms(1), of a st0] by blast
  let ?u = "(consume cm (2 + length (text_body t)) v)\<lparr>d_message := patched (d_message w) 0 (text_body t),
      d_flag := as_char ACK_ERROR, d_attrs := (d_attrs v)\<lparr>discard := data_len (d_attrs v)\<rparr>\<rparr>"
  have aw: "await_answer v = (Throw RECEIVED_BAD_ACK, ?u)"
    using await_answer_refused [of v t rest] v assms(2,6) by simp
  have "c_str (d_message ?u) = Some t" using passed_on_text [OF assms(3-5), of "d_message w"] by (simp add: passed_on_def)
  then have "\<exists>w'. run_handlers a RECEIVED_BAD_ACK ?u = (Ret (), w') \<and>
    tx w' = (tx v)(cl := tx v cl @ enc_message (as_char ACK_ERROR, text_body t)) \<and>
    closed w' = closed v @ [cl] \<and> d_attrs w' = d_attrs ?u"
    using bad_ack_handler [of ?u t a] v(4,8) assms(5) by auto
  moreover have "cl \<noteq> cm" "cl \<noteq> dt" using assms(1) by (auto simp: ready_for_def idle_for_def working_def)
  ultimately show ?thesis using v aw by auto
qed

end
