(* ===== verification/Daemon_Restart.thy ===== *)
theory Daemon_Restart
  imports Daemon_Serves
begin

text \<open>
  Losing the server: the handlers of the daemon that open both connections again, what they keep,
  and that they always end.
\<close>

section \<open>Handlers end\<close>

lemma run_handlers_no_throw: "run_handlers a x w \<noteq> (Throw y, w')"
proof (induction a x w rule: run_handlers.induct)
  case (1 a x w)
  then show ?case by (subst run_handlers.simps) (auto split: prod.splits result.splits)
qed

lemma dmn_round_no_throw: "dmn_round a st0 w \<noteq> (Throw x, w')"
proof -
  have "accept_request v \<noteq> (Throw x, w')" for v
    by (auto simp: accept_request_def bindM_def os_accept_client_def split: list.splits if_splits)
  then show ?thesis
    by (auto simp: dmn_round_def bindM_def run_handlers_no_throw split: prod.splits result.splits)
qed

section \<open>Connecting\<close>

lemma os_connect_run: "connect_evs w = [] \<Longrightarrow> os_connect s w = (Ret 0, w)"
  by (cases w) (simp add: os_connect_def)

lemma client_connect_run:
  assumes "socket_evs w = s # ss" and "s \<noteq> - 1" and "connect_evs w = []" and "snd_evs w = []"
    and "c_str (d_token w) = Some t" and "length t \<le> 252"
  shows "client_connect w = (Ret s, sent s (enc_message (as_char AUTH_REQUEST, text_body t)) (w\<lparr>socket_evs := ss\<rparr>))"
  using assms by (simp add: client_connect_def bindM_def os_socket_def os_connect_run send_message_wrapper_run)

lemma client_connect_fails:
  assumes "socket_evs w = f # ss" and "f \<noteq> - 1" and "connect_evs w = Some e # es"
  shows "\<exists>g. client_connect w = (Ret (- 1), w\<lparr>socket_evs := ss, connect_evs := es, errno := e, d_logfile := g\<rparr>)"
  using assms
  by (auto simp: client_connect_def bindM_def os_socket_def os_connect_def d_log_error_def d_strerror_def d_log_def)

text \<open>Both connections present the token.\<close>

definition reconnected :: "fd \<Rightarrow> fd \<Rightarrow> byte list \<Rightarrow> daemon \<Rightarrow> daemon" where
  "reconnected s s' t w = w\<lparr>tx := (\<lambda>f. tx w f @ (if f = s \<or> f = s' then enc_message (as_char AUTH_REQUEST, text_body t) else [])),
     d_command_socket := s, d_data_socket := s'\<rparr>"

lemma connect_both_run:
  assumes "socket_evs w = s # s' # ss" and "s \<noteq> - 1" and "s' \<noteq> - 1" and "s \<noteq> s'" and "connect_evs w = []"
    and "snd_evs w = []" and "c_str (d_token w) = Some t" and "length t \<le> 252"
  shows "connect_both w = (Ret (), (reconnected s s' t w)\<lparr>socket_evs := ss\<rparr>)"
proof -
  let ?m = "enc_message (as_char AUTH_REQUEST, text_body t)"
  let ?v = "(sent s ?m (w\<lparr>socket_evs := s' # ss\<rparr>))\<lparr>d_command_socket := s\<rparr>"
  have 1: "client_connect w = (Ret s, sent s ?m (w\<lparr>socket_evs := s' # ss\<rparr>))"
    using assms by (intro client_connect_run)
  have 2: "client_connect ?v = (Ret s', sent s' ?m (?v\<lparr>socket_evs := ss\<rparr>))"
    using assms by (intro client_connect_run) (simp_all add: sent_def)
  show ?thesis
    using 1 2 assms(4) by (simp add: connect_both_def bindM_def) (cases w, auto simp: sent_def reconnected_def fun_eq_iff)
qed

lemma connect_both_fails:
  assumes "socket_evs w = f # f' # ss" and "f \<noteq> - 1" and "f' \<noteq> - 1" and "connect_evs w = Some e # Some e # es"
  shows "\<exists>g. connect_both w = (Ret (), w\<lparr>socket_evs := ss, connect_evs := es, errno := e, d_logfile := g,
    d_command_socket := - 1, d_data_socket := - 1\<rparr>)"
proof -
  let ?v = "\<lambda>g. w\<lparr>socket_evs := f' # ss, connect_evs := Some e # es, errno := e, d_logfile := g\<rparr>"
  obtain g where 1: "client_connect w = (Ret (- 1), ?v g)"
    using client_connect_fails [OF assms(1,2,4)] by blast
  obtain g' where 2: "client_connect ((?v g)\<lparr>d_command_socket := - 1\<rparr>) =
      (Ret (- 1), ((?v g)\<lparr>d_command_socket := - 1\<rparr>)\<lparr>socket_evs := ss, connect_evs := es, errno := e, d_logfile := g'\<rparr>)"
    using client_connect_fails [of "(?v g)\<lparr>d_command_socket := - 1\<rparr>" f' ss e es] assms(3) by auto
  show ?thesis using 1 2 by (intro exI [of _ g']) (simp add: connect_both_def bindM_def)
qed

text \<open>The network as the daemon meets it when its server is away for \<open>k\<close> attempts and then back.\<close>

definition back_after :: "nat \<Rightarrow> fd \<Rightarrow> fd \<Rightarrow> fd list \<Rightarrow> byte list \<Rightarrow> daemon \<Rightarrow> bool" where
  "back_after k s s' ss t w \<longleftrightarrow> (\<exists>fs e. socket_evs w = fs @ s # s' # ss \<and> length fs = 2 * k \<and> - 1 \<notin> set fs \<and>
     connect_evs w = replicate (2 * k) (Some e)) \<and> s \<noteq> - 1 \<and> s' \<noteq> - 1 \<and> s \<noteq> s' \<and> snd_evs w = [] \<and>
     c_str (d_token w) = Some t \<and> length t \<le> 252"

lemma back_now:
  assumes "back_after 0 s s' ss t w"
  shows "connect_both w = (Ret (), (reconnected s s' t w)\<lparr>socket_evs := ss\<rparr>)"
  using assms by (intro connect_both_run) (auto simp: back_after_def)

lemma back_later:
  assumes "back_after (Suc k) s s' ss t w"
  shows "\<exists>fs e es g. connect_both w = (Ret (), w\<lparr>socket_evs := fs, connect_evs := es, errno := e, d_logfile := g,
      d_command_socket := - 1, d_data_socket := - 1\<rparr>) \<and>
    back_after k s s' ss t (w\<lparr>socket_evs := fs, connect_evs := es, errno := e, d_logfile := g,
      d_command_socket := - 1, d_data_socket := - 1\<rparr>)"
proof -
  from assms obtain fs e where fs: "socket_evs w = fs @ s # s' # ss" "length fs = 2 * Suc k" "- 1 \<notin> set fs"
    "connect_evs w = replicate (2 * Suc k) (Some e)" by (auto simp: back_after_def)
  then obtain f f' fs' where f: "fs = f # f' # fs'" "length fs' = 2 * k" by (auto simp: length_Suc_conv)
  obtain g where "connect_both w = (Ret (), w\<lparr>socket_evs := fs' @ s # s' # ss, connect_evs := replicate (2 * k) (Some e),
      errno := e, d_logfile := g, d_command_socket := - 1, d_data_socket := - 1\<rparr>)"
    using connect_both_fails [of w f f' "fs' @ s # s' # ss" e "replicate (2 * k) (Some e)"] fs f by auto
  then show ?thesis using assms fs f
    by (intro exI [of _ "fs' @ s # s' # ss"] exI [of _ e] exI [of _ "replicate (2 * k) (Some e)"] exI [of _ g])
      (auto simp: back_after_def)
qed

text \<open>However often the server refuses, the loop goes on until both connections are open.\<close>

definition online :: "fd \<Rightarrow> fd \<Rightarrow> fd list \<Rightarrow> byte list \<Rightarrow> daemon \<Rightarrow> daemon \<Rightarrow> bool" where
  "online s s' ss t w w' \<longleftrightarrow>
     (\<exists>es e g. w' = (reconnected s s' t w)\<lparr>socket_evs := ss, connect_evs := es, errno := e, d_logfile := g\<rparr>)"

lemma onlineI: "online s s' ss t w ((reconnected s s' t (w\<lparr>d_logfile := g\<rparr>))\<lparr>socket_evs := ss\<rparr>)"
  unfolding online_def
  by (intro exI [of _ "connect_evs w"] exI [of _ "errno w"] exI [of _ g]) (cases w, simp add: reconnected_def)

lemma reconnect_loop_run:
  assumes "back_after k s s' ss t w" and "d_command_socket w = - 1"
  shows "\<exists>w'. reconnect_loop a w = (Ret (), w') \<and> online s s' ss t w w'"
  using assms
proof (induction k arbitrary: w)
  case 0
  let ?w = "w\<lparr>d_logfile := d_logfile w @ ''Still trying to connect to the server '' @ a @ [NL]\<rparr>"
  let ?v = "(reconnected s s' t ?w)\<lparr>socket_evs := ss\<rparr>"
  have "back_after 0 s s' ss t ?w" using 0 by (simp add: back_after_def)
  then have r: "retry a w = (Ret (), ?v)" using back_now [of s s' ss t ?w] by (simp add: retry_def d_log_def bindM_def)
  have "s \<noteq> - 1" "s' \<noteq> - 1" using 0 by (simp_all add: back_after_def)
  then have "reconnect_loop a w = (Ret (), ?v)"
    using 0(2) r by (subst reconnect_loop.simps, simp) (subst reconnect_loop.simps, simp add: reconnected_def)
  moreover have "online s s' ss t w ?v" by (rule onlineI)
  ultimately show ?case by blast
next
  case (Suc k)
  let ?w = "w\<lparr>d_logfile := d_logfile w @ ''Still trying to connect to the server '' @ a @ [NL]\<rparr>"
  have "back_after (Suc k) s s' ss t ?w" using Suc.prems by (simp add: back_after_def)
  from back_later [OF this] obtain fs e es g where c: "connect_both ?w = (Ret (), w\<lparr>socket_evs := fs, connect_evs := es,
      errno := e, d_logfile := g, d_command_socket := - 1, d_data_socket := - 1\<rparr>)"
    and b: "back_after k s s' ss t (w\<lparr>socket_evs := fs, connect_evs := es,
      errno := e, d_logfile := g, d_command_socket := - 1, d_data_socket := - 1\<rparr>)" (is "back_after k s s' ss t ?v") by auto
  have "reconnect_loop a w = reconnect_loop a ?v"
    using c Suc.prems(2) by (subst reconnect_loop.simps) (simp add: retry_def d_log_def bindM_def)
  moreover obtain w' where "reconnect_loop a ?v = (Ret (), w')" "online s s' ss t ?v w'" using Suc.IH [OF b] by auto
  ultimately show ?case by (auto simp: online_def reconnected_def)
qed

lemma connecting_run:
  assumes "back_after k s s' ss t w"
  shows "\<exists>w'. bindM connect_both (\<lambda>_. reconnect_loop a) w = (Ret (), w') \<and> online s s' ss t w w'"
proof (cases k)
  case 0
  then have c: "connect_both w = (Ret (), (reconnected s s' t w)\<lparr>socket_evs := ss\<rparr>)" using assms back_now by simp
  have "s \<noteq> - 1" "s' \<noteq> - 1" using assms by (simp_all add: back_after_def)
  then have "bindM connect_both (\<lambda>_. reconnect_loop a) w = (Ret (), (reconnected s s' t w)\<lparr>socket_evs := ss\<rparr>)"
    using c by (simp add: bindM_def reconnect_loop.simps [of a] reconnected_def)
  then show ?thesis using onlineI [of s s' ss t w "d_logfile w"] by simp
next
  case (Suc j)
  from back_later [OF assms [unfolded Suc]] obtain fs e es g where
    c: "connect_both w = (Ret (), w\<lparr>socket_evs := fs, connect_evs := es, errno := e, d_logfile := g,
      d_command_socket := - 1, d_data_socket := - 1\<rparr>)"
    and b: "back_after j s s' ss t (w\<lparr>socket_evs := fs, connect_evs := es, errno := e, d_logfile := g,
      d_command_socket := - 1, d_data_socket := - 1\<rparr>)" (is "back_after j s s' ss t ?v") by blast
  obtain w' where "reconnect_loop a ?v = (Ret (), w')" "online s s' ss t ?v w'" using reconnect_loop_run [OF b] by auto
  then show ?thesis using c by (auto simp: bindM_def online_def reconnected_def)
qed

section \<open>The server is back\<close>

text \<open>The daemon logs in again on its new connections; the server lets it in, with a message that
  has no text, as it does, and \<open>rest\<close> follows.\<close>

definition welcomes :: "fd \<Rightarrow> byte list \<Rightarrow> byte list \<Rightarrow> daemon \<Rightarrow> bool" where
  "welcomes s pw rest w \<longleftrightarrow>
     (\<exists>flag. dec_message (avail s w) = Some ((flag, []), rest) \<and> flag \<noteq> as_char BAD_AUTH) \<and>
     c_str (d_password w) = Some pw \<and> length pw \<le> 252 \<and> length (d_message w) = MESSAGE_BUFFERSIZE"

lemma dmn_authenticate_run:
  assumes w: "welcomes s pw rest w" and sock: "d_command_socket w = s" and net: "snd_evs w = []"
  shows "\<exists>q g. dmn_authenticate w = (Ret EXIT_SUCCESS,
      w\<lparr>tx := (tx w)(s := tx w s @ enc_message (as_char AUTH_REQUEST, text_body pw)), rx := (rx w)(s := q), d_logfile := g\<rparr>) \<and>
    stream q = rest"
proof -
  let ?w = "sent s (enc_message (as_char AUTH_REQUEST, text_body pw)) w"
  from w obtain flag where d: "dec_message (avail s ?w) = Some ((flag, []), rest)" "flag \<noteq> as_char BAD_AUTH"
    and len: "length (d_message ?w) = MESSAGE_BUFFERSIZE" and pw: "c_str (d_password w) = Some pw" "length pw \<le> 252"
    by (auto simp: welcomes_def)
  have snd: "send_message s (as_char AUTH_REQUEST) (d_password w) w = (Ret EXIT_SUCCESS, ?w)"
    using pw net by (simp add: send_message_ideal)
  have "(consume s 2 ?w)\<lparr>d_message := d_message ?w\<rparr> = consume s 2 ?w" by (cases w) (simp add: consume_def sent_def)
  then have rcv: "receive_message_wrapper s NUL ?w = (Ret flag, consume s 2 ?w)"
    using receive_message_wrapper_run [OF d(1) len, of NUL] by simp
  have str: "stream (q_drop 2 (rx w s)) = rest"
    using message_taken(1,2) [OF d(1)] by (simp add: avail_def)
  have "dmn_authenticate w = (Ret EXIT_SUCCESS,
    w\<lparr>tx := (tx w)(s := tx w s @ enc_message (as_char AUTH_REQUEST, text_body pw)), rx := (rx w)(s := q_drop 2 (rx w s)),
      d_logfile := d_logfile w @ ''Authenticated. Wainting for client connection.'' @ [NL]\<rparr>)"
    using sock snd rcv d(2) by (simp add: dmn_authenticate_def bindM_def d_log_def) (simp add: consume_def sent_def)
  then show ?thesis using str by blast
qed

text \<open>Both old connections are closed, and the request waits unchanged.\<close>

definition restarted :: "fd \<Rightarrow> fd \<Rightarrow> byte list \<Rightarrow> byte list \<Rightarrow> byte list \<Rightarrow> daemon \<Rightarrow> daemon \<Rightarrow> bool" where
  "restarted s s' t pw rest w w' \<longleftrightarrow> (\<exists>q g ss es e. stream q = rest \<and>
     w' = w\<lparr>tx := (\<lambda>f. tx w f @
         (if f = s then enc_message (as_char AUTH_REQUEST, text_body t) @ enc_message (as_char AUTH_REQUEST, text_body pw)
          else if f = s' then enc_message (as_char AUTH_REQUEST, text_body t) else [])),
       rx := (rx w)(s := q), closed := closed w @ [d_command_socket w, d_data_socket w], socket_evs := ss,
       connect_evs := es, errno := e, d_logfile := g, d_command_socket := s, d_data_socket := s'\<rparr>)"

lemma restart_connection_run:
  assumes b: "back_after k s s' ss t w" and w: "welcomes s pw rest w" and r: "d_resolves w = []"
  shows "\<exists>w'. restart_connection a w = (Ret (), w') \<and> restarted s s' t pw rest w w'"
proof -
  let ?g = "d_logfile w @ ''server SOCKET CLOSED'' @ [NL]"
  let ?w = "w\<lparr>d_logfile := ?g, closed := closed w @ [d_command_socket w, d_data_socket w]\<rparr>"
  have "back_after k s s' ss t ?w" using b by (simp add: back_after_def)
  from connecting_run [OF this] obtain v where v: "bindM connect_both (\<lambda>_. reconnect_loop a) ?w = (Ret (), v)"
    and on: "online s s' ss t ?w v" by blast
  have sv: "d_command_socket v = s" "snd_evs v = []" "welcomes s pw rest v"
    using on b w by (auto simp: online_def reconnected_def back_after_def welcomes_def avail_def)
  from dmn_authenticate_run [OF sv(3,1,2)] obtain q g where au: "dmn_authenticate v = (Ret EXIT_SUCCESS,
    v\<lparr>tx := (tx v)(s := tx v s @ enc_message (as_char AUTH_REQUEST, text_body pw)), rx := (rx v)(s := q), d_logfile := g\<rparr>)"
    (is "_ = (_, ?u)") and q: "stream q = rest" by blast
  have "restart_connection a w = bindM (bindM connect_both (\<lambda>_. reconnect_loop a)) (\<lambda>_. bindM dmn_authenticate (\<lambda>r.
     if r \<noteq> EXIT_SUCCESS then failM (Exit EXIT_FAILURE) else retM ())) ?w"
    using r by (simp add: restart_connection_def bindM_assoc) (simp add: bindM_def d_log_def os_gethostbyname_def os_close_def)
  then have "restart_connection a w = (Ret (), ?u)" using v au by (simp add: bindM_def)
  moreover have "restarted s s' t pw rest w ?u"
  proof -
    from on obtain es e g' where "v = (reconnected s s' t ?w)\<lparr>socket_evs := ss, connect_evs := es, errno := e, d_logfile := g'\<rparr>"
      by (auto simp: online_def)
    then show ?thesis unfolding restarted_def using q
      by (intro exI [of _ q] exI [of _ g] exI [of _ ss] exI [of _ es] exI [of _ e])
        (auto simp: reconnected_def fun_eq_iff)
  qed
  ultimately show ?thesis by blast
qed

lemma lost_server_handled:
  assumes b: "back_after k s s' ss t w" and w: "welcomes s pw rest w" and r: "d_resolves w = []"
  shows "\<exists>w'. run_handlers a SOCKET_CLOSED w = (Ret (), w') \<and>
    restarted s s' t pw rest (w\<lparr>d_attrs := (d_attrs w)\<lparr>discard := 0\<rparr>, d_resend := True\<rparr>) w'"
proof -
  let ?w = "w\<lparr>d_attrs := (d_attrs w)\<lparr>discard := 0\<rparr>, d_resend := True\<rparr>"
  have "back_after k s s' ss t ?w" "welcomes s pw rest ?w" "d_resolves ?w = []"
    using assms by (simp_all add: back_after_def welcomes_def avail_def)
  from restart_connection_run [OF this] obtain w' where "restart_connection a ?w = (Ret (), w')"
    "restarted s s' t pw rest ?w w'" by blast
  then show ?thesis by (simp add: run_handlers.simps [of a] catch_def return_codes bindM_def)
qed

text \<open>The state in which a request goes out again.\<close>

lemma restarted_fields:
  assumes "restarted s s' t pw rest w w'"
  shows "d_request w' = d_request w" "d_attrs w' = d_attrs w" "d_header w' = d_header w" "d_resend w' = d_resend w"
    "d_message w' = d_message w" "d_client_socket w' = d_client_socket w" "d_command_socket w' = s" "d_data_socket w' = s'"
    "snd_evs w' = snd_evs w" "sel_evs w' = sel_evs w" "d_fopen_evs w' = d_fopen_evs w" "d_fread_evs w' = d_fread_evs w"
    "d_data w' = d_data w" "d_fs w' = d_fs w" "avail s w' = rest"
    "closed w' = closed w @ [d_command_socket w, d_data_socket w]"
    "tx w' = (\<lambda>f. tx w f @
         (if f = s then enc_message (as_char AUTH_REQUEST, text_body t) @ enc_message (as_char AUTH_REQUEST, text_body pw)
          else if f = s' then enc_message (as_char AUTH_REQUEST, text_body t) else []))"
  using assms by (auto simp: restarted_def avail_def)

section \<open>A handler that returns\<close>

lemma reconnect_loop_connected:
  "reconnect_loop a w = (Ret u, w') \<Longrightarrow> d_command_socket w' \<noteq> - 1 \<and> d_data_socket w' \<noteq> - 1"
proof (induction a w arbitrary: w' rule: reconnect_loop.induct)
  case (1 a w)
  obtain x v where x: "retry a w = (x, v)" by fastforce
  show ?case
  proof (cases "d_command_socket w = - 1 \<or> d_data_socket w = - 1")
    case True
    then have "\<exists>y. x = Ret y \<and> reconnect_loop a v = (Ret u, w')"
      using "1.prems" x by (subst (asm) reconnect_loop.simps) (cases x; simp)
    then show ?thesis using "1.IH" [OF True x [symmetric]] by blast
  next
    case False
    then show ?thesis using "1.prems" by (subst (asm) reconnect_loop.simps) simp
  qed
qed

text \<open>Logging in leaves the descriptors alone.\<close>

definition has_sockets :: "fd \<Rightarrow> fd \<Rightarrow> daemon \<Rightarrow> bool" where
  "has_sockets c d w \<longleftrightarrow> d_command_socket w = c \<and> d_data_socket w = d"

lemma dmn_authenticate_sockets_kept: "keeps (has_sockets c d) dmn_authenticate"
proof -
  have snd: "keeps (has_sockets c d) (send_message s f m)" for s f m
  proof (rule keepsI)
    fix w assume "has_sockets c d w"
    then show "has_sockets c d (snd (send_message s f m w))"
      using send_message_frame [of s f m w] by (cases "send_message s f m w") (auto simp: has_sockets_def)
  qed
  have rcv: "keeps (has_sockets c d) (receive_message s f m)" for s f m
  proof (rule keepsI)
    fix w assume "has_sockets c d w"
    then show "has_sockets c d (snd (receive_message s f m w))"
      using receive_message_frame [of s f m w] by (cases "receive_message s f m w") (auto simp: has_sockets_def)
  qed
  have "keeps (has_sockets c d) (receive_message_wrapper s f)" for s f
    unfolding receive_message_wrapper_def
  proof (intro keeps_bindM keeps_basic)
    fix m x
    show "keeps (has_sockets c d) (receive_message s f m)" by (rule rcv)
    show "keeps (has_sockets c d) (case x of (error, flag, message) \<Rightarrow>
        bindM (modifyM (\<lambda>w. w\<lparr>d_message := message\<rparr>)) (\<lambda>_. if error \<noteq> EXIT_SUCCESS then failM (Throw error) else retM flag))"
      by (cases x) (auto intro!: keeps_intros simp: has_sockets_def)
  qed
  then show ?thesis
    unfolding dmn_authenticate_def d_log_def
    by (intro keeps_intros snd) (auto simp: has_sockets_def)
qed

lemma restart_connection_connected:
  assumes "restart_connection a w = (Ret u, w')"
  shows "d_command_socket w' \<noteq> - 1 \<and> d_data_socket w' \<noteq> - 1"
proof -
  from assms obtain v u r where 1: "reconnect_loop a v = (Ret (), u)" and 2: "dmn_authenticate u = (Ret r, w')"
    by (auto simp: restart_connection_def bindM_eq_Ret split: if_splits)
  have "has_sockets (d_command_socket u) (d_data_socket u) w'"
    using keepsD [OF dmn_authenticate_sockets_kept _ 2] by (simp add: has_sockets_def)
  then show ?thesis using reconnect_loop_connected [OF 1] by (simp add: has_sockets_def)
qed

text \<open>An exception from there asks for another attempt.\<close>

definition asks_again :: "'a result \<Rightarrow> bool" where
  "asks_again r \<longleftrightarrow> (\<forall>e. r = Throw e \<longrightarrow> e = SOCKET_CLOSED \<or> e = FORCED_SOCKET_CLOSED)"

definition asking :: "'a dmn \<Rightarrow> bool" where
  "asking m \<longleftrightarrow> (\<forall>w. asks_again (fst (m w)))"

lemma asking_bindM:
  assumes "asking m" and "\<And>x. asking (f x)"
  shows "asking (bindM m f)"
proof (unfold asking_def, rule allI)
  fix w
  obtain r v where "m w = (r, v)" by fastforce
  then show "asks_again (fst (bindM m f w))"
    using assms by (cases r) (auto simp: asking_def asks_again_def bindM_def dest: spec [of _ w])
qed

lemma asking_basic:
  "asking (retM x)" "asking (getM g)" "asking (modifyM h)" "asking (failM (Exit c))"
  "asking (d_log t)" "asking d_strerror" "asking (os_close s)" "asking os_socket" "asking (os_connect s)"
  "asking os_gethostbyname" "asking (send_message s f m)"
proof -
  show "asking (send_message s f m)"
    using send_message_no_throw [of s f m] by (auto simp: asking_def asks_again_def prod_eq_iff)
qed (auto simp: asking_def asks_again_def d_log_def d_strerror_def os_close_def os_socket_def os_connect_def
      os_gethostbyname_def split: list.splits option.splits)

lemma asking_if: "asking m \<Longrightarrow> asking n \<Longrightarrow> asking (if b then m else n)"
  by simp

lemma asking_messages: "asking (send_message_wrapper s f m)" "asking (receive_message_wrapper s f)"
proof -
  have "asking (failM (Throw FORCED_SOCKET_CLOSED) :: unit dmn)" by (simp add: asking_def asks_again_def)
  then show "asking (send_message_wrapper s f m)"
    unfolding send_message_wrapper_def by (intro asking_bindM asking_if asking_basic)
  show "asking (receive_message_wrapper s f)"
  proof (unfold asking_def, rule allI)
    fix w :: daemon
    obtain x v where x: "receive_message s f (d_message w) w = (x, v)" by fastforce
    show "asks_again (fst (receive_message_wrapper s f w))"
      using x receive_message_outcomes [OF x] receive_message_ret [of s f "d_message w" w _ _ _ v]
      by (fastforce simp: receive_message_wrapper_def bindM_def asks_again_def split: result.splits prod.splits if_splits)
  qed
qed

lemma asking_connect_both: "asking connect_both"
proof -
  have "asking client_connect"
    unfolding client_connect_def d_log_error_def by (intro asking_bindM asking_if asking_basic asking_messages)
  then show ?thesis unfolding connect_both_def by (intro asking_bindM asking_basic)
qed

lemma asking_reconnect_loop: "asking (reconnect_loop a)"
proof (unfold asking_def, rule allI)
  have retry: "asking (retry a)" unfolding retry_def by (intro asking_bindM asking_basic asking_connect_both)
  fix w
  show "asks_again (fst (reconnect_loop a w))"
  proof (induction a w rule: reconnect_loop.induct)
    case (1 a w)
    have "asks_again (fst (retry a w))"
      using asking_connect_both unfolding retry_def by (meson asking_def asking_bindM asking_basic(5))
    with 1 show ?case
      by (subst reconnect_loop.simps) (auto simp: asks_again_def split: prod.splits result.splits)
  qed
qed

lemma asking_restart_connection: "asking (restart_connection a)"
  unfolding restart_connection_def dmn_authenticate_def d_log_error_def
  by (intro asking_bindM asking_if asking_basic asking_messages asking_connect_both asking_reconnect_loop)

lemma run_handlers_connected:
  "run_handlers a x w = (Ret (), w') \<Longrightarrow> x = SOCKET_CLOSED \<or> x = FORCED_SOCKET_CLOSED \<Longrightarrow>
     d_command_socket w' \<noteq> - 1 \<and> d_data_socket w' \<noteq> - 1"
proof (induction a x w rule: run_handlers.induct)
  case (1 a x w)
  have "\<exists>v. catch a x w = restart_connection a v"
    using "1.prems"(2) by (auto simp: catch_def close_client_def os_close_def bindM_def return_codes)
  then obtain v where v: "catch a x w = restart_connection a v" by blast
  obtain r u where r: "restart_connection a v = (r, u)" by fastforce
  have "asks_again r" using asking_restart_connection r by (metis asking_def fst_conv)
  then show ?case
    using "1.prems"(1) v r restart_connection_connected [of a v _ w'] "1.IH"
    by (cases r) (auto simp: run_handlers.simps [of a x w] asks_again_def)
qed

end
