(* ===== verification/Daemon_Calm.thy ===== *)
theory Daemon_Calm
  imports Calm Daemon_Restart
begin

text \<open>
  The daemon is calm: no peer can kill it by closing a connection, and what it has sent stays sent.
\<close>

lemma calm_local [calm_intros]:
  "calm (d_log t)" "calm d_strerror" "calm (d_log_error t)" "calm d_fclose" "calm (os_fread buf n)"
  "calm os_gethostbyname" "calm (os_stat64 p)" "calm (os_fopen_rb p)" "calm os_accept_client"
proof -
  show log: "calm (d_log t)" for t by (auto simp: d_log_def intro: calm_modifyM)
  show str: "calm d_strerror" unfolding d_strerror_def by (rule calm_basic)
  show "calm (d_log_error t)" unfolding d_log_error_def by (intro calm_intros log str)
  show "calm d_fclose" by (auto simp: calm_def grows_def d_fclose_def split: handle.splits)
  show "calm (os_fread buf n)"
    by (auto simp: calm_def grows_def os_fread_def split: handle.splits list.splits option.splits)
  show "calm os_gethostbyname" by (auto simp: calm_def grows_def os_gethostbyname_def split: list.splits)
  show "calm (os_stat64 p)" by (auto simp: calm_def grows_def os_stat64_def split: option.splits)
  show "calm (os_fopen_rb p)" by (auto simp: calm_def grows_def os_fopen_rb_def split: list.splits option.splits)
  show "calm os_accept_client" by (auto simp: calm_def grows_def os_accept_client_def split: list.splits)
qed

lemma calm_wrappers [calm_intros]:
  "calm (send_wrapper s b n)" "calm (fread_wrapper b n)" "calm (receive_message_wrapper s f)"
  "calm (send_path_wrapper p s k)"
  unfolding send_wrapper_def fread_wrapper_def receive_message_wrapper_def send_path_wrapper_def
  by (intro calm_intros; simp)+

lemma calm_send_message_wrapper [calm_intros]: "calm (send_message_wrapper s f m)"
  unfolding send_message_wrapper_def by (intro calm_intros)

lemma calm_load_path_wrapper [calm_intros]:
  "(\<And>p w. tx (put p w) = tx w) \<Longrightarrow> (\<And>p w. sigpipe_ignored (put p w) = sigpipe_ignored w) \<Longrightarrow>
     calm (load_path_wrapper n s p put)"
  unfolding load_path_wrapper_def by (intro calm_intros)

lemma calm_dmn_dealloc [calm_intros]: "calm dmn_dealloc"
  unfolding dmn_dealloc_def by (intro calm_intros)

section \<open>Reconnecting\<close>

lemma calm_connect_both [calm_intros]: "calm connect_both"
proof -
  have "calm client_connect" unfolding client_connect_def by (intro calm_intros)
  then show ?thesis unfolding connect_both_def by (intro calm_intros; simp)
qed

lemma calm_dmn_authenticate [calm_intros]: "calm dmn_authenticate"
  unfolding dmn_authenticate_def by (intro calm_intros)

lemma calm_retry [calm_intros]: "calm (retry a)"
  unfolding retry_def by (intro calm_intros)

lemma calm_reconnect_loop [calm_intros]: "calm (reconnect_loop a)"
proof (rule calmI)
  fix w r w'
  show "reconnect_loop a w = (r, w') \<Longrightarrow> grows w w' \<and> (sigpipe_ignored w \<longrightarrow> r \<noteq> Killed)"
  proof (induction a w arbitrary: r w' rule: reconnect_loop.induct)
    case (1 a w)
    obtain x v where x: "retry a w = (x, v)" by fastforce
    note c = calmD [OF calm_retry x]
    show ?case
      using "1.prems" x c "1.IH" [OF _ x [symmetric]] calm_step [of w v w' r]
      by (cases x) (auto simp: reconnect_loop.simps [of a w] split: if_splits)
  qed
qed

lemma calm_restart_connection [calm_intros]: "calm (restart_connection a)"
  unfolding restart_connection_def by (intro calm_intros)

lemma calm_run_handlers: "calm (run_handlers a x)"
proof (rule calmI)
  have catch: "calm (catch a x)" for x
    unfolding catch_def close_client_def by (intro calm_intros; simp)
  fix w r w'
  show "run_handlers a x w = (r, w') \<Longrightarrow> grows w w' \<and> (sigpipe_ignored w \<longrightarrow> r \<noteq> Killed)"
  proof (induction a x w arbitrary: r w' rule: run_handlers.induct)
    case (1 a x w)
    obtain y v where y: "catch a x w = (y, v)" by fastforce
    have c: "grows w v \<and> (sigpipe_ignored w \<longrightarrow> y \<noteq> Killed)"
      using y by (rule calmD [rotated]) (auto simp: catch_def close_client_def intro!: calm_intros)
    show ?case
      using "1.prems" y c "1.IH" [OF y [symmetric]] calm_step [of w v w' r]
      by (cases y) (auto simp: run_handlers.simps [of a x w])
  qed
qed

section \<open>A request\<close>

lemma calm_scm_loop: "calm (scm_loop buf ws ss cl bytes flag k)"
proof (rule calmI)
  fix w r w'
  show "scm_loop buf ws ss cl bytes flag k w = (r, w') \<Longrightarrow> grows w w' \<and> (sigpipe_ignored w \<longrightarrow> r \<noteq> Killed)"
  proof (induction "length (sel_evs w)" arbitrary: k w r w' rule: less_induct)
    case less
    show ?case
    proof (cases "k < bytes \<and> sel_evs w \<noteq> []")
      case False
      then show ?thesis using less.prems by (auto simp: scm_loop.simps [of buf] os_select_def split: if_splits)
    next
      case True
      then obtain e es where lt: "k < bytes" and ev: "sel_evs w = e # es" by (cases "sel_evs w") auto
      let ?w1 = "w\<lparr>sel_evs := es\<rparr>"
      have sel: "os_select w = (Ret e, ?w1)" using ev by (simp add: os_select_def)
      have g: "grows w ?w1" by (simp add: grows_same)
      have again: "grows w w' \<and> (sigpipe_ignored w \<longrightarrow> r \<noteq> Killed)"
        if "scm_loop buf ws ss cl bytes flag k' v = (r, w')" "grows w v" "sel_evs v = es" for k' v
        using less.hyps [OF _ that(1)] that ev calm_step by auto
      have last: "grows w w' \<and> (sigpipe_ignored w \<longrightarrow> r \<noteq> Killed)" if "calm m" "m v = (r, w')" "grows w v"
        for m :: "(byte \<times> u64) dmn" and v
        using calm_step [OF that(3)] calmD [OF that(1,2)] by blast
      show ?thesis
      proof (cases "sel_write e")
        case False
        have "calm (bindM (getM d_message) (\<lambda>message.
            bindM (receive_message cl flag message) (\<lambda>(q, flag, message).
            bindM (modifyM (\<lambda>w. w\<lparr>d_message := message\<rparr>)) (\<lambda>_.
              if q = SOCKET_CLOSED then failM (Throw FORCED_SOCKET_CLOSED) else retM (flag, k)))))"
          "calm (bindM (receive_message_wrapper ss flag) (\<lambda>flag. retM (flag, k)))"
          "calm (bindM (d_log_error ''select'') (\<lambda>_. failM (Throw EXIT_FAILURE)) :: (byte \<times> u64) dmn)"
          by (intro calm_intros; simp)+
        then show ?thesis
          using less.prems sel lt False again [of k ?w1] last [OF _ _ g] g
          by (auto simp: scm_loop.simps [of buf _ _ _ _ _ _ w] simp del: bindM_run split: if_splits)
      next
        case wr: True
        let ?send = "bindM (orUb (buf_read buf (unat k) (unat (bytes - k)))) (os_send ws)"
        obtain x v where sn: "?send ?w1 = (x, v)" by fastforce
        have "calm (?send :: int dmn)" by (intro calm_intros)
        note c = calmD [OF this sn]
        have gv: "grows w v" using c grows_trans [OF g] by blast
        show ?thesis
        proof (cases "\<exists>n. x = Ret n")
          case False
          then show ?thesis using less.prems sel lt wr sn c calm_step [OF g]
            by (cases x) (auto simp: scm_loop.simps [of buf _ _ _ _ _ _ w])
        next
          case True
          then obtain n where n: "x = Ret n" by blast
          have es: "sel_evs v = es" using bindM_orUb_os_send_sel [OF sn [unfolded n]] by simp
          have failed: "calm (bindM (d_log_error ''send'') (\<lambda>_. failM (Throw SOCKET_CLOSED)) :: (byte \<times> u64) dmn)"
            by (intro calm_intros)
          show ?thesis
            using less.prems sel lt wr sn n again [OF _ gv es] last [OF failed _ gv]
            by (auto simp: scm_loop.simps [of buf _ _ _ _ _ _ w] Let_def split: if_splits)
        qed
      qed
    qed
  qed
qed

lemma calm_send_data [calm_intros]: "calm (send_data n)"
proof -
  have block: "calm (send_block n l)" for n l
    unfolding send_block_def send_bytes_check_message_def Let_def by (intro calm_intros calm_scm_loop; simp)
  have "calm (send_blocks n l)" for n l
    by (induction n l rule: send_blocks.induct) (simp_all only: send_blocks.simps, auto intro!: calm_intros block simp del: retM_run)
  then show ?thesis unfolding send_data_def Let_def by (intro calm_intros block; simp)
qed

lemma calm_await_answer: "calm await_answer"
  unfolding await_answer_def by (intro calm_intros; simp)

lemma calm_try_body: "calm (try_body st0)"
proof -
  have "calm (create_dest_file_attrs st0)"
    unfolding create_dest_file_attrs_def Let_def by (intro calm_intros; simp)
  moreover have "calm (load_file_attrs s)" for s
    unfolding load_file_attrs_def recv_bytes_wrapper_def Let_def by (intro calm_intros; simp)
  ultimately have "calm (load_request st0)"
    unfolding load_request_def by (intro calm_intros; simp add: put_source_def put_destination_def)
  moreover have "calm send_request" unfolding send_request_def by (intro calm_intros)
  moreover from this have "calm transfer_file" unfolding transfer_file_def by (intro calm_intros)
  ultimately show ?thesis unfolding try_body_def by (intro calm_intros calm_await_answer; simp)
qed

lemma calm_dmn_round: "calm (dmn_round a st0)"
proof -
  have "calm accept_request" unfolding accept_request_def by (intro calm_intros; simp)
  moreover have "calm (\<lambda>w. case try_body st0 w of (Throw x, w') \<Rightarrow> run_handlers a x w' | r \<Rightarrow> r)"
  proof (rule calmI)
    fix w r w' assume run: "(case try_body st0 w of (Throw x, w') \<Rightarrow> run_handlers a x w' | r \<Rightarrow> r) = (r, w')"
    obtain x v where x: "try_body st0 w = (x, v)" by fastforce
    show "grows w w' \<and> (sigpipe_ignored w \<longrightarrow> r \<noteq> Killed)"
      using run x calmD [OF calm_try_body x] calm_step [of w v w' r] calmD [OF calm_run_handlers, of a _ v r w']
      by (cases x) auto
  qed
  ultimately show ?thesis unfolding dmn_round_def by (intro calm_intros; simp)
qed

end
