(* ===== verification/Daemon_Counts.thy ===== *)
theory Daemon_Counts
  imports Daemon_Serves
begin

text \<open>
  The count behind the protocol's recovery: when the server refuses a transfer while the daemon is
  still sending its data, the daemon stops and has to tell the server how many bytes to skip.
  Here: as long as no \<^verbatim>\<open>send\<close> fails, \<open>sent_bytes\<close> is the number of bytes handed over whatever
  pieces they went in and whoever interrupted, and \<open>discard\<close> ends up as their sum.
\<close>

section \<open>send\_bytes\_check\_message\<close>

fun send_ok :: "snd_ev \<Rightarrow> bool" where
  "send_ok (SOk k) = True"
| "send_ok (SErr e) = False"

definition same_job :: "daemon \<Rightarrow> daemon \<Rightarrow> bool" where
  "same_job w w' \<longleftrightarrow> d_attrs w' = d_attrs w \<and> d_file w' = d_file w \<and> length (d_data w') = length (d_data w) \<and>
     d_data_socket w' = d_data_socket w \<and> d_client_socket w' = d_client_socket w"

lemma same_job_trans: "same_job w v \<Longrightarrow> same_job v u \<Longrightarrow> same_job w u"
  by (simp add: same_job_def)

lemma same_job_net [simp]:
  "same_job w (w\<lparr>rx := x1\<rparr>)" "same_job w (w\<lparr>sel_evs := x2\<rparr>)" "same_job w (w\<lparr>d_logfile := x3\<rparr>)"
  "same_job w (w\<lparr>rx := x1, d_message := x4\<rparr>)" "same_job w w"
  by (simp_all add: same_job_def)

lemma os_send_counts:
  assumes "os_send s bs w = (x, v)" and "list_all send_ok (snd_evs w)"
  obtains k where "k \<le> length bs" "x = Ret (int k)" "tx v = (tx w)(s := tx w s @ take k bs)"
    "list_all send_ok (snd_evs v)" "same_job w v" "sel_evs v = sel_evs w"
proof (cases "snd_evs w")
  case Nil
  then show ?thesis using assms that [of "length bs"] by (auto simp: os_send_def same_job_def)
next
  case (Cons e es)
  with assms(2) obtain k where "e = SOk k" by (cases e) auto
  with Cons assms show ?thesis
    using that [of "min k (length bs)"] by (auto simp: os_send_def same_job_def)
qed

text \<open>What a run of the loop has handed over of the bytes \<open>rest\<close>, and counted.\<close>

definition scm_post :: "fd \<Rightarrow> byte list \<Rightarrow> u64 \<Rightarrow> (byte \<times> u64) result \<Rightarrow> daemon \<Rightarrow> daemon \<Rightarrow> bool" where
  "scm_post ws rest sb r w w' \<longleftrightarrow> (\<exists>n \<le> length rest.
     tx w' = (tx w)(ws := tx w ws @ take n rest) \<and> list_all send_ok (snd_evs w') \<and> same_job w w' \<and>
     (\<forall>f m. r = Ret (f, m) \<longrightarrow> unat m = unat sb + n) \<and> r \<noteq> Throw RECEIVED_BAD_ACK)"

lemma scm_post_none:
  assumes "tx v = tx w" and "list_all send_ok (snd_evs v)" and "same_job w v"
    and "\<And>f m. r = Ret (f, m) \<Longrightarrow> m = sb" and "r \<noteq> Throw RECEIVED_BAD_ACK"
  shows "scm_post ws rest sb r w v"
  unfolding scm_post_def
  by (rule exI [of _ 0]) (use assms in \<open>auto simp: fun_upd_idem\<close>)

lemma scm_post_step:
  assumes "tx v = (tx w)(ws := tx w ws @ take k rest)" and "k \<le> length rest" and "same_job w v"
    and "unat sc = unat sb + k" and "scm_post ws (drop k rest) sc r v w'"
  shows "scm_post ws rest sb r w w'"
proof -
  from assms(5) obtain n where n: "n \<le> length (drop k rest)" "tx w' = (tx v)(ws := tx v ws @ take n (drop k rest))"
    "list_all send_ok (snd_evs w')" "same_job v w'" "\<And>f m. r = Ret (f, m) \<Longrightarrow> unat m = unat sc + n"
    "r \<noteq> Throw RECEIVED_BAD_ACK" unfolding scm_post_def by blast
  have "tx w' = (tx w)(ws := tx w ws @ take (k + n) rest)"
    using n(2) assms(1) by (simp add: take_add)
  moreover have "unat m = unat sb + (k + n)" if "r = Ret (f, m)" for f m
    using n(5) [OF that] assms(4) by simp
  ultimately show ?thesis
    unfolding scm_post_def using n assms(2) same_job_trans [OF assms(3) n(4)]
    by (intro exI [of _ "k + n"]) auto
qed

lemma receive_in_scm:
  assumes "list_all send_ok (snd_evs w)"
    and "bindM (receive_message_wrapper s flag) (\<lambda>flag. retM (flag, sb)) w = (r, w')"
  shows "scm_post ws rest sb r w w'"
proof -
  obtain x v where x: "receive_message s flag (d_message w) w = (x, v)" by fastforce
  obtain q where v: "v = w\<lparr>rx := (rx w)(s := q)\<rparr>" using receive_message_frame [OF x] by blast
  show ?thesis
  proof (rule scm_post_none)
    show "tx w' = tx w" "same_job w w'" "list_all send_ok (snd_evs w')"
      "\<And>f m. r = Ret (f, m) \<Longrightarrow> m = sb"
      using assms x v
      by (auto simp: receive_message_wrapper_def bindM_def split: result.splits prod.splits if_splits)
    show "r \<noteq> Throw RECEIVED_BAD_ACK"
      using assms(2) x receive_message_ret [of s flag "d_message w" w] receive_message_outcomes [OF x]
      by (fastforce simp: receive_message_wrapper_def bindM_def return_codes split: result.splits prod.splits if_splits)
  qed
qed

lemma client_in_scm:
  assumes "list_all send_ok (snd_evs w)"
    and "bindM (getM d_message) (\<lambda>message.
      bindM (receive_message s flag message) (\<lambda>(r, flag, message).
      bindM (modifyM (\<lambda>w. w\<lparr>d_message := message\<rparr>)) (\<lambda>_.
        if r = SOCKET_CLOSED then failM (Throw FORCED_SOCKET_CLOSED) else retM (flag, sb)))) w = (r, w')"
  shows "scm_post ws rest sb r w w'"
proof -
  obtain x v where x: "receive_message s flag (d_message w) w = (x, v)" by fastforce
  obtain q where v: "v = w\<lparr>rx := (rx w)(s := q)\<rparr>" using receive_message_frame [OF x] by blast
  show ?thesis
  proof (rule scm_post_none)
    show "tx w' = tx w" "same_job w w'" "list_all send_ok (snd_evs w')"
      "\<And>f m. r = Ret (f, m) \<Longrightarrow> m = sb"
      using assms x v by (auto simp: bindM_def split: result.splits prod.splits if_splits)
    show "r \<noteq> Throw RECEIVED_BAD_ACK"
      using assms(2) x receive_message_outcomes [OF x]
      by (fastforce simp: bindM_def return_codes split: result.splits prod.splits if_splits)
  qed
qed

text \<open>A round in which the socket is writable, given what the rest of the loop does.\<close>

lemma scm_write_round:
  assumes run: "scm_loop buf ws ss cl bytes flag sb w = (r, w')" and ok: "list_all send_ok (snd_evs w)"
    and lt: "sb < bytes" and len: "unat bytes \<le> length buf" and ev: "sel_evs w = e # es" "sel_write e"
    and IH: "\<And>sc v. scm_loop buf ws ss cl bytes flag sc v = (r, w') \<Longrightarrow> sel_evs v = es \<Longrightarrow>
      list_all send_ok (snd_evs v) \<Longrightarrow> sc \<le> bytes \<Longrightarrow>
      scm_post ws (take (unat (bytes - sc)) (drop (unat sc) buf)) sc r v w'"
  shows "scm_post ws (take (unat (bytes - sb)) (drop (unat sb) buf)) sb r (w\<lparr>sel_evs := es\<rparr>) w'"
proof -
  let ?rest = "take (unat (bytes - sb)) (drop (unat sb) buf)" and ?w1 = "w\<lparr>sel_evs := es\<rparr>"
  have m: "length ?rest = unat (bytes - sb)"
    using len lt by (simp add: unat_minus_le word_less_nat_alt word_le_nat_alt)
  obtain x v where sn: "os_send ws ?rest ?w1 = (x, v)" by fastforce
  from os_send_counts [OF this] ok obtain k where k: "k \<le> length ?rest" "x = Ret (int k)"
    "tx v = (tx ?w1)(ws := tx ?w1 ws @ take k ?rest)" "list_all send_ok (snd_evs v)" "same_job ?w1 v"
    "sel_evs v = es" by auto
  let ?n = "word_of_int (int k) :: u64"
  have go: "(r, w') = (if ?n < 1 \<and> errno v = EWOULDBLOCK then scm_loop buf ws ss cl bytes flag sb v
     else if ?n < 1 then bindM (d_log_error ''send'') (\<lambda>_. failM (Throw SOCKET_CLOSED)) v
     else scm_loop buf ws ss cl bytes flag (sb + ?n) v)"
    unfolding run [symmetric] by (rule scm_loop_round [OF lt ev len sn [unfolded k(2)], unfolded Let_def])
  have km: "k \<le> unat (bytes - sb)" using k(1) m by simp
  note adv = counter_advance [OF lt km]
  have step: "scm_post ws ?rest sb r ?w1 w'" if "scm_post ws (drop k ?rest) sc r v w'" "unat sc = unat sb + k" for sc
    using scm_post_step [OF k(3,1,5) that(2,1)] .
  show ?thesis
  proof (cases "?n < 1")
    case True
    then have "k = 0" using word_of_int_count_0 [OF km] by (simp add: word_less_1)
    moreover have "scm_post ws ?rest sb r v w'"
    proof (cases "errno v = EWOULDBLOCK")
      case True
      then show ?thesis using go \<open>?n < 1\<close> lt k by (intro IH) auto
    next
      case False
      then show ?thesis using go \<open>?n < 1\<close> k(4)
        by (intro scm_post_none) (auto simp: d_log_error_def d_strerror_def d_log_def return_codes bindM_def)
    qed
    ultimately show ?thesis using step [of sb] by simp
  next
    case False
    have "scm_post ws (take (unat (bytes - (sb + ?n))) (drop (unat (sb + ?n)) buf)) (sb + ?n) r v w'"
      by (rule IH) (use False go k adv in auto)
    moreover have "take (unat (bytes - (sb + ?n))) (drop (unat (sb + ?n)) buf) = drop k ?rest"
      using adv by (simp add: drop_take add.commute)
    ultimately show ?thesis using step [of "sb + ?n"] adv by simp
  qed
qed

lemma scm_counts:
  assumes "scm_loop buf ws ss cl bytes flag sb w = (r, w')" and "list_all send_ok (snd_evs w)"
    and "sb \<le> bytes" and "unat bytes \<le> length buf"
  shows "scm_post ws (take (unat (bytes - sb)) (drop (unat sb) buf)) sb r w w'"
  using assms
proof (induction "length (sel_evs w)" arbitrary: sb w rule: less_induct)
  case less
  let ?rest = "take (unat (bytes - sb)) (drop (unat sb) buf)"
  show ?case
  proof (cases "sb < bytes \<and> sel_evs w \<noteq> []")
    case False
    then show ?thesis using less.prems
      by (intro scm_post_none) (auto simp: scm_loop.simps [of buf] os_select_def split: if_splits)
  next
    case True
    then obtain e es where lt: "sb < bytes" and ev: "sel_evs w = e # es" by (cases "sel_evs w") auto
    let ?w1 = "w\<lparr>sel_evs := es\<rparr>"
    have run: "(r, w') = (if sel_server e then bindM (receive_message_wrapper ss flag) (\<lambda>flag. retM (flag, sb)) ?w1
        else if sel_client e then
          bindM (getM d_message) (\<lambda>message.
          bindM (receive_message cl flag message) (\<lambda>(r, flag, message).
          bindM (modifyM (\<lambda>w. w\<lparr>d_message := message\<rparr>)) (\<lambda>_.
            if r = SOCKET_CLOSED then failM (Throw FORCED_SOCKET_CLOSED) else retM (flag, sb)))) ?w1
        else if sel_ret e = - 1 then bindM (d_log_error ''select'') (\<lambda>_. failM (Throw EXIT_FAILURE)) ?w1
        else scm_loop buf ws ss cl bytes flag sb ?w1)" if "\<not> sel_write e"
      using less.prems(1) that lt ev by (simp add: scm_loop.simps [of buf _ _ _ _ _ _ w] os_select_def)
    have "scm_post ws ?rest sb r ?w1 w'"
    proof (cases "sel_write e")
      case True
      show ?thesis
        by (rule scm_write_round [OF less.prems(1,2) lt less.prems(4) ev True], rule less.hyps)
          (use ev less.prems in simp_all)
    next
      case False
      have again: "scm_post ws ?rest sb r ?w1 w'" if "scm_loop buf ws ss cl bytes flag sb ?w1 = (r, w')"
        by (rule less.hyps) (use that less.prems ev in simp_all)
      have failed: "scm_post ws ?rest sb r ?w1 w'"
        if "bindM (d_log_error ''select'') (\<lambda>_. failM (Throw EXIT_FAILURE)) ?w1 = (r, w')"
        using that less.prems(2)
        by (intro scm_post_none) (auto simp: d_log_error_def d_strerror_def d_log_def return_codes bindM_def same_job_def)
      have ok: "list_all send_ok (snd_evs ?w1)" using less.prems(2) by simp
      from run [OF False] show ?thesis
        using receive_in_scm [OF ok] client_in_scm [OF ok] again failed by (metis (no_types, lifting))
    qed
    then show ?thesis by (intro scm_post_step [of ?w1 w ws 0]) (simp_all add: fun_upd_idem)
  qed
qed

section \<open>send\_data\<close>

definition counting :: "fd \<Rightarrow> daemon \<Rightarrow> bool" where
  "counting s w \<longleftrightarrow> list_all send_ok (snd_evs w) \<and> length (d_data w) = BUFFERSIZE \<and> d_data_socket w = s"

definition counted :: "fd \<Rightarrow> u64 \<Rightarrow> u64 \<Rightarrow> daemon \<Rightarrow> daemon \<Rightarrow> bool" where
  "counted s a b w w' \<longleftrightarrow> (\<exists>bs. tx w' = (tx w)(s := tx w s @ bs) \<and> b = a + of_nat (length bs))"

lemma counted_trans: "counted s a b w v \<Longrightarrow> counted s b c v u \<Longrightarrow> counted s a c w u"
  unfolding counted_def by (metis (no_types, lifting) add.assoc append.assoc fun_upd_same fun_upd_upd length_append of_nat_add)

text \<open>What a step of \<open>send_data\<close> does to the running total, and to \<open>discard\<close> when it is interrupted.\<close>

definition keeps_count :: "fd \<Rightarrow> u64 \<Rightarrow> (byte \<times> u64) result \<Rightarrow> daemon \<Rightarrow> daemon \<Rightarrow> bool" where
  "keeps_count s a r w w' \<longleftrightarrow>
     (\<forall>l. r = Ret l \<longrightarrow> counting s w' \<and> counted s a (snd l) w w') \<and>
     (r = Throw RECEIVED_BAD_ACK \<longrightarrow> counted s a (discard (d_attrs w')) w w')"

lemma keeps_count_bind:
  assumes "m w = (r1, v)" and "keeps_count s a r1 w v" and "bindM m f w = (r, w')"
    and "\<And>l. r1 = Ret l \<Longrightarrow> f l v = (r, w') \<Longrightarrow> keeps_count s (snd l) r v w'"
  shows "keeps_count s a r w w'"
  using assms
  by (cases r1) (auto simp: bindM_def keeps_count_def intro: counted_trans)

lemma fread_wrapper_outcome:
  assumes "fread_wrapper buf n w = (r, v)"
  shows "r \<noteq> Throw RECEIVED_BAD_ACK \<and> (\<forall>b. r = Ret b \<longrightarrow> length b = length buf \<and>
    (\<exists>f es. v = w\<lparr>d_fread_evs := es, d_file := f\<rparr>))"
  using assms
  by (auto simp: fread_wrapper_def os_fread_def bindM_def d_fclose_def d_log_error_def d_strerror_def d_log_def
      return_codes dest: buf_write_length split: handle.splits list.splits option.splits)

lemma send_block_counts:
  assumes c: "counting s w" and n: "n \<le> BUFFERSIZE" and run: "send_block n l w = (r, w')"
  shows "keeps_count s (snd l) r w w'"
proof -
  obtain r1 v where fr: "fread_wrapper (d_data w) n w = (r1, v)" by fastforce
  note out = fread_wrapper_outcome [OF fr]
  show ?thesis
  proof (cases "\<exists>b. r1 = Ret b")
    case False
    then show ?thesis using run fr out by (cases r1) (auto simp: send_block_def bindM_def keeps_count_def)
  next
    case True
    then obtain b f es where b: "r1 = Ret b" "length b = BUFFERSIZE" "v = w\<lparr>d_fread_evs := es, d_file := f\<rparr>"
      using out c by (auto simp: counting_def)
    let ?v = "v\<lparr>d_data := b\<rparr>"
    obtain r2 u where sc: "scm_loop b s (d_command_socket w) (d_client_socket w) (of_nat n) (fst l) 0 ?v = (r2, u)"
      by fastforce
    have "unat (of_nat n :: u64) = n" using n by (rule unat_block)
    then have "scm_post s (take n b) 0 r2 ?v u"
      using scm_counts [OF sc] c n b by (simp add: counting_def)
    then obtain k where k: "tx u = (tx w)(s := tx w s @ take k (take n b))" "list_all send_ok (snd_evs u)"
      "same_job ?v u" "k \<le> length (take n b)" "\<And>f m. r2 = Ret (f, m) \<Longrightarrow> unat m = k" "r2 \<noteq> Throw RECEIVED_BAD_ACK"
      using b(3) unfolding scm_post_def by auto
    have cnt: "counting s u" using k(2,3) b c by (simp add: counting_def same_job_def)
    have tot: "counted s (snd l) (snd l + m) w u'" if "r2 = Ret (f, m)" "tx u' = tx u" for f m u'
    proof -
      have "of_nat (unat m) = (ucast m :: u64)" by (rule of_nat_unat)
      then have "m = of_nat k" using k(5) [OF that(1)] by simp
      then show ?thesis unfolding counted_def using k(1,4) that(2)
        by (intro exI [of _ "take k (take n b)"]) simp
    qed
    have "(r, w') = (case r2 of Ret (flag, m) \<Rightarrow>
          (if flag = as_char ACK_OK then retM (flag, snd l + m)
           else if flag = as_char ACK_ERROR then
             bindM (modifyM (\<lambda>w. w\<lparr>d_attrs := (d_attrs w)\<lparr>discard := snd l + m\<rparr>\<rparr>)) (\<lambda>_.
             bindM d_fclose (\<lambda>_. failM (Throw RECEIVED_BAD_ACK)))
           else if flag = as_char FORCED_SOCKET_CLOSED then
             bindM (getM d_message) (\<lambda>message.
             bindM (send_message_wrapper (d_client_socket w) (as_char ACK_ERROR) message) (\<lambda>_.
             bindM d_fclose (\<lambda>_. failM (Throw FORCED_SOCKET_CLOSED))))
           else retM (flag, snd l + m)) u
        | _ \<Rightarrow> (recast r2, u))"
      using run fr b sc c
      by (auto simp: send_block_def bindM_def send_bytes_check_message_def Let_def counting_def split: result.splits)
    then show ?thesis
      using cnt tot k(6)
      by (cases r2) (auto simp: keeps_count_def bindM_def send_message_wrapper_def d_fclose_def return_codes
          split: if_splits prod.splits result.splits handle.splits)
  qed
qed

lemma send_blocks_counts:
  "counting s w \<Longrightarrow> send_blocks i l w = (r, w') \<Longrightarrow> keeps_count s (snd l) r w w'"
proof (induction i l arbitrary: w r rule: send_blocks.induct)
  case (1 l)
  then show ?case by (auto simp: keeps_count_def counted_def intro!: exI [of _ "[]"])
next
  case (2 i l)
  obtain r1 v where 1: "send_block BUFFERSIZE l w = (r1, v)" by fastforce
  note c = send_block_counts [OF 2(2) order_refl 1]
  show ?case
  proof (rule keeps_count_bind [OF 1 c 2(3) [unfolded send_blocks.simps]])
    fix l' assume "r1 = Ret l'" and "send_blocks i l' v = (r, w')"
    then show "keeps_count s (snd l') r v w'" using c by (intro 2(1)) (simp_all add: keeps_count_def)
  qed
qed

lemma send_data_counts:
  assumes "counting s w" and run: "send_data len w = (Throw RECEIVED_BAD_ACK, w')"
  shows "counted s 0 (discard (d_attrs w')) w w'"
proof -
  let ?w = "w\<lparr>d_attrs := (d_attrs w)\<lparr>discard := 0\<rparr>\<rparr>" and ?n = "unat (len mod of_nat BUFFERSIZE)"
  let ?rest = "\<lambda>l. if ?n \<noteq> 0 then send_block ?n l else retM l"
  let ?all = "bindM (send_blocks (unat (len div of_nat BUFFERSIZE)) (as_char ACK_OK, 0)) ?rest"
  have n: "?n \<le> BUFFERSIZE"
    by (simp add: unat_mod BUFFERSIZE_def)
  have "send_data len w = bindM ?all (\<lambda>_. retM ()) ?w"
    by (simp add: send_data_def Let_def bindM_assoc)
  then have all: "?all ?w = (Throw RECEIVED_BAD_ACK, w')"
    using run by (auto simp: bindM_def split: prod.splits result.splits)
  obtain r1 v where 1: "send_blocks (unat (len div of_nat BUFFERSIZE)) (as_char ACK_OK, 0) ?w = (r1, v)" by fastforce
  have "counting s ?w" using assms(1) by (simp add: counting_def)
  from send_blocks_counts [OF this 1] have c: "keeps_count s 0 r1 ?w v" by simp
  have "keeps_count s 0 (Throw RECEIVED_BAD_ACK) ?w w'"
  proof (rule keeps_count_bind [OF 1 c all])
    fix l assume "r1 = Ret l" and r: "?rest l v = (Throw RECEIVED_BAD_ACK, w')"
    then have "counting s v" using c by (simp add: keeps_count_def)
    then show "keeps_count s (snd l) (Throw RECEIVED_BAD_ACK) v w'"
      using r n by (cases "?n = 0") (auto intro: send_block_counts)
  qed
  then show ?thesis by (simp add: keeps_count_def counted_def)
qed

end
