(* ===== verification/Daemon_Example.thy ===== *)
theory Daemon_Example
  imports Daemon_Calm Daemon_Counts
begin

text \<open>
  A concrete daemon to run the properties on: connected to its server by the sockets 3 and 4, with
  one client waiting on socket 6, a file \<^verbatim>\<open>/a\<close> that holds \<^verbatim>\<open>hi\<close> and a directory \<^verbatim>\<open>/d\<close>.
\<close>

definition writable_ev :: sel_ev where
  "writable_ev = \<lparr>sel_ret = 1, sel_write = True, sel_server = False, sel_client = False\<rparr>"

definition server_ev :: sel_ev where
  "server_ev = \<lparr>sel_ret = 1, sel_write = False, sel_server = True, sel_client = False\<rparr>"

definition attrs0 :: dest_file_attrs where
  "attrs0 = \<lparr>structure_len = 0, command = NUL, path_len = 0, data_len = 0, discard = 0\<rparr>"

definition request0 :: file_attrs where
  "request0 = \<lparr>fa_structure_len = 0, fa_source_path_len = 0, fa_destination_path_len = 0,
     fa_source = replicate PATH_MAX NUL, fa_destination = replicate PATH_MAX NUL\<rparr>"

definition files0 :: "byte list \<Rightarrow> node option" where
  "files0 = [''/a'' \<mapsto> File ''hi'', ''/d'' \<mapsto> Dir]"

definition daemon0 :: daemon where
  "daemon0 = \<lparr>rx = \<lambda>_. [], tx = \<lambda>_. [], snd_evs = [], sel_evs = replicate 9 writable_ev, closed = [], errno = 0,
     sigpipe_ignored = True, socket_evs = [], connect_evs = [], fcntl_evs = [],
     d_command_socket = 3, d_data_socket = 4, d_server_socket = 5, d_client_socket = 0, d_logfile = [],
     d_token = cs ''tok'', d_accepts = [6], d_resolves = [], d_fs = files0, d_fopen_evs = [], d_fread_evs = [],
     d_errtext = \<lambda>_. ''error'', d_request = request0, d_request_buffer = replicate MAX_FILE_ATTRS_LEN NUL,
     d_attrs = attrs0, d_header = replicate MAX_HEADER_LEN NUL, d_data = replicate BUFFERSIZE NUL,
     d_message = replicate MESSAGE_BUFFERSIZE NUL, d_flag = NUL, d_password = cs ''pw'', d_file = Null, d_resend = False\<rparr>"

text \<open>With what arrives from the server and from the client.\<close>

definition daemon_rx :: "byte list \<Rightarrow> byte list \<Rightarrow> daemon" where
  "daemon_rx server client = daemon0\<lparr>rx := (\<lambda>_. [])(3 := [Seg server], 6 := [Seg client])\<rparr>"

lemma daemon_rx_simps [simp]:
  "avail 3 (daemon_rx p q) = p" "avail 6 (daemon_rx p q) = q" "tx (daemon_rx p q) = (\<lambda>_. [])"
  "closed (daemon_rx p q) = []" "d_message (daemon_rx p q) = replicate MESSAGE_BUFFERSIZE NUL"
  "discard (d_attrs (daemon_rx p q)) = 0" "sigpipe_ignored (daemon_rx p q)"
  by (simp_all add: daemon_rx_def daemon0_def attrs0_def avail_def)

lemma c_str_message0 [simp]: "c_str (replicate MESSAGE_BUFFERSIZE NUL) = Some []"
  by (simp add: c_str_def MESSAGE_BUFFERSIZE_def takeWhile_replicate)

lemma daemon_rx_ready:
  assumes "files0 s = Some nd" and "NUL \<notin> set d" and "length d < 9"
  shows "ready_for 3 4 6 s d nd (daemon_rx p (request_bytes s d))"
proof -
  have "(s = ''/a'' \<and> nd = File ''hi'') \<or> (s = ''/d'' \<and> nd = Dir)"
    using assms(1) by (auto simp: files0_def split: if_splits)
  then show ?thesis using assms
    by (auto simp: ready_for_def idle_for_def working_def daemon_rx_def daemon0_def request0_def attrs0_def writable_ev_def avail_def
        PATH_MAX_def announced_def valid_small_transfer list_all_iff)
qed

end
