(* ===== verification/Daemon_Properties.thy ===== *)
theory Daemon_Properties
  imports Daemon_Example
begin

text \<open>
  What \<^verbatim>\<open>src/client_daemon.c\<close> does with a request, with the server's answers and with the loss of
  its server, each property with a run that meets its hypotheses on the daemon of \<open>Daemon_Example\<close>.
\<close>

section \<open>A request\<close>

text \<open>C11: a round of the daemon's loop sends the header on the command socket and the destination
  and every byte of the file on the data socket, passes the server's acknowledgement on to the
  client and closes the client's connection.\<close>

theorem round_forwards_request:
  assumes "ready_for cm dt cl s d nd w" and "dec_message (avail cm w) = Some ((as_char ACK_OK, []), rest)"
    and "c_str (d_message w) = Some m" and "length m \<le> 252"
  shows "\<exists>w'. dmn_round a st0 w = (Ret (), w') \<and> closed w' = closed w @ [cl] \<and>
    tx w' = (tx w)(cm := tx w cm @ enc_transfer (announced nd d (discard (d_attrs w))),
      dt := tx w dt @ d @ [NUL] @ node_bytes nd, cl := tx w cl @ enc_message (as_char ACK_OK, text_body m))"
  by (rule round_acknowledged [OF assms])

theorem round_forwards_request_witness:
  "\<exists>w'. dmn_round [] (False, 0) (daemon_rx (enc_message (as_char ACK_OK, [])) (request_bytes ''/a'' ''b'')) = (Ret (), w') \<and>
    closed w' = [6] \<and>
    tx w' = (\<lambda>_. [])(3 := enc_transfer (announced (File ''hi'') ''b'' 0), 4 := ''b'' @ [NUL] @ ''hi'',
      6 := enc_message (as_char ACK_OK, []))"
  using round_forwards_request [OF daemon_rx_ready [of "''/a''" "File ''hi''" "''b''"], of "enc_message (as_char ACK_OK, [])" "[]" "[]" "[]" "(False, 0)"]
    messages.dec_enc [of "(as_char ACK_OK, [])" "[]"]
  by (simp add: files0_def valid_message_def text_body_def)

text \<open>C12: when the server refuses a transfer, the client is told the server's reason, and the next
  header will announce all the bytes that were sent as bytes to be skipped.\<close>

theorem round_reports_refusal:
  assumes "ready_for cm dt cl s d nd w" and "dec_message (avail cm w) = Some ((as_char ACK_ERROR, text_body t), rest)"
    and "t \<noteq> []" and "NUL \<notin> set t" and "length t \<le> 252" and "length (d_message w) = MESSAGE_BUFFERSIZE"
  shows "\<exists>w'. dmn_round a st0 w = (Ret (), w') \<and> closed w' = closed w @ [cl] \<and>
    tx w' = (tx w)(cm := tx w cm @ enc_transfer (announced nd d (discard (d_attrs w))),
      dt := tx w dt @ d @ [NUL] @ node_bytes nd, cl := tx w cl @ enc_message (as_char ACK_ERROR, text_body t)) \<and>
    discard (d_attrs w') = of_nat (length (node_bytes nd))"
  by (rule round_refused [OF assms])

theorem round_reports_refusal_witness:
  "\<exists>w'. dmn_round [] (False, 0) (daemon_rx (enc_message (as_char ACK_ERROR, cs ''full'')) (request_bytes ''/a'' ''b'')) = (Ret (), w') \<and>
    closed w' = [6] \<and>
    tx w' = (\<lambda>_. [])(3 := enc_transfer (announced (File ''hi'') ''b'' 0), 4 := ''b'' @ [NUL] @ ''hi'',
      6 := enc_message (as_char ACK_ERROR, cs ''full'')) \<and> discard (d_attrs w') = 2"
  using round_reports_refusal [OF daemon_rx_ready [of "''/a''" "File ''hi''" "''b''"],
      of "enc_message (as_char ACK_ERROR, cs ''full'')" "''full''" "[]" "[]" "(False, 0)"]
    messages.dec_enc [of "(as_char ACK_ERROR, cs ''full'')" "[]"]
  by (simp add: files0_def valid_message_def text_body_def cs_def)

text \<open>C26: \<open>send_data\<close> sends exactly the bytes it is asked for, in order, whatever pieces
  \<^verbatim>\<open>send\<close> takes them in, and within as many rounds of \<^verbatim>\<open>select\<close> as there are bytes.\<close>

theorem send_data_in_any_pieces:
  assumes "can_send s w" and "unat len \<le> length (unread w)"
  shows "\<exists>w'. send_data len w = (Ret (), w') \<and> tx w' = (tx w)(s := tx w s @ take (unat len) (unread w)) \<and>
    unread w' = drop (unat len) (unread w)"
  using send_data_run [OF assms] by (auto simp: file_sent_def unread_def)

theorem send_data_in_any_pieces_witness:
  "\<exists>w'. send_data 2 (daemon0\<lparr>snd_evs := [SOk 1, SOk 7], d_file := Open ''hi''\<rparr>) = (Ret (), w') \<and>
    tx w' = (\<lambda>_. [])(4 := ''hi'') \<and> unread w' = []"
  using send_data_in_any_pieces [of 4 "daemon0\<lparr>snd_evs := [SOk 1, SOk 7], d_file := Open ''hi''\<rparr>" 2]
  by (simp add: can_send_def unread_def daemon0_def writable_ev_def list_all_iff)

section \<open>A refusal in the middle of the data\<close>





section \<open>Losing the server\<close>

text \<open>C13: when the connection to the server is lost in the middle of a request, the daemon closes
  both sockets, tries until two new connections stand, presents its token on both and the password
  on the first, and the next round sends the same request again from its start, header and all, to
  the new connections; the client gets its answer as if nothing had happened.\<close>

theorem lost_connection_resends:
  assumes "back_after k s s' ss t w" and "welcomes s pw (enc_message (as_char ACK_OK, []) @ rest) w"
    and "d_resolves w = []" and "prepared src d nd x (d_request w) (d_attrs w) (d_header w)"
    and "working s s' cl (length (node_bytes nd)) (w\<lparr>d_command_socket := s, d_data_socket := s'\<rparr>)"
    and "d_fs w src = Some nd" and "length d < PATH_MAX" and "length (node_bytes nd) < 2 ^ 64"
    and "c_str (d_message w) = Some m" and "length m \<le> 252"
  shows "\<exists>w1 w2. run_handlers a SOCKET_CLOSED w = (Ret (), w1) \<and> dmn_round a st0 w1 = (Ret (), w2) \<and>
    closed w2 = closed w @ [d_command_socket w, d_data_socket w, cl] \<and>
    tx w2 = (tx w)(
      s := tx w s @ enc_message (as_char AUTH_REQUEST, text_body t) @ enc_message (as_char AUTH_REQUEST, text_body pw) @
        enc_transfer (announced nd d x),
      s' := tx w s' @ enc_message (as_char AUTH_REQUEST, text_body t) @ d @ [NUL] @ node_bytes nd,
      cl := tx w cl @ enc_message (as_char ACK_OK, text_body m))"
proof -
  from lost_server_handled [OF assms(1-3)] obtain w1 where h: "run_handlers a SOCKET_CLOSED w = (Ret (), w1)"
    and r: "restarted s s' t pw (enc_message (as_char ACK_OK, []) @ rest)
      (w\<lparr>d_attrs := (d_attrs w)\<lparr>discard := 0\<rparr>, d_resend := True\<rparr>) w1" by blast
  note f = restarted_fields [OF r]
  have prep: "prepared src d nd x (d_request w1) (d_attrs w1) (d_header w1)"
    using assms(4) f by (simp add: prepared_def header_of_def)
  have wk: "working s s' cl (length (node_bytes nd)) w1" using assms(5) f by (simp add: working_def)
  obtain v where v: "dmn_round a st0 w1 = (case await_answer v of (Throw x, u) \<Rightarrow> run_handlers a x u | r \<Rightarrow> r)"
    "transmitted s s' nd d x (w1\<lparr>d_resend := False\<rparr>) v"
    using resend_sends [OF prep assms(7) wk _ assms(8), of a st0] assms(6) f by auto
  have fv: "d_command_socket v = s" "d_client_socket v = cl" "snd_evs v = []" "d_message v = d_message w"
    "closed v = closed w1" "avail s v = enc_message (as_char ACK_OK, []) @ rest"
    "tx v = (tx w1)(s := tx w1 s @ enc_transfer (announced nd d x), s' := tx w1 s' @ d @ [NUL] @ node_bytes nd)"
    using v(2) f assms(5) by (auto simp: transmitted_def working_def avail_def)
  have rep: "dec_message (avail (d_command_socket v) v) = Some ((as_char ACK_OK, text_body []), rest)"
    using fv messages.dec_enc [of "(as_char ACK_OK, [])" rest] by (simp add: valid_message_def text_body_def)
  have m: "passed_on (d_message v) [] m" "length (d_message v) = MESSAGE_BUFFERSIZE"
    using assms(2,9,10) fv by (simp_all add: passed_on_def text_body_def welcomes_def)
  have ne: "s \<noteq> s'" "cl \<noteq> s" "cl \<noteq> s'" using assms(5) by (auto simp: working_def)
  from await_answer_ok [OF rep m(2,1) answer_flags(1,3) fv(3)] obtain w2 where
    "await_answer v = (Ret (), w2)" "closed w2 = closed v @ [cl]"
    "tx w2 = (tx v)(cl := tx v cl @ enc_message (as_char ACK_OK, text_body m))" using fv by auto
  then show ?thesis using h v(1) fv f ne by (intro exI [of _ w1] exI [of _ w2]) (auto simp: fun_eq_iff)
qed

text \<open>A daemon that was sending \<^verbatim>\<open>/a\<close> when its connection broke; its server refuses one attempt.\<close>

definition broken :: daemon where
  "broken = (let t = announced (File ''hi'') ''b'' 0 in daemon0
     \<lparr>rx := (\<lambda>_. [])(10 := [Seg (enc_message (as_char ACK_OK, [])), Seg (enc_message (as_char ACK_OK, []))]),
      socket_evs := [8, 9, 10, 11], connect_evs := [Some 111, Some 111], d_client_socket := 6,
      d_request := request0\<lparr>fa_source := patched (replicate PATH_MAX NUL) 0 (cs ''/a''),
        fa_destination := patched (replicate PATH_MAX NUL) 0 (cs ''b'')\<rparr>,
      d_attrs := \<lparr>structure_len = of_nat (header_len t), command = node_command (File ''hi''), path_len = 2, data_len = 2, discard = 0\<rparr>,
      d_header := patched (replicate MAX_HEADER_LEN NUL) 0 (enc_transfer t)\<rparr>)"

lemma broken_prepared:
  "prepared ''/a'' ''b'' (File ''hi'') 0 (d_request broken) (d_attrs broken) (d_header broken)"
proof -
  let ?t = "announced (File ''hi'') ''b'' 0"
  have v: "valid_transfer ?t" by (simp add: announced_def valid_small_transfer)
  then have l: "header_len ?t \<le> 31" by (simp add: valid_transfer_def MAX_HEADER_LEN_def)
  have "unat (of_nat (header_len ?t) :: u8) = header_len ?t" using l by (intro u8_of_nat) simp
  moreover have "length (enc_transfer ?t) = header_len ?t" by (rule length_enc_transfer)
  moreover have "c_str (''/a'' @ NUL # r) = Some ''/a''" for r by (rule c_str_append) simp
  ultimately show ?thesis using l
    by (simp add: prepared_def broken_def Let_def header_of_def announced_def [of "File ''hi''" "''b''"]
        request0_def cs_def patched_0 PATH_MAX_def MAX_HEADER_LEN_def)
qed

lemma broken_ready:
  "back_after 1 10 11 [] ''tok'' broken" "welcomes 10 ''pw'' (enc_message (as_char ACK_OK, []) @ []) broken"
  "d_resolves broken = []"
proof -
  show "back_after 1 10 11 [] ''tok'' broken"
    unfolding back_after_def
    by (intro conjI exI [of _ "[8, 9]"] exI [of _ 111]) (simp_all add: broken_def Let_def daemon0_def numeral_2_eq_2)
  show "welcomes 10 ''pw'' (enc_message (as_char ACK_OK, []) @ []) broken"
    using messages.dec_enc [of "(as_char ACK_OK, [])" "enc_message (as_char ACK_OK, [])"]
    by (simp add: welcomes_def broken_def Let_def daemon0_def avail_def valid_message_def answer_flags)
  show "d_resolves broken = []" by (simp add: broken_def Let_def daemon0_def)
qed

theorem lost_connection_resends_witness:
  "\<exists>w1 w2. run_handlers [] SOCKET_CLOSED broken = (Ret (), w1) \<and> dmn_round [] (False, 0) w1 = (Ret (), w2) \<and>
    closed w2 = [3, 4, 6] \<and>
    tx w2 = (\<lambda>_. [])(
      10 := enc_message (as_char AUTH_REQUEST, cs ''tok'') @ enc_message (as_char AUTH_REQUEST, cs ''pw'') @
        enc_transfer (announced (File ''hi'') ''b'' 0),
      11 := enc_message (as_char AUTH_REQUEST, cs ''tok'') @ ''b'' @ [NUL] @ ''hi'',
      6 := enc_message (as_char ACK_OK, []))"
proof -
  have k: "working 10 11 6 (length (node_bytes (File ''hi''))) (broken\<lparr>d_command_socket := 10, d_data_socket := 11\<rparr>)"
    by (simp add: working_def broken_def Let_def daemon0_def writable_ev_def list_all_iff)
  have "d_fs broken ''/a'' = Some (File ''hi'')" "c_str (d_message broken) = Some []"
    "tx broken = (\<lambda>_. [])" "closed broken = []" "d_command_socket broken = 3" "d_data_socket broken = 4"
    by (simp_all add: broken_def Let_def daemon0_def files0_def)
  with lost_connection_resends [OF broken_ready broken_prepared k, of "[]" "[]" "(False, 0)"] show ?thesis
    by (simp add: PATH_MAX_def text_body_def cs_def)
qed

text \<open>Whatever the server does, a handler that returns after the loss of the connection leaves
  the daemon with two open connections.\<close>

theorem restart_leaves_connections:
  assumes "run_handlers a x w = (Ret (), w')" and "x = SOCKET_CLOSED \<or> x = FORCED_SOCKET_CLOSED"
  shows "d_command_socket w' \<noteq> - 1 \<and> d_data_socket w' \<noteq> - 1"
  using run_handlers_connected [OF assms] .

theorem restart_leaves_connections_witness:
  "d_command_socket (snd (run_handlers [] SOCKET_CLOSED broken)) \<noteq> - 1 \<and>
   d_data_socket (snd (run_handlers [] SOCKET_CLOSED broken)) \<noteq> - 1"
proof -
  have "fst (run_handlers [] SOCKET_CLOSED broken) = Ret ()"
    using lost_server_handled [OF broken_ready, of "[]"] by auto
  then show ?thesis
    using restart_leaves_connections [of "[]" SOCKET_CLOSED broken "snd (run_handlers [] SOCKET_CLOSED broken)"]
    by (simp add: prod_eq_iff)
qed



section \<open>Failures that go unnoticed\<close>

text \<open>When the first \<^verbatim>\<open>send\<close> of a block fails, \<open>send_bytes_check_message\<close> takes its -1 for a
  count of \<open>2 ^ 64 - 1\<close> bytes and reports that the block is out, though not one byte of it is.\<close>

theorem failed_send_counts_as_sent:
  assumes "sel_evs w = e # es" and "sel_write e" and "snd_evs w = SErr n # ts" and "sigpipe_ignored w"
    and "0 < bytes" and "unat bytes \<le> length buf"
  shows "send_bytes_check_message buf ws ss cl bytes flag w =
    (Ret (flag, - 1), w\<lparr>sel_evs := es, snd_evs := ts, errno := n\<rparr>)"
proof -
  let ?v = "w\<lparr>sel_evs := es, snd_evs := ts, errno := n\<rparr>"
  have "os_send ws (take (unat (bytes - 0)) (drop (unat (0 :: u64)) buf)) (w\<lparr>sel_evs := es\<rparr>) = (Ret (- 1), ?v)"
    using assms(3,4) by (simp add: os_send_def)
  from scm_loop_round [OF assms(5,1,2,6) this, of ss cl flag]
  have "scm_loop buf ws ss cl bytes flag 0 w = scm_loop buf ws ss cl bytes flag (- 1) ?v"
    by (simp add: word_less_1)
  moreover have "\<not> (- 1 :: u64) < bytes" by (simp add: not_less)
  ultimately show ?thesis by (simp add: send_bytes_check_message_def scm_loop.simps [of buf _ _ _ _ _ "- 1"])
qed

theorem failed_send_counts_as_sent_witness:
  "send_bytes_check_message ''abc'' 4 3 6 3 NUL (daemon0\<lparr>sel_evs := [writable_ev], snd_evs := [SErr EWOULDBLOCK]\<rparr>) =
    (Ret (NUL, - 1), daemon0\<lparr>sel_evs := [], snd_evs := [], errno := EWOULDBLOCK\<rparr>)"
  using failed_send_counts_as_sent [of "daemon0\<lparr>sel_evs := [writable_ev], snd_evs := [SErr EWOULDBLOCK]\<rparr>" writable_ev "[]"
      EWOULDBLOCK "[]" 3 "''abc''" 4 3 6 NUL]
  by (simp add: writable_ev_def daemon0_def)

end
