(* ===== verification/Client.thy ===== *)
theory Client
  imports Request_Header
begin

text \<open>
  The client of \<^verbatim>\<open>src/client.c\<close>: one request to the daemon, one answer.  What it prints is part of
  the state; a return from \<open>main\<close> and a call of \<^verbatim>\<open>exit\<close> are both the outcome \<open>Exit\<close> with the exit
  status.  Uninitialised arrays are arguments.
\<close>

record client = dialer +
  printed :: "byte list"
  reported :: "byte list"

type_synonym 'a cli = "(client, 'a) prog"

definition SOCKET_ADDRESS :: "byte list" where "SOCKET_ADDRESS = ''/tmp/LLNCP_''"

text \<open>The array \<^verbatim>\<open>sun_path\<close> of a Unix domain address.\<close>

definition SUN_PATH :: nat where "SUN_PATH = 108"

definition printf :: "byte list \<Rightarrow> unit cli" where
  "printf t = modifyM (\<lambda>w. w\<lparr>printed := printed w @ t\<rparr>)"

definition eprintf :: "byte list \<Rightarrow> unit cli" where
  "eprintf t = modifyM (\<lambda>w. w\<lparr>reported := reported w @ t\<rparr>)"

section \<open>client\_connect\<close>

definition cli_connect :: "byte list \<Rightarrow> fd cli" where
  "cli_connect socket_path =
     bindM os_socket (\<lambda>server_socket.
     if server_socket = - 1 then bindM (eprintf ''socket'') (\<lambda>_. failM (Exit EXIT_FAILURE))
     else
     bindM (orUb (sprintf_into SUN_PATH socket_path)) (\<lambda>sun_path.
     bindM (os_connect server_socket) (\<lambda>r.
     if r = - 1 then
       bindM (os_close server_socket) (\<lambda>_.
       bindM (eprintf ''connect'') (\<lambda>_. failM (Exit EXIT_FAILURE)))
     else retM server_socket)))"

section \<open>signal\_handler\<close>

definition cli_signal_handler :: "fd \<Rightarrow> unit cli" where
  "cli_signal_handler server_socket =
     bindM (printf ([CHR 0x0A] @ ''Interupted by user. Exiting.'' @ [CHR 0x0A])) (\<lambda>_.
     bindM (os_set_nonblock server_socket) (\<lambda>r.
     if r = - 1 then bindM (eprintf ''fcntl'') (\<lambda>_. failM (Exit EXIT_FAILURE))
     else
     bindM (send_message server_socket (as_char FORCED_SOCKET_CLOSED) (cs [])) (\<lambda>_.
       failM (Exit EXIT_SUCCESS))))"

section \<open>main\<close>

text \<open>The arguments are the arrays \<^verbatim>\<open>argv[1]\<close> to \<^verbatim>\<open>argv[3]\<close>.\<close>

definition cli_answer :: "fd \<Rightarrow> byte \<Rightarrow> byte list \<Rightarrow> unit cli" where
  "cli_answer server_socket message_flag message =
     bindM (receive_message server_socket message_flag message) (\<lambda>(error, message_flag, message).
     if error \<noteq> EXIT_SUCCESS then
       bindM (eprintf (''Something went wrong. Socket was closed.'' @ [CHR 0x0A])) (\<lambda>_. failM (Exit EXIT_FAILURE))
     else if message_flag \<noteq> as_char ACK_OK then
       bindM (orUb (c_str message)) (\<lambda>t.
       bindM (printf (t @ [CHR 0x0A])) (\<lambda>_.
       bindM (os_close server_socket) (\<lambda>_. failM (Exit EXIT_FAILURE))))
     else bindM (os_close server_socket) (\<lambda>_. failM (Exit EXIT_SUCCESS)))"

definition cli_request :: "fd \<Rightarrow> client_attrs \<Rightarrow> byte list \<Rightarrow> unit cli" where
  "cli_request server_socket fa file_attrs_buffer =
     bindM (orUb (create_file_attrs fa file_attrs_buffer)) (\<lambda>(fa, buf).
     bindM (orUb (buf_read buf 0 (unat (ca_file_attrs_len fa)))) (\<lambda>header.
     bindM (os_send server_socket header) (\<lambda>r.
     if r = - 1 then
       bindM (os_close server_socket) (\<lambda>_.
       bindM (eprintf ''send'') (\<lambda>_. failM (Exit EXIT_FAILURE)))
     else
     bindM (orUb (buf_read (ca_source_path fa) 0 (nat (ca_source_path_len fa)))) (\<lambda>source.
     bindM (os_send server_socket source) (\<lambda>_.
     bindM (orUb (buf_read (ca_destination_path fa) 0 (nat (ca_destination_path_len fa)))) (\<lambda>destination.
     bindM (os_send server_socket destination) (\<lambda>_. retM ())))))))"

definition cli_main :: "byte list \<Rightarrow> byte list \<Rightarrow> byte list \<Rightarrow> byte list \<Rightarrow> byte \<Rightarrow> byte list \<Rightarrow> unit cli" where
  "cli_main argv1 argv2 argv3 file_attrs_buffer message_flag message =
     bindM (orUb (strnlen argv1 (PATH_MAX + 1))) (\<lambda>server_len.
     if PATH_MAX < server_len then
       bindM (eprintf ''Server must have shorter address than 4096 chars.'') (\<lambda>_.
       bindM (eprintf [CHR 0x0A]) (\<lambda>_. failM (Exit EXIT_SUCCESS)))
     else
     bindM (orUb (strnlen argv2 PATH_MAX)) (\<lambda>source_len.
     bindM (orUb (strnlen argv3 PATH_MAX)) (\<lambda>destination_len.
     bindM (orUb (c_str argv1)) (\<lambda>server.
     bindM (orUb (sprintf_into PATH_MAX (SOCKET_ADDRESS @ server))) (\<lambda>socket_path.
     bindM (cli_connect socket_path) (\<lambda>server_socket.
     bindM (cli_request server_socket
       \<lparr>ca_file_attrs_len = 0, ca_source_path_len = int source_len + 1,
        ca_destination_path_len = int destination_len + 1,
        ca_source_path = argv2, ca_destination_path = argv3\<rparr> file_attrs_buffer) (\<lambda>_.
     cli_answer server_socket message_flag message)))))))"

section \<open>The request on the wire\<close>

lemma client_fields [simp]:
  "printed (sent s bs w) = printed w" "reported (sent s bs w) = reported w"
  "socket_evs (sent s bs v) = socket_evs v" "connect_evs (sent s bs v) = connect_evs v"
  "printed (consume s n w) = printed w" "reported (consume s n w) = reported w"
  by (simp_all add: sent_def consume_def)

lemma cli_request_run:
  assumes path: "c_str p = Some s" "c_str q = Some d" "length s \<le> PATH_MAX" "length d \<le> PATH_MAX"
    and len: "length buf = MAX_FILE_ATTRS_LEN" and snd: "snd_evs w = []"
  shows "cli_request sock \<lparr>ca_file_attrs_len = l, ca_source_path_len = int (length s) + 1,
      ca_destination_path_len = int (length d) + 1, ca_source_path = p, ca_destination_path = q\<rparr> buf w =
    (Ret (), sent sock (request_bytes s d) w)"
proof -
  let ?e = "enc_request (int (length s) + 1, int (length d) + 1)"
  have v: "valid_request (int (length s) + 1, int (length d) + 1)"
    using path(3,4) by (rule valid_request_paths)
  then have le: "length ?e \<le> 20"
    by (simp add: valid_request_def enc_request_def Let_def MAX_FILE_ATTRS_LEN_def)
  then have ul: "unat (of_nat (length ?e) :: u8) = length ?e" by (intro u8_of_nat) simp
  obtain p' q' where p: "p = s @ NUL # p'" "q = d @ NUL # q'"
    using c_str_split [OF path(1)] c_str_split [OF path(2)] by blast
  have n: "nat (int (length s) + 1) = Suc (length s)" "nat (int (length d) + 1) = Suc (length d)" by linarith+
  have rd: "buf_read (patched buf 0 ?e) 0 (length ?e) = Some ?e"
    "buf_read p 0 (Suc (length s)) = Some (s @ [NUL])" "buf_read q 0 (Suc (length d)) = Some (d @ [NUL])"
    using le len p by (simp_all add: buf_read_Some patched_0 MAX_FILE_ATTRS_LEN_def)
  show ?thesis
    using v len snd rd
    by (simp add: cli_request_def create_file_attrs_enc bindM_def ul n os_send_ideal sent_sent request_bytes_def)
qed

text \<open>The exit status is 0 exactly when the daemon acknowledges; its text is printed otherwise.\<close>

lemma cli_answer_run:
  assumes reply: "dec_message (avail sock w) = Some ((flag, text_body t), rest)" and "NUL \<notin> set t"
    and "length message = MESSAGE_BUFFERSIZE" and "flag \<noteq> as_char ACK_OK \<longrightarrow> t \<noteq> []"
  shows "\<exists>w'. cli_answer sock f0 message w =
      (Exit (if flag = as_char ACK_OK then EXIT_SUCCESS else EXIT_FAILURE), w') \<and>
    printed w' = printed w @ (if flag = as_char ACK_OK then [] else t @ [CHR 0x0A]) \<and>
    closed w' = closed w @ [sock]"
proof -
  have "length (text_body t) \<le> 253"
  proof -
    from reply have "\<exists>l tail. take (nat_of l - 2) tail = text_body t"
      by (auto simp: dec_message_def split: list.splits if_splits)
    then obtain l tail where "text_body t = take (nat_of l - 2) tail" by metis
    then have "length (text_body t) \<le> nat_of l - 2" by (metis length_take min.cobounded2)
    then show ?thesis using nat_of_less [of l] by linarith
  qed
  then have run: "receive_message sock f0 message w =
      (Ret (EXIT_SUCCESS, flag, patched message 0 (text_body t)), consume sock (2 + length (text_body t)) w)"
    using receive_message_spec [OF reply, of message f0] assms(3) by (simp add: MESSAGE_BUFFERSIZE_def)
  show ?thesis
  proof (cases "flag = as_char ACK_OK")
    case True
    with run show ?thesis by (simp add: cli_answer_def bindM_def os_close_def)
  next
    case False
    with assms(2,4) have "c_str (patched message 0 (text_body t)) = Some t"
      by (simp add: patched_0 text_body_def)
    with run False show ?thesis by (simp add: cli_answer_def bindM_def os_close_def printf_def)
  qed
qed

section \<open>A run\<close>

text \<open>The arguments of a call that the client accepts: the name of the server fits the socket's
  address, the two paths fit \<open>PATH_MAX\<close>, and the daemon is there.\<close>

definition calls :: "fd \<Rightarrow> byte list \<Rightarrow> byte list \<Rightarrow> byte list \<Rightarrow> byte list \<Rightarrow> byte list \<Rightarrow> client \<Rightarrow> bool" where
  "calls sock argv1 argv2 argv3 s d w \<longleftrightarrow>
     (\<exists>server. c_str argv1 = Some server \<and> length (SOCKET_ADDRESS @ server) < SUN_PATH) \<and>
     c_str argv2 = Some s \<and> c_str argv3 = Some d \<and> length s < PATH_MAX \<and> length d < PATH_MAX \<and>
     (\<exists>ss. socket_evs w = sock # ss) \<and> sock \<noteq> - 1 \<and> connect_evs w = [] \<and> snd_evs w = []"

lemma cli_connect_run:
  assumes "socket_evs w = sock # ss" and "sock \<noteq> - 1" and "connect_evs w = []" and "length p < SUN_PATH"
  shows "cli_connect p w = (Ret sock, w\<lparr>socket_evs := ss\<rparr>)"
proof -
  have "os_connect sock (w\<lparr>socket_evs := ss\<rparr>) = (Ret 0, w\<lparr>socket_evs := ss\<rparr>)"
    using assms(3) by (cases w) (simp add: os_connect_def)
  then show ?thesis using assms by (simp add: cli_connect_def bindM_def os_socket_def sprintf_into_def)
qed

lemma cli_main_run:
  assumes c: "calls sock argv1 argv2 argv3 s d w" and len: "length buf = MAX_FILE_ATTRS_LEN"
  shows "\<exists>ss. cli_main argv1 argv2 argv3 buf f m w =
    cli_answer sock f m (sent sock (request_bytes s d) (w\<lparr>socket_evs := ss\<rparr>))"
proof -
  from c obtain server ss where srv: "c_str argv1 = Some server" "length (SOCKET_ADDRESS @ server) < SUN_PATH"
    and so: "socket_evs w = sock # ss" by (auto simp: calls_def)
  have l: "length server < 108" "length (SOCKET_ADDRESS @ server) + 1 \<le> PATH_MAX"
    using srv(2) by (simp_all add: SUN_PATH_def PATH_MAX_def)
  have n: "strnlen argv1 (PATH_MAX + 1) = Some (length server)" "strnlen argv2 PATH_MAX = Some (length s)"
    "strnlen argv3 PATH_MAX = Some (length d)"
    using c srv(1) l by (simp_all add: calls_def strnlen_c_str PATH_MAX_def min_def)
  have "cli_connect (SOCKET_ADDRESS @ server) w = (Ret sock, w\<lparr>socket_evs := ss\<rparr>)"
    using c so srv(2) by (intro cli_connect_run) (simp_all add: calls_def)
  moreover have "cli_request sock \<lparr>ca_file_attrs_len = 0, ca_source_path_len = int (length s) + 1,
      ca_destination_path_len = int (length d) + 1, ca_source_path = argv2, ca_destination_path = argv3\<rparr> buf
      (w\<lparr>socket_evs := ss\<rparr>) = (Ret (), sent sock (request_bytes s d) (w\<lparr>socket_evs := ss\<rparr>))"
    using c len by (intro cli_request_run) (simp_all add: calls_def)
  moreover have "\<not> PATH_MAX < length server" using l by (simp add: PATH_MAX_def)
  ultimately show ?thesis
    using n srv(1) l(2) by (intro exI [of _ ss]) (simp add: cli_main_def bindM_def sprintf_into_def)
qed

lemma cli_answer_tx: "tx (snd (cli_answer sock f m w)) = tx w"
proof -
  obtain x v where x: "receive_message sock f m w = (x, v)" by fastforce
  then obtain q where "v = w\<lparr>rx := (rx w)(sock := q)\<rparr>" using receive_message_frame by blast
  then show ?thesis using x
    by (auto simp: cli_answer_def bindM_def eprintf_def printf_def os_close_def orUb_def
        split: result.splits prod.splits option.splits)
qed

lemma cli_main_tx:
  assumes "calls sock argv1 argv2 argv3 s d w" and "length buf = MAX_FILE_ATTRS_LEN"
  shows "tx (snd (cli_main argv1 argv2 argv3 buf f m w)) = (tx w)(sock := tx w sock @ request_bytes s d)"
  using cli_main_run [OF assms, of f m] by (auto simp: cli_answer_tx sent_def)

text \<open>The exit status is the daemon's answer.\<close>

lemma cli_main_answered:
  assumes c: "calls sock argv1 argv2 argv3 s d w" and len: "length buf = MAX_FILE_ATTRS_LEN"
    and reply: "dec_message (avail sock w) = Some ((flag, text_body t), rest)" and t: "NUL \<notin> set t"
    and m: "length message = MESSAGE_BUFFERSIZE" and e: "flag \<noteq> as_char ACK_OK \<longrightarrow> t \<noteq> []"
  shows "\<exists>w'. cli_main argv1 argv2 argv3 buf f0 message w =
      (Exit (if flag = as_char ACK_OK then EXIT_SUCCESS else EXIT_FAILURE), w') \<and>
    printed w' = printed w @ (if flag = as_char ACK_OK then [] else t @ [CHR 0x0A]) \<and>
    closed w' = closed w @ [sock]"
proof -
  obtain ss where run: "cli_main argv1 argv2 argv3 buf f0 message w =
    cli_answer sock f0 message (sent sock (request_bytes s d) (w\<lparr>socket_evs := ss\<rparr>))"
    using cli_main_run [OF c len] by blast
  have "avail sock (w\<lparr>socket_evs := ss\<rparr>) = avail sock w" by (simp add: avail_def)
  then show ?thesis
    using cli_answer_run [of sock "sent sock (request_bytes s d) (w\<lparr>socket_evs := ss\<rparr>)" flag t rest message f0] reply t m e
    unfolding run by simp
qed

end
