(* ===== verification/Format_Properties.thy ===== *)
theory Format_Properties
  imports Client Server_Example Daemon_Example
begin

text \<open>
  The two headers written by one program and read by another, the client's run, the token, and the
  list macros of \<^verbatim>\<open>src/libs/utlist.h\<close>.
\<close>

section \<open>Headers\<close>

text \<open>C24: the header of a request that the client writes is read by the daemon with the same two
  lengths, off a stream that goes on behind it.\<close>

theorem request_header_round_trip:
  assumes "valid_request (ca_source_path_len a, ca_destination_path_len a)"
    and "length buf = MAX_FILE_ATTRS_LEN" and "length (d_request_buffer w) = MAX_FILE_ATTRS_LEN"
    and "create_file_attrs a buf = Some (a', h)"
    and "avail sock w = take (unat (ca_file_attrs_len a')) h @ rest"
  shows "\<exists>w'. load_file_attrs sock w = (Ret (), w') \<and>
    fa_source_path_len (d_request w') = ca_source_path_len a \<and>
    fa_destination_path_len (d_request w') = ca_destination_path_len a \<and> avail sock w' = rest"
proof -
  let ?e = "enc_request (ca_source_path_len a, ca_destination_path_len a)"
  have l: "length ?e \<le> 20"
    using assms(1) by (simp add: valid_request_def enc_request_def Let_def MAX_FILE_ATTRS_LEN_def)
  then have "unat (of_nat (length ?e) :: u8) = length ?e" by (intro u8_of_nat) simp
  then have "avail sock w = ?e @ rest"
    using assms(4,5) create_file_attrs_enc [OF assms(1,2)] assms(2) l by (auto simp: patched_0)
  then have "dec_request (avail sock w) = Some ((ca_source_path_len a, ca_destination_path_len a), rest)"
    using assms(1) by (simp add: dec_enc_request)
  from load_file_attrs_spec [OF this assms(3)] show ?thesis by fastforce
qed

theorem request_header_round_trip_witness:
  "\<exists>w'. load_file_attrs 6 (daemon0\<lparr>rx := (\<lambda>_. [])(6 := [Seg (enc_request (3, 12)), Seg ''/a''])\<rparr>) = (Ret (), w') \<and>
    fa_source_path_len (d_request w') = 3 \<and> fa_destination_path_len (d_request w') = 12 \<and> avail 6 w' = ''/a''"
proof -
  let ?a = "\<lparr>ca_file_attrs_len = 0, ca_source_path_len = 3, ca_destination_path_len = 12, ca_source_path = [],
    ca_destination_path = []\<rparr> :: client_attrs"
  let ?e = "enc_request (3, 12)"
  have v: "valid_request (3, 12)" using valid_request_paths [of 2 11] by (simp add: PATH_MAX_def)
  then have l: "length ?e \<le> 20" by (simp add: valid_request_def enc_request_def Let_def MAX_FILE_ATTRS_LEN_def)
  then have u: "unat (of_nat (length ?e) :: u8) = length ?e" by (intro u8_of_nat) simp
  have c: "create_file_attrs ?a (replicate MAX_FILE_ATTRS_LEN NUL) = Some (?a\<lparr>ca_file_attrs_len := of_nat (length ?e)\<rparr>,
      patched (replicate MAX_FILE_ATTRS_LEN NUL) 0 ?e)"
    using create_file_attrs_enc [of ?a "replicate MAX_FILE_ATTRS_LEN NUL"] v by simp
  show ?thesis
    using request_header_round_trip [OF _ _ _ c, of "daemon0\<lparr>rx := (\<lambda>_. [])(6 := [Seg ?e, Seg ''/a''])\<rparr>" 6 "''/a''"] v u
    by (simp add: daemon0_def avail_def patched_0)
qed

text \<open>C23: whenever the daemon's header fits its array, the server reads the same command, path
  length, data length and number of bytes to discard, and leaves what follows on the connection.\<close>

theorem transfer_header_round_trip:
  assumes "write_dest_header da buf = Some (da', h)" and "length buf = MAX_HEADER_LEN"
    and "- (2 ^ 63) \<le> path_len da" and "path_len da < 2 ^ 63"
    and "clients w client = Some c" and "avail (command_socket c) w = take (unat (structure_len da')) h @ rest"
    and "length sbuf = MAX_HEADER_LEN"
  shows "\<exists>r w'. bindM (load_dest_file_attrs sbuf da0 client) (\<lambda>(header, da). parse_dest_file_attrs header da client) w =
      (Ret r, w') \<and> header_of r = header_of da \<and> avail (command_socket c) w' = rest"
proof -
  let ?t = "header_of da"
  have hl: "header_len ?t \<le> MAX_HEADER_LEN" and da': "da' = da\<lparr>structure_len := of_nat (header_len ?t)\<rparr>"
    and h: "h = patched buf 0 (enc_transfer ?t)"
    using assms(1) write_dest_header_spec [OF assms(2-4)] by (auto split: if_splits)
  have v: "valid_transfer ?t" using hl assms(3,4) by (simp add: valid_transfer_def header_of_def)
  have "unat (of_nat (header_len ?t) :: u8) = header_len ?t"
    using hl by (intro u8_of_nat) (simp add: MAX_HEADER_LEN_def)
  then have "avail (command_socket c) w = enc_transfer ?t @ rest" using assms(6) h da' by (simp add: patched_0)
  then have "dec_transfer (avail (command_socket c) w) = Some ((command da, path_len da, data_len da, discard da), rest)"
    using dec_enc_transfer [OF v, of rest] by (simp add: header_of_def)
  from load_parse_spec [OF this assms(7,5) refl, of da0 "\<lambda>_. retM"] obtain l where
    l: "rest = drop l (avail (command_socket c) w)" "l \<le> length (avail (command_socket c) w)"
    "bindM (load_dest_file_attrs sbuf da0 client) (\<lambda>(header, da). bindM (parse_dest_file_attrs header da client) retM) w =
     (Ret \<lparr>structure_len = of_nat l, command = command da, path_len = path_len da, data_len = data_len da,
        discard = discard da\<rparr>, consume (command_socket c) l w)" by auto
  have "bindM m retM = m" for m :: "dest_file_attrs srv"
    by (auto simp: bindM_def fun_eq_iff split: prod.splits result.splits)
  then show ?thesis using l by (intro exI [of _ "\<lparr>structure_len = of_nat l, command = command da, path_len = path_len da,
      data_len = data_len da, discard = discard da\<rparr>"] exI [of _ "consume (command_socket c) l w"])
    (simp add: header_of_def)
qed

theorem transfer_header_round_trip_witness:
  "\<exists>r w'. bindM (load_dest_file_attrs (replicate MAX_HEADER_LEN NUL) (l_attrs locals0) 7)
      (\<lambda>(header, da). parse_dest_file_attrs header da 7)
      (server_rx [Seg (enc_transfer (as_char MK_FILE, 9, 1234567, 89)), Seg ''next''] []) = (Ret r, w') \<and>
    header_of r = (as_char MK_FILE, 9, 1234567, 89) \<and> avail 3 w' = ''next''"
proof -
  let ?t = "(as_char MK_FILE, 9, 1234567, 89) :: transfer"
  let ?da = "\<lparr>structure_len = 0, command = as_char MK_FILE, path_len = 9, data_len = 1234567, discard = 89\<rparr>"
  let ?buf = "replicate MAX_HEADER_LEN NUL"
  have v: "valid_transfer ?t" by (rule valid_small_transfer) simp_all
  then have l: "header_len ?t \<le> MAX_HEADER_LEN" by (simp add: valid_transfer_def)
  have t: "header_of ?da = ?t" by (simp add: header_of_def)
  have wr: "write_dest_header ?da ?buf = Some (?da\<lparr>structure_len := of_nat (header_len ?t)\<rparr>, patched ?buf 0 (enc_transfer ?t))"
    using write_dest_header_spec [of ?buf ?da] l t by simp
  have u: "unat (of_nat (header_len ?t) :: u8) = header_len ?t"
    using l by (intro u8_of_nat) (simp add: MAX_HEADER_LEN_def)
  show ?thesis
    using transfer_header_round_trip [OF wr, of "server_rx [Seg (enc_transfer ?t), Seg ''next''] []" 7 client0 "''next''" ?buf "l_attrs locals0"] u t
    by (simp add: patched_0)
qed

text \<open>C36: \<open>create_dest_file_attrs\<close> stays inside its array exactly when the three decimal numbers
  leave room: the array was sized for binary numbers, so that a file of eleven digits' size sent
  after a refusal of another such file writes past its end.\<close>

theorem transfer_header_fits:
  assumes "length buf = MAX_HEADER_LEN" and "- (2 ^ 63) \<le> path_len da" and "path_len da < 2 ^ 63"
  shows "write_dest_header da buf \<noteq> None \<longleftrightarrow>
    length (sprintf_ld (path_len da)) + length (sprintf_llu (data_len da)) + length (sprintf_llu (discard da)) \<le> 24"
  using write_dest_header_spec [OF assms] by (simp add: header_len_def header_of_def MAX_HEADER_LEN_def)

theorem transfer_header_fits_witness:
  "write_dest_header \<lparr>structure_len = 0, command = as_char MK_FILE, path_len = 100, data_len = 10000000000, discard = 10000000000\<rparr>
    (replicate MAX_HEADER_LEN NUL) = None"
proof -
  have "length (decimal 10000000000) > 10"
    using length_decimal_le [of 10 10000000000] by simp
  moreover have "length (decimal 100) > 2" using length_decimal_le [of 2 100] by simp
  ultimately have "24 < length (sprintf_ld 100) + length (sprintf_llu 10000000000) + length (sprintf_llu 10000000000)"
    by (simp add: sprintf_ld_def sprintf_llu_def)
  then show ?thesis
    using transfer_header_fits [of "replicate MAX_HEADER_LEN NUL" "\<lparr>structure_len = 0, command = as_char MK_FILE, path_len = 100,
      data_len = 10000000000, discard = 10000000000\<rparr>"] by (simp del: not_None_eq)
qed

section \<open>The client\<close>

text \<open>C25: the client sends the daemon the request for its two paths and nothing else; its exit
  status is 0 exactly when the daemon acknowledges, and otherwise it prints the daemon's text.\<close>

theorem client_reports_answer:
  assumes "calls sock argv1 argv2 argv3 s d w" and "length buf = MAX_FILE_ATTRS_LEN"
    and "dec_message (avail sock w) = Some ((flag, text_body t), rest)" and "NUL \<notin> set t"
    and "length message = MESSAGE_BUFFERSIZE" and "flag \<noteq> as_char ACK_OK \<longrightarrow> t \<noteq> []"
  shows "\<exists>w'. cli_main argv1 argv2 argv3 buf f0 message w =
      (Exit (if flag = as_char ACK_OK then EXIT_SUCCESS else EXIT_FAILURE), w') \<and>
    tx w' = (tx w)(sock := tx w sock @ request_bytes s d) \<and>
    printed w' = printed w @ (if flag = as_char ACK_OK then [] else t @ [CHR 0x0A]) \<and> closed w' = closed w @ [sock]"
  using cli_main_answered [OF assms, of f0] cli_main_tx [OF assms(1,2), of f0 message] by auto

definition caller0 :: "byte list \<Rightarrow> client" where
  "caller0 reply = \<lparr>rx = (\<lambda>_. [])(20 := [Seg reply]), tx = \<lambda>_. [], snd_evs = [], sel_evs = [], closed = [], errno = 0,
     sigpipe_ignored = False, socket_evs = [20], connect_evs = [], fcntl_evs = [], printed = [], reported = []\<rparr>"

theorem client_reports_answer_witness:
  "\<exists>w'. cli_main (cs ''host'') (cs ''/a'') (cs ''b'') (replicate MAX_FILE_ATTRS_LEN NUL) NUL (replicate MESSAGE_BUFFERSIZE NUL)
      (caller0 (enc_message (as_char ACK_ERROR, cs ''No space left''))) = (Exit EXIT_FAILURE, w') \<and>
    tx w' = (\<lambda>_. [])(20 := request_bytes ''/a'' ''b'') \<and> printed w' = ''No space left'' @ [CHR 0x0A] \<and> closed w' = [20]"
proof -
  let ?w = "caller0 (enc_message (as_char ACK_ERROR, cs ''No space left''))"
  have c: "calls 20 (cs ''host'') (cs ''/a'') (cs ''b'') ''/a'' ''b'' ?w"
    by (simp add: calls_def caller0_def SOCKET_ADDRESS_def SUN_PATH_def PATH_MAX_def)
  have "dec_message (avail 20 ?w) = Some ((as_char ACK_ERROR, text_body ''No space left''), [])"
    using messages.dec_enc [of "(as_char ACK_ERROR, cs ''No space left'')" "[]"]
    by (simp add: caller0_def avail_def valid_message_def cs_def text_body_def)
  from client_reports_answer [OF c _ this, of "replicate MAX_FILE_ATTRS_LEN NUL" "replicate MESSAGE_BUFFERSIZE NUL" NUL]
  show ?thesis by (simp add: answer_flags) (simp add: caller0_def)
qed

text \<open>The client copies the name of the server into the 108 bytes of a socket address without
  looking at its length, which it only compared with \<open>PATH_MAX\<close>.\<close>

lemma server_name_overflow:
  assumes "c_str argv1 = Some server" and "length server \<le> PATH_MAX - 13" and "SUN_PATH \<le> length (SOCKET_ADDRESS @ server)"
    and "c_str argv2 = Some s" and "c_str argv3 = Some d" and "socket_evs w = sock # ss" and "sock \<noteq> - 1"
  shows "fst (cli_main argv1 argv2 argv3 buf f m w) = Ub"
proof -
  have l: "length (SOCKET_ADDRESS @ server) + 1 \<le> PATH_MAX" "length server \<le> PATH_MAX + 1" "\<not> PATH_MAX < length server"
    using assms(2) by (simp_all add: SOCKET_ADDRESS_def PATH_MAX_def)
  have "cli_connect (SOCKET_ADDRESS @ server) w = (Ub, w\<lparr>socket_evs := ss\<rparr>)"
    using assms(3,6,7) by (simp add: cli_connect_def bindM_def os_socket_def sprintf_into_def)
  then show ?thesis
    using assms(1,4,5) l by (simp add: cli_main_def bindM_def strnlen_c_str sprintf_into_def min_def)
qed

section \<open>The token\<close>

text \<open>A daemon's token is the name of its host followed by its random number in decimal, so that
  two daemons of one host with different numbers have different tokens.\<close>

theorem token_spec:
  assumes "c_str hostname = Some host" and "- (2 ^ 63) \<le> n" and "n < 2 ^ 63" and "length host \<le> 234"
  shows "\<exists>token. generate_token n hostname = Some token \<and> c_str token = Some (host @ sprintf_ld n) \<and>
    length token = MESSAGE_BUFFERSIZE \<and>
    (\<forall>m. - (2 ^ 63) \<le> m \<and> m < 2 ^ 63 \<and> generate_token m hostname = Some token \<longrightarrow> m = n)"
  by (rule generate_token_run [OF assms])

theorem token_spec_witness:
  "\<exists>token. generate_token 42 (cs ''host'') = Some token \<and> c_str token = Some (''host'' @ sprintf_ld 42)"
  using token_spec [of "cs ''host''" "''host''" 42] by auto

section \<open>The list macros\<close>

text \<open>C33: on a list of waiting connections, \<open>DL_APPEND\<close> of a new one followed by \<open>DL_DELETE\<close> of
  any one are the list operations, and \<open>LL_SEARCH\<close> then finds the first connection with a token:
  no pointer is lost and none dangles.\<close>

theorem list_macros_refine_lists:
  assumes "dl_holds s xs" and "dl_fresh s a" and "a \<notin> set xs" and "b \<in> set (xs @ [a])"
  shows "\<exists>s1 s2. dl_append (fst s) (Some a) (snd s) = Some s1 \<and> dl_delete (fst s1) (Some b) (snd s1) = Some s2 \<and>
    dl_holds s2 (remove1 b (xs @ [a])) \<and>
    (\<forall>k. NUL \<notin> set k \<longrightarrow> dl_search (fst s2) (probe k) (snd s2) = Some (find (\<lambda>c. dl_key s c = k) (remove1 b (xs @ [a]))))"
proof -
  obtain s1 where 1: "dl_append (fst s) (Some a) (snd s) = Some s1" "dl_holds s1 (xs @ [a])" "dl_key s1 = dl_key s"
    using dl_append_spec [OF assms(1-3)] by blast
  obtain s2 where 2: "dl_delete (fst s1) (Some b) (snd s1) = Some s2" "dl_holds s2 (remove1 b (xs @ [a]))" "dl_key s2 = dl_key s1"
    using dl_remove_spec [OF 1(2) assms(4)] by blast
  have "dl_search (fst s2) (probe k) (snd s2) = Some (find (\<lambda>c. dl_key s c = k) (remove1 b (xs @ [a])))" if "NUL \<notin> set k" for k
    using dl_find_spec [OF 2(2), of k] that 1(3) 2(3) by (simp add: dl_find_def)
  with 1 2 show ?thesis by blast
qed

text \<open>The first connection joins and leaves.\<close>

theorem list_macros_refine_lists_witness:
  "\<exists>s1 s2. dl_append None (Some 5) [5 \<mapsto> probe ''tok''] = Some s1 \<and> dl_delete (fst s1) (Some 5) (snd s1) = Some s2 \<and>
    dl_holds s2 []"
proof -
  have "dl_holds (None, [5 \<mapsto> probe ''tok'']) []" "dl_fresh (None, [5 \<mapsto> probe ''tok'']) 5"
    by (simp_all add: dl_holds_def tokens_ok_def dl_fresh_def probe_def c_str_def)
  from list_macros_refine_lists [OF this, of 5] show ?thesis by auto
qed

text \<open>\<open>max\<close> is the maximum of its three arguments.\<close>

lemma max_is_maximum: "max_of a b c = Max {a, b, c}"
  by (auto simp: max_of_def Let_def max_def)

end
