(* ===== verification/Daemon_Start.thy ===== *)
theory Daemon_Start
  imports Daemon_Restart Client
begin

text \<open>
  How the daemon starts, up to the loop of \<open>main\<close>: the password from the terminal or the command
  line, \<open>init\<close>, the first login and \<open>daemonize\<close>.  What the operating system answers to the calls
  that are made once is in a record; \<open>0\<close> is what \<^verbatim>\<open>fork\<close> returns in the process that goes on.
\<close>

record starting =
  st_input :: "byte list"
  st_input_fails :: bool
  st_log_opens :: bool
  st_random :: int
  st_hostname :: "byte list"
  st_binds :: bool
  st_listens :: bool
  st_fork :: int

section \<open>The password\<close>

text \<open>\<^verbatim>\<open>fgets(buf, n, stdin)\<close> stores a line with its newline, cut after \<open>n - 1\<close> characters, and
  nothing at the end of the input.\<close>

fun line_of :: "byte list \<Rightarrow> byte list" where
  "line_of [] = []"
| "line_of (c # input) = (if c = NL then [NL] else c # line_of input)"

definition fgets :: "byte list \<Rightarrow> nat \<Rightarrow> byte list \<Rightarrow> byte list option" where
  "fgets buf n input =
     (let line = take (n - 1) (line_of input)
      in if line = [] then Some buf else buf_write buf 0 (line @ [NUL]))"

text \<open>\<^verbatim>\<open>password[_strnlen(password, MESSAGE_BUFFERSIZE) - 1] = '\0'\<close>\<close>

definition cut_newline :: "byte list \<Rightarrow> byte list option" where
  "cut_newline password = do {
     n \<leftarrow> strnlen password MESSAGE_BUFFERSIZE;
     if n = 0 then None else buf_write password (n - 1) [NUL]
   }"

definition ask_password :: "starting \<Rightarrow> unit dmn" where
  "ask_password st =
     bindM (getM (\<lambda>w. fgets (d_password w) (MESSAGE_BUFFERSIZE - 1) (st_input st))) (\<lambda>p.
     if st_input_fails st then failM (Exit EXIT_FAILURE)
     else
     bindM (orUb (Option.bind p cut_newline)) (\<lambda>password.
       modifyM (\<lambda>w. w\<lparr>d_password := password\<rparr>)))"

text \<open>\<^verbatim>\<open>strcpy(password, argv[4])\<close>\<close>

definition copy_password :: "byte list \<Rightarrow> unit dmn" where
  "copy_password argv4 =
     bindM (orUb (c_str argv4)) (\<lambda>t.
     bindM (getM (\<lambda>w. buf_write (d_password w) 0 (t @ [NUL]))) (\<lambda>p.
     bindM (orUb p) (\<lambda>password. modifyM (\<lambda>w. w\<lparr>d_password := password\<rparr>))))"

section \<open>init\<close>

definition dmn_server_start :: "starting \<Rightarrow> byte list \<Rightarrow> unit dmn" where
  "dmn_server_start st server_address =
     bindM os_socket (\<lambda>s.
     bindM (modifyM (\<lambda>w. w\<lparr>d_server_socket := s\<rparr>)) (\<lambda>_.
     if s = - 1 then failM (Exit EXIT_FAILURE)
     else
     bindM (orUb (c_str server_address)) (\<lambda>addr.
     bindM (orUb (sprintf_into PATH_MAX (SOCKET_ADDRESS @ addr))) (\<lambda>socket_path.
     bindM (orUb (sprintf_into SUN_PATH socket_path)) (\<lambda>_.
     if \<not> st_binds st then failM (Exit EXIT_FAILURE)
     else if \<not> st_listens st then failM (Exit EXIT_FAILURE)
     else retM ())))))"

text \<open>An exception here has no \<^verbatim>\<open>setjmp\<close> to return to, which is undefined behaviour.\<close>

definition uncaught :: "'a dmn \<Rightarrow> 'a dmn" where
  "uncaught m w = (case m w of (Throw x, w') \<Rightarrow> (Ub, w') | r \<Rightarrow> r)"

definition dmn_init :: "starting \<Rightarrow> byte list \<Rightarrow> unit dmn" where
  "dmn_init st argv1 =
     bindM (modifyM (\<lambda>w. w\<lparr>sigpipe_ignored := True\<rparr>)) (\<lambda>_.
     bindM (orUb (c_str argv1)) (\<lambda>addr.
     if PATH_MAX < length addr then failM (Exit EXIT_FAILURE)
     else
     bindM os_gethostbyname (\<lambda>found.
     if \<not> found then failM (Exit EXIT_FAILURE)
     else if \<not> st_log_opens st then failM (Exit EXIT_FAILURE)
     else
     bindM (orUb (generate_token (st_random st) (st_hostname st))) (\<lambda>token.
     bindM (modifyM (\<lambda>w. w\<lparr>d_token := token\<rparr>)) (\<lambda>_.
     bindM (uncaught connect_both) (\<lambda>_.
     bindM (getM (\<lambda>w. d_command_socket w = - 1 \<or> d_data_socket w = - 1)) (\<lambda>failed.
     if failed then failM (Exit EXIT_FAILURE)
     else
     bindM (getM d_data_socket) (\<lambda>s.
     bindM (os_set_nonblock s) (\<lambda>r.
     if r = - 1 then failM (Exit EXIT_FAILURE)
     else
     bindM (dmn_server_start st argv1) (\<lambda>_.
       modifyM (\<lambda>w. w\<lparr>d_attrs := (d_attrs w)\<lparr>discard := 0\<rparr>\<rparr>)))))))))))"

section \<open>main, before its loop\<close>

definition dmn_daemonize :: "starting \<Rightarrow> unit dmn" where
  "dmn_daemonize st =
     (if st_fork st < 0 then failM (Exit EXIT_FAILURE)
      else if 0 < st_fork st then failM (Exit EXIT_SUCCESS)
      else retM ())"

definition dmn_login :: "unit dmn" where
  "dmn_login =
     bindM (uncaught dmn_authenticate) (\<lambda>r.
       if r \<noteq> EXIT_SUCCESS then failM (Exit EXIT_FAILURE) else retM ())"

definition dmn_start :: "starting \<Rightarrow> nat \<Rightarrow> byte list \<Rightarrow> byte list \<Rightarrow> unit dmn" where
  "dmn_start st argc argv1 argv4 =
     bindM (modifyM (\<lambda>w. w\<lparr>d_file := Null, d_resend := False\<rparr>)) (\<lambda>_.
     if argc < 4 \<or> 5 < argc then failM (Exit EXIT_SUCCESS)
     else
     bindM (if argc = 4 then ask_password st else copy_password argv4) (\<lambda>_.
     bindM (dmn_init st argv1) (\<lambda>_.
     bindM dmn_login (\<lambda>_. dmn_daemonize st))))"

text \<open>The loop, so many rounds of it; \<open>st0s\<close> are the uninitialised structures the rounds find.\<close>

fun dmn_rounds :: "byte list \<Rightarrow> (bool \<times> u64) list \<Rightarrow> unit dmn" where
  "dmn_rounds server_addr [] = retM ()"
| "dmn_rounds server_addr (st0 # st0s) = bindM (dmn_round server_addr st0) (\<lambda>_. dmn_rounds server_addr st0s)"

text \<open>The whole program; it never returns, so many rounds of its loop are seen.\<close>

definition dmn_main :: "starting \<Rightarrow> nat \<Rightarrow> byte list \<Rightarrow> byte list \<Rightarrow> (bool \<times> u64) list \<Rightarrow> unit dmn" where
  "dmn_main st argc argv1 argv4 st0s =
     bindM (dmn_start st argc argv1 argv4) (\<lambda>_.
     bindM (orUb (c_str argv1)) (\<lambda>server_addr. dmn_rounds server_addr st0s))"

section \<open>The password that is used\<close>

lemma line_of_terminated: "NL \<notin> set t \<Longrightarrow> line_of (t @ NL # rest) = t @ [NL]"
  by (induction t) auto

lemma line_of_unterminated: "NL \<notin> set t \<Longrightarrow> line_of t = t"
  by (induction t) auto

text \<open>Whatever the line was, its last character is cut off.\<close>

lemma cut_last:
  assumes "NUL \<notin> set t" and "t \<noteq> []" and "length t \<le> 253" and "length buf = MESSAGE_BUFFERSIZE"
  shows "cut_newline (patched buf 0 (t @ [NUL])) = Some (patched (patched buf 0 (t @ [NUL])) (length t - 1) [NUL])"
    and "c_str (patched (patched buf 0 (t @ [NUL])) (length t - 1) [NUL]) = Some (butlast t)"
proof -
  let ?b = "patched buf 0 (t @ [NUL])"
  have len: "length ?b = 255" using assms(3,4) by (simp add: MESSAGE_BUFFERSIZE_def)
  have "strnlen ?b MESSAGE_BUFFERSIZE = Some (length t)"
    using assms(1,3) by (simp add: patched_0 strnlen_string MESSAGE_BUFFERSIZE_def min_def)
  then show "cut_newline ?b = Some (patched ?b (length t - 1) [NUL])"
    using assms(2,3) len by (simp add: cut_newline_def) (intro buf_write_Some, cases t, simp_all)
  have "take (length t - 1) ?b = butlast t" by (simp add: patched_0 butlast_conv_take)
  moreover have "NUL \<notin> set (butlast t)" using assms(1) by (meson in_set_butlastD)
  ultimately show "c_str (patched ?b (length t - 1) [NUL]) = Some (butlast t)"
    by (simp add: patched_def [of ?b])
qed

lemma ask_password_line:
  assumes "line_of (st_input st) = t" and "t \<noteq> []" and "NUL \<notin> set t" and "length t \<le> 253"
    and "\<not> st_input_fails st" and "length (d_password w) = MESSAGE_BUFFERSIZE"
  shows "\<exists>p. ask_password st w = (Ret (), w\<lparr>d_password := p\<rparr>) \<and> c_str p = Some (butlast t) \<and> length p = MESSAGE_BUFFERSIZE"
proof -
  let ?b = "patched (d_password w) 0 (t @ [NUL])"
  have tk: "take (MESSAGE_BUFFERSIZE - 1 - 1) t = t" using assms(4) by (simp add: MESSAGE_BUFFERSIZE_def)
  have "buf_write (d_password w) 0 (t @ [NUL]) = Some ?b"
    using assms(4,6) by (intro buf_write_Some) (simp add: MESSAGE_BUFFERSIZE_def)
  then have f: "fgets (d_password w) (MESSAGE_BUFFERSIZE - 1) (st_input st) = Some ?b"
    unfolding fgets_def assms(1) tk Let_def using assms(2) by simp
  have "length ?b = MESSAGE_BUFFERSIZE" using assms(4,6) by (simp add: MESSAGE_BUFFERSIZE_def)
  moreover have "length t - 1 + 1 \<le> MESSAGE_BUFFERSIZE" using assms(4) by (simp add: MESSAGE_BUFFERSIZE_def)
  ultimately have "length (patched ?b (length t - 1) [NUL]) = MESSAGE_BUFFERSIZE" by simp
  then show ?thesis
    using f assms(5) cut_last [OF assms(3,2,4,6)]
    by (intro exI [of _ "patched ?b (length t - 1) [NUL]"]) (simp add: ask_password_def)
qed

section \<open>A start that succeeds\<close>

definition starts_up :: "starting \<Rightarrow> byte list \<Rightarrow> byte list \<Rightarrow> byte list \<Rightarrow> bool" where
  "starts_up st argv1 pw t \<longleftrightarrow>
     line_of (st_input st) = pw @ [NL] \<and> NUL \<notin> set pw \<and> length pw \<le> 252 \<and> \<not> st_input_fails st \<and>
     (\<exists>addr. c_str argv1 = Some addr \<and> length (SOCKET_ADDRESS @ addr) < SUN_PATH) \<and>
     (\<exists>tok. generate_token (st_random st) (st_hostname st) = Some tok \<and> c_str tok = Some t) \<and> length t \<le> 252 \<and>
     st_log_opens st \<and> st_binds st \<and> st_listens st \<and> st_fork st = 0"

text \<open>Three sockets and a network that works; and a server that lets the daemon in.\<close>

definition network_up :: "fd \<Rightarrow> fd \<Rightarrow> fd \<Rightarrow> daemon \<Rightarrow> bool" where
  "network_up s s' l w \<longleftrightarrow>
     (\<exists>ss. socket_evs w = s # s' # l # ss) \<and> - 1 \<notin> {s, s', l} \<and> s \<noteq> s' \<and> connect_evs w = [] \<and> fcntl_evs w = [] \<and>
     snd_evs w = [] \<and> d_resolves w = [] \<and> length (d_password w) = MESSAGE_BUFFERSIZE \<and>
     length (d_message w) = MESSAGE_BUFFERSIZE"

definition reachable_server :: "fd \<Rightarrow> fd \<Rightarrow> fd \<Rightarrow> byte list \<Rightarrow> daemon \<Rightarrow> bool" where
  "reachable_server s s' l rest w \<longleftrightarrow> network_up s s' l w \<and>
     (\<exists>flag. dec_message (avail s w) = Some ((flag, []), rest) \<and> flag \<noteq> as_char BAD_AUTH)"

lemma dmn_server_start_run:
  assumes "socket_evs w = l # ss" and "l \<noteq> - 1" and "c_str argv1 = Some addr"
    and "length (SOCKET_ADDRESS @ addr) < SUN_PATH" and "st_binds st" and "st_listens st"
  shows "dmn_server_start st argv1 w = (Ret (), w\<lparr>socket_evs := ss, d_server_socket := l\<rparr>)"
proof -
  have "length (SOCKET_ADDRESS @ addr) + 1 \<le> PATH_MAX" using assms(4) by (simp add: SUN_PATH_def PATH_MAX_def)
  then show ?thesis
    using assms by (simp add: dmn_server_start_def bindM_def os_socket_def sprintf_into_def)
qed

lemma os_set_nonblock_run: "fcntl_evs w = [] \<Longrightarrow> os_set_nonblock s w = (Ret 0, w)"
  by (cases w) (simp add: os_set_nonblock_def)

lemma dmn_init_run:
  assumes st: "starts_up st argv1 pw t" and w: "network_up s s' l w"
  shows "\<exists>ss tok. dmn_init st argv1 w = (Ret (), (reconnected s s' t w)\<lparr>socket_evs := ss, sigpipe_ignored := True,
    d_token := tok, d_server_socket := l, d_attrs := (d_attrs w)\<lparr>discard := 0\<rparr>\<rparr>)"
proof -
  from st obtain addr tok where a: "c_str argv1 = Some addr" "length (SOCKET_ADDRESS @ addr) < SUN_PATH"
    and tok: "generate_token (st_random st) (st_hostname st) = Some tok" "c_str tok = Some t"
    by (auto simp: starts_up_def)
  obtain ss where ss: "socket_evs w = s # s' # l # ss" using w by (auto simp: network_up_def)
  let ?w1 = "w\<lparr>sigpipe_ignored := True, d_token := tok\<rparr>"
  let ?w2 = "(reconnected s s' t ?w1)\<lparr>socket_evs := l # ss\<rparr>"
  have c: "connect_both ?w1 = (Ret (), ?w2)"
    by (rule connect_both_run) (use w st ss tok in \<open>auto simp: network_up_def starts_up_def\<close>)
  have l: "dmn_server_start st argv1 ?w2 = (Ret (), ?w2\<lparr>socket_evs := ss, d_server_socket := l\<rparr>)"
    by (rule dmn_server_start_run [OF _ _ a]) (use w st in \<open>auto simp: network_up_def starts_up_def\<close>)
  have n: "os_set_nonblock s' ?w2 = (Ret 0, ?w2)"
    by (rule os_set_nonblock_run) (use w in \<open>simp add: network_up_def reconnected_def\<close>)
  have g: "os_gethostbyname (w\<lparr>sigpipe_ignored := True\<rparr>) = (Ret True, w\<lparr>sigpipe_ignored := True\<rparr>)"
    using w by (simp add: network_up_def os_gethostbyname_def)
  have p: "\<not> PATH_MAX < length addr" using a(2) by (simp add: PATH_MAX_def SUN_PATH_def)
  have ne: "s \<noteq> - 1" "s' \<noteq> - 1" using w by (auto simp: network_up_def)
  have sock: "d_command_socket ?w2 = s" "d_data_socket ?w2 = s'" by (simp_all add: reconnected_def)
  have "dmn_init st argv1 w = (Ret (), ?w2\<lparr>socket_evs := ss, d_server_socket := l, d_attrs := (d_attrs w)\<lparr>discard := 0\<rparr>\<rparr>)"
    using st a(1) tok(1) p g c n l ne sock
    by (simp add: dmn_init_def uncaught_def bindM_def starts_up_def) (simp add: reconnected_def)
  then show ?thesis by (intro exI [of _ ss] exI [of _ tok]) (simp add: reconnected_def)
qed

text \<open>The state in which the daemon logs in.\<close>

definition set_up :: "fd \<Rightarrow> fd \<Rightarrow> fd \<Rightarrow> byte list \<Rightarrow> byte list \<Rightarrow> daemon \<Rightarrow> daemon \<Rightarrow> bool" where
  "set_up s s' l pw t w v \<longleftrightarrow> (\<exists>p ss tok. c_str p = Some pw \<and>
     v = (reconnected s s' t w)\<lparr>d_file := Null, d_resend := False, d_password := p, socket_evs := ss,
       sigpipe_ignored := True, d_token := tok, d_server_socket := l, d_attrs := (d_attrs w)\<lparr>discard := 0\<rparr>\<rparr>)"

lemma dmn_start_sets_up:
  assumes st: "starts_up st argv1 pw t" and w: "network_up s s' l w"
  shows "\<exists>v. dmn_start st 4 argv1 argv4 w = bindM dmn_login (\<lambda>_. retM ()) v \<and> set_up s s' l pw t w v"
proof -
  let ?w = "w\<lparr>d_file := Null, d_resend := False\<rparr>"
  have "\<exists>p. ask_password st ?w = (Ret (), ?w\<lparr>d_password := p\<rparr>) \<and> c_str p = Some (butlast (pw @ [NL])) \<and> length p = MESSAGE_BUFFERSIZE"
    by (rule ask_password_line) (use st w in \<open>auto simp: starts_up_def network_up_def NL_def\<close>)
  then obtain p where p: "ask_password st ?w = (Ret (), ?w\<lparr>d_password := p\<rparr>)" "c_str p = Some pw" "length p = MESSAGE_BUFFERSIZE"
    by auto
  let ?w1 = "?w\<lparr>d_password := p\<rparr>"
  have "network_up s s' l ?w1" using w p(3) by (simp add: network_up_def)
  from dmn_init_run [OF st this] obtain ss tok where i: "dmn_init st argv1 ?w1 = (Ret (), (reconnected s s' t ?w1)
      \<lparr>socket_evs := ss, sigpipe_ignored := True, d_token := tok, d_server_socket := l, d_attrs := (d_attrs w)\<lparr>discard := 0\<rparr>\<rparr>)"
    (is "_ = (_, ?v)") by auto
  have "set_up s s' l pw t w ?v"
    unfolding set_up_def using p(2)
    by (intro exI [of _ p] exI [of _ ss] exI [of _ tok]) (simp add: reconnected_def)
  moreover have "dmn_start st 4 argv1 argv4 w = bindM dmn_login (\<lambda>_. retM ()) ?v"
    using p(1) i st by (simp add: dmn_start_def dmn_daemonize_def bindM_def starts_up_def)
  ultimately show ?thesis by blast
qed

lemma set_up_fields:
  assumes "set_up s s' l pw t w v" and "network_up s s' l w"
  shows "d_command_socket v = s" "d_data_socket v = s'" "d_server_socket v = l" "sigpipe_ignored v"
    "discard (d_attrs v) = 0" "\<not> d_resend v" "d_file v = Null" "c_str (d_password v) = Some pw" "snd_evs v = []"
    "d_message v = d_message w" "avail f v = avail f w" "d_accepts v = d_accepts w" "d_fs v = d_fs w"
    "d_fopen_evs v = d_fopen_evs w" "d_fread_evs v = d_fread_evs w" "sel_evs v = sel_evs w"
    "tx v = (tx w)(s := tx w s @ enc_message (as_char AUTH_REQUEST, text_body t),
       s' := tx w s' @ enc_message (as_char AUTH_REQUEST, text_body t))"
  using assms by (auto simp: set_up_def reconnected_def network_up_def avail_def fun_eq_iff)

lemma dmn_login_run:
  assumes "welcomes s pw rest v" and "d_command_socket v = s" and "snd_evs v = []"
  shows "\<exists>q g. bindM dmn_login (\<lambda>_. retM ()) v = (Ret (),
      v\<lparr>tx := (tx v)(s := tx v s @ enc_message (as_char AUTH_REQUEST, text_body pw)), rx := (rx v)(s := q), d_logfile := g\<rparr>) \<and>
    stream q = rest"
proof -
  obtain q g where "dmn_authenticate v = (Ret EXIT_SUCCESS,
      v\<lparr>tx := (tx v)(s := tx v s @ enc_message (as_char AUTH_REQUEST, text_body pw)), rx := (rx v)(s := q), d_logfile := g\<rparr>)"
    "stream q = rest" using dmn_authenticate_run [OF assms] by blast
  then show ?thesis by (intro exI [of _ q] exI [of _ g]) (simp add: dmn_login_def uncaught_def bindM_def)
qed

lemma dmn_start_run:
  assumes st: "starts_up st argv1 pw t" and w: "reachable_server s s' l rest w"
  shows "\<exists>v q g. dmn_start st 4 argv1 argv4 w = (Ret (),
      v\<lparr>tx := (tx v)(s := tx v s @ enc_message (as_char AUTH_REQUEST, text_body pw)), rx := (rx v)(s := q), d_logfile := g\<rparr>) \<and>
    set_up s s' l pw t w v \<and> stream q = rest"
proof -
  have up: "network_up s s' l w" using w by (simp add: reachable_server_def)
  obtain v where v: "dmn_start st 4 argv1 argv4 w = bindM dmn_login (\<lambda>_. retM ()) v" "set_up s s' l pw t w v"
    using dmn_start_sets_up [OF st up] by blast
  note f = set_up_fields [OF v(2) up]
  have "welcomes s pw rest v"
    using w st f up by (simp add: welcomes_def reachable_server_def starts_up_def network_up_def)
  from dmn_login_run [OF this f(1,9)] v show ?thesis by metis
qed

end
