(* ===== verification/Server_Start.thy ===== *)
theory Server_Start
  imports Server_Accept Server_Serves
begin

text \<open>
  How the server starts, up to the loop of its \<open>main\<close>: the arguments, the log, \<open>daemonize\<close> and
  \<open>server_start\<close>.  What the operating system answers to the calls that are made once is in a
  record.
\<close>

record srv_starting =
  ss_log_opens :: bool
  ss_fork :: int
  ss_socket :: fd
  ss_binds :: bool
  ss_listens :: bool

definition srv_daemonize :: "srv_starting \<Rightarrow> unit srv" where
  "srv_daemonize st =
     bindM (modifyM (\<lambda>w. w\<lparr>logfile := logfile w @ ''Starting llncp server'' @ [CHR 0x0A]\<rparr>)) (\<lambda>_.
     if ss_fork st < 0 then failM (Exit EXIT_FAILURE)
     else if 0 < ss_fork st then failM (Exit EXIT_SUCCESS)
     else retM ())"

definition srv_server_start :: "srv_starting \<Rightarrow> fd srv" where
  "srv_server_start st =
     (if ss_socket st = - 1 then failM (Exit EXIT_FAILURE)
      else if \<not> ss_binds st then bindM (os_close (ss_socket st)) (\<lambda>_. failM (Exit EXIT_FAILURE))
      else if \<not> ss_listens st then bindM (os_close (ss_socket st)) (\<lambda>_. failM (Exit EXIT_FAILURE))
      else retM (ss_socket st))"

text \<open>\<open>argv2\<close> to \<open>argv4\<close> are the arrays of the arguments; \<^verbatim>\<open>memcpy\<close> reads \<open>MESSAGE_BUFFERSIZE\<close> bytes
  of an argument whatever its length.\<close>

definition copy_arguments :: "nat \<Rightarrow> byte list \<Rightarrow> byte list \<Rightarrow> unit srv" where
  "copy_arguments argc argv3 argv4 =
     bindM (orUb (buf_read argv3 0 MESSAGE_BUFFERSIZE)) (\<lambda>pw.
     bindM (modifyM (\<lambda>w. w\<lparr>password := pw\<rparr>)) (\<lambda>_.
     if argc = 5 then
       bindM (modifyM (\<lambda>w. w\<lparr>is_dest_chroot := True\<rparr>)) (\<lambda>_.
       bindM (orUb (buf_read argv4 0 MESSAGE_BUFFERSIZE)) (\<lambda>bs.
       bindM (getM (\<lambda>w. buf_write (dest_chroot w) 0 bs)) (\<lambda>r.
       bindM (orUb r) (\<lambda>dir. modifyM (\<lambda>w. w\<lparr>dest_chroot := dir\<rparr>)))))
     else retM ()))"

definition srv_start :: "srv_starting \<Rightarrow> nat \<Rightarrow> byte list \<Rightarrow> byte list \<Rightarrow> byte list \<Rightarrow> fd srv" where
  "srv_start st argc argv2 argv3 argv4 =
     (if argc < 4 \<or> 5 < argc then failM (Exit EXIT_SUCCESS)
      else
      bindM (orUb (c_str argv2)) (\<lambda>log.
      if log \<noteq> ''-'' \<and> \<not> ss_log_opens st then failM (Exit EXIT_FAILURE)
      else
      bindM (srv_daemonize st) (\<lambda>_.
      bindM (copy_arguments argc argv3 argv4) (\<lambda>_.
      bindM (modifyM (\<lambda>w. w\<lparr>last_client := None\<rparr>)) (\<lambda>_.
        srv_server_start st)))))"

section \<open>A start that succeeds\<close>

text \<open>The globals before: \<open>password\<close> and \<open>dest_chroot\<close> are zero, no client, nothing waiting.\<close>

definition fresh_server :: "server \<Rightarrow> bool" where
  "fresh_server w \<longleftrightarrow> dest_chroot w = replicate PATH_MAX NUL \<and> \<not> is_dest_chroot w \<and>
     clients w = Map.empty \<and> els w = Map.empty \<and> head w = None"

text \<open>The directory that comes to be the chroot: the first 255 bytes of the argument.\<close>

lemma chroot_argument:
  assumes "c_str argv4 = Some dir" and "MESSAGE_BUFFERSIZE \<le> length argv4"
  shows "c_str (patched (replicate PATH_MAX NUL) 0 (take MESSAGE_BUFFERSIZE argv4)) = Some (take MESSAGE_BUFFERSIZE dir)"
proof -
  obtain tail where a: "argv4 = dir @ NUL # tail" using c_str_split [OF assms(1)] by blast
  have n: "NUL \<notin> set dir" using c_str_no_NUL [OF assms(1)] .
  let ?k = "PATH_MAX - MESSAGE_BUFFERSIZE"
  have z: "replicate ?k NUL = NUL # replicate (?k - 1) NUL" by (simp add: PATH_MAX_def MESSAGE_BUFFERSIZE_def numeral_eq_Suc)
  have p: "patched (replicate PATH_MAX NUL) 0 (take MESSAGE_BUFFERSIZE argv4) = take MESSAGE_BUFFERSIZE argv4 @ replicate ?k NUL"
    using assms(2) by (simp add: patched_0 min_def)
  show ?thesis
  proof (cases "length dir < MESSAGE_BUFFERSIZE")
    case True
    then have "take MESSAGE_BUFFERSIZE argv4 = dir @ NUL # take (MESSAGE_BUFFERSIZE - length dir - 1) tail"
      unfolding a by (cases "MESSAGE_BUFFERSIZE - length dir") simp_all
    then show ?thesis unfolding p using n True by simp
  next
    case False
    then have "take MESSAGE_BUFFERSIZE argv4 = take MESSAGE_BUFFERSIZE dir" unfolding a by simp
    moreover have "NUL \<notin> set (take MESSAGE_BUFFERSIZE dir)" using n by (auto dest: in_set_takeD)
    ultimately show ?thesis unfolding p z by simp
  qed
qed

lemma srv_start_run:
  assumes w: "fresh_server w" and a3: "MESSAGE_BUFFERSIZE \<le> length argv3"
    and a4: "c_str argv4 = Some dir" "MESSAGE_BUFFERSIZE \<le> length argv4"
    and a2: "c_str argv2 = Some log" and st: "ss_log_opens st" "ss_fork st = 0" "ss_socket st \<noteq> - 1" "ss_binds st" "ss_listens st"
    and ns: "arrivals w ns"
  shows "\<exists>w'. srv_start st 5 argv2 argv3 argv4 w = (Ret (ss_socket st), w') \<and>
    password w' = take MESSAGE_BUFFERSIZE argv3 \<and> prefix_of w' = Some (take MESSAGE_BUFFERSIZE dir @ ''/'') \<and>
    accepting w' [] ns \<and> client_list (clients w') (last_client w') [] \<and> fs w' = fs w"
proof -
  let ?dir = "patched (replicate PATH_MAX NUL) 0 (take MESSAGE_BUFFERSIZE argv4)"
  have wr: "buf_write (replicate PATH_MAX NUL) 0 (take MESSAGE_BUFFERSIZE argv4) = Some ?dir"
    using a4(2) by (intro buf_write_Some) (simp add: PATH_MAX_def MESSAGE_BUFFERSIZE_def)
  let ?w = "w\<lparr>logfile := logfile w @ ''Starting llncp server'' @ [CHR 0x0A], password := take MESSAGE_BUFFERSIZE argv3,
      is_dest_chroot := True, dest_chroot := ?dir, last_client := None\<rparr>"
  have "srv_start st 5 argv2 argv3 argv4 w = (Ret (ss_socket st), ?w)"
    using w a3 a4 a2 st wr
    by (simp add: srv_start_def srv_daemonize_def copy_arguments_def srv_server_start_def bindM_def buf_read_Some fresh_server_def)
  moreover have "prefix_of ?w = Some (take MESSAGE_BUFFERSIZE dir @ ''/'')"
    using chroot_argument [OF a4] by (simp add: prefix_of_def)
  moreover have "accepting ?w [] ns"
  proof -
    have "arrivals ?w ns" using ns by (simp add: arrivals_def announces_def [abs_def] avail_def)
    moreover have "waiting ?w []" using w by (simp add: waiting_def fresh_server_def dl_holds_def tokens_ok_def dl.unique_def)
    ultimately show ?thesis by (simp add: accepting_def)
  qed
  ultimately show ?thesis using w by (intro exI [of _ ?w]) (simp add: fresh_server_def client_list_def)
qed

text \<open>Whatever the arguments, a start that comes to the loop of \<open>main\<close> has no client and has touched
  no file; with a chroot directory, its paths go there.\<close>

lemma srv_start_ret:
  assumes "srv_start st argc argv2 argv3 argv4 w = (Ret sock, w')"
  shows "clients w' = clients w" and "fs w' = fs w" and "accepts w' = accepts w" and "rx w' = rx w"
proof -
  let ?P = "\<lambda>v :: server. clients v = clients w \<and> fs v = fs w \<and> accepts v = accepts w \<and> rx v = rx w"
  have "keeps ?P (srv_start st argc argv2 argv3 argv4)"
    unfolding srv_start_def srv_daemonize_def copy_arguments_def srv_server_start_def os_close_def
    by (intro keeps_intros; simp)
  with assms show "clients w' = clients w" and "fs w' = fs w" and "accepts w' = accepts w" and "rx w' = rx w"
    using keepsD [of ?P _ w] by blast+
qed

lemma srv_start_prefix:
  assumes run: "srv_start st 5 argv2 argv3 argv4 w = (Ret sock, w')" and w: "fresh_server w"
    and a4: "c_str argv4 = Some dir" "MESSAGE_BUFFERSIZE \<le> length argv4"
  shows "prefix_of w' = Some (take MESSAGE_BUFFERSIZE dir @ ''/'')"
proof -
  let ?dir = "patched (replicate PATH_MAX NUL) 0 (take MESSAGE_BUFFERSIZE argv4)"
  have wr: "buf_write (replicate PATH_MAX NUL) 0 (take MESSAGE_BUFFERSIZE argv4) = Some ?dir"
    using a4(2) by (intro buf_write_Some) (simp add: PATH_MAX_def MESSAGE_BUFFERSIZE_def)
  have "dest_chroot w' = ?dir \<and> is_dest_chroot w'"
    using run w a4 wr
    by (auto simp: srv_start_def srv_daemonize_def copy_arguments_def srv_server_start_def bindM_eq_Ret buf_read_Some
        fresh_server_def orUb_def os_close_def split: if_splits option.splits)
  then show ?thesis using chroot_argument [OF a4] by (simp add: prefix_of_def)
qed

end
