(* ===== verification/Start_Properties.thy ===== *)
theory Start_Properties
  imports Daemon_Start Server_Start Daemon_Example Server_Example
begin

text \<open>How the two long-running programs start, and what goes wrong with their arguments.\<close>

section \<open>The daemon\<close>

text \<open>C29: started with a line that holds the password, and with a server that lets it in, the daemon
  ends up connected on two sockets, listening on a third, with SIGPIPE ignored, nothing to discard
  and nothing to send again; it has presented its token on both connections and the password,
  without the newline, on the first.\<close>

theorem daemon_starts:
  assumes "starts_up st argv1 pw t" and "reachable_server s s' l rest w"
  shows "\<exists>w'. dmn_start st 4 argv1 argv4 w = (Ret (), w') \<and> d_command_socket w' = s \<and> d_data_socket w' = s' \<and>
    d_server_socket w' = l \<and> sigpipe_ignored w' \<and> discard (d_attrs w') = 0 \<and> \<not> d_resend w' \<and>
    c_str (d_password w') = Some pw \<and>
    tx w' = (tx w)(
      s := tx w s @ enc_message (as_char AUTH_REQUEST, text_body t) @ enc_message (as_char AUTH_REQUEST, text_body pw),
      s' := tx w s' @ enc_message (as_char AUTH_REQUEST, text_body t))"
proof -
  obtain v q g where "dmn_start st 4 argv1 argv4 w = (Ret (),
      v\<lparr>tx := (tx v)(s := tx v s @ enc_message (as_char AUTH_REQUEST, text_body pw)), rx := (rx v)(s := q), d_logfile := g\<rparr>)"
    and v: "set_up s s' l pw t w v" using dmn_start_run [OF assms] by blast
  moreover have up: "network_up s s' l w" and "s \<noteq> s'" using assms(2) by (auto simp: reachable_server_def network_up_def)
  ultimately show ?thesis using set_up_fields [OF v up] by (auto simp: fun_eq_iff)
qed

definition starting0 :: starting where
  "starting0 = \<lparr>st_input = ''pw'' @ [NL], st_input_fails = False, st_log_opens = True, st_random = 42, st_hostname = cs ''pc'',
     st_binds = True, st_listens = True, st_fork = 0\<rparr>"

definition unstarted :: daemon where
  "unstarted = daemon0\<lparr>rx := (\<lambda>_. [])(3 := [Seg (enc_message (as_char ACK_OK, []))]), sigpipe_ignored := False,
     socket_evs := [3, 4, 5], d_password := replicate MESSAGE_BUFFERSIZE NUL\<rparr>"

theorem daemon_starts_witness:
  "\<exists>w'. dmn_start starting0 4 (cs ''host'') [] unstarted = (Ret (), w') \<and> d_command_socket w' = 3 \<and>
    d_data_socket w' = 4 \<and> d_server_socket w' = 5 \<and> sigpipe_ignored w' \<and> c_str (d_password w') = Some ''pw''"
proof -
  obtain tok where tok: "generate_token 42 (cs ''pc'') = Some tok" "c_str tok = Some (''pc'' @ sprintf_ld 42)"
    using generate_token_run [of "cs ''pc''" "''pc''" 42] by auto
  have l: "length (sprintf_ld 42) \<le> 20" by (rule length_sprintf_ld) simp_all
  have st: "starts_up starting0 (cs ''host'') ''pw'' (''pc'' @ sprintf_ld 42)"
    using tok l by (auto simp: starts_up_def starting0_def line_of_terminated [of "''pw''" "[]"] NL_def SOCKET_ADDRESS_def SUN_PATH_def)
  have w: "reachable_server 3 4 5 [] unstarted"
    using messages.dec_enc [of "(as_char ACK_OK, [])" "[]"]
    by (auto simp: reachable_server_def network_up_def unstarted_def daemon0_def avail_def valid_message_def answer_flags)
  from daemon_starts [OF st w, of "[]"] show ?thesis by blast
qed

text \<open>The code that takes the newline off the line cuts its last character whatever it is: a
  line that ends without a newline, at the end of the input, loses the last character of the
  password.\<close>

theorem unterminated_password_is_cut:
  assumes "NL \<notin> set (st_input st)" and "NUL \<notin> set (st_input st)" and "st_input st \<noteq> []"
    and "length (st_input st) \<le> 253" and "\<not> st_input_fails st" and "length (d_password w) = MESSAGE_BUFFERSIZE"
  shows "\<exists>p. ask_password st w = (Ret (), w\<lparr>d_password := p\<rparr>) \<and> c_str p = Some (butlast (st_input st))"
  using ask_password_line [OF line_of_unterminated [OF assms(1)] assms(3,2,4,5,6)] by blast

theorem unterminated_password_is_cut_witness:
  "\<exists>p. ask_password (starting0\<lparr>st_input := ''secret''\<rparr>) unstarted = (Ret (), unstarted\<lparr>d_password := p\<rparr>) \<and>
    c_str p = Some ''secre''"
  using unterminated_password_is_cut [of "starting0\<lparr>st_input := ''secret''\<rparr>" unstarted]
  by (simp add: starting0_def unstarted_def NL_def)

section \<open>The server\<close>

text \<open>C30: started with arguments that are readable, the server keeps the first 255 bytes of the
  password and of the chroot directory, and begins with no client and nothing waiting: a chroot
  directory of more than 255 characters is cut silently, and every path then goes to another
  place.\<close>

theorem server_starts:
  assumes "fresh_server w" and "MESSAGE_BUFFERSIZE \<le> length argv3"
    and "c_str argv4 = Some dir" and "MESSAGE_BUFFERSIZE \<le> length argv4" and "c_str argv2 = Some log"
    and "ss_log_opens st" and "ss_fork st = 0" and "ss_socket st \<noteq> - 1" and "ss_binds st" and "ss_listens st"
    and "arrivals w ns"
  shows "\<exists>w'. srv_start st 5 argv2 argv3 argv4 w = (Ret (ss_socket st), w') \<and>
    password w' = take MESSAGE_BUFFERSIZE argv3 \<and> prefix_of w' = Some (take MESSAGE_BUFFERSIZE dir @ ''/'') \<and>
    accepting w' [] ns \<and> client_list (clients w') (last_client w') [] \<and> fs w' = fs w"
  by (rule srv_start_run [OF assms])

definition unstarted_server :: server where
  "unstarted_server = server0\<lparr>clients := Map.empty, last_client := None, dest_chroot := replicate PATH_MAX NUL, is_dest_chroot := False\<rparr>"

theorem server_starts_witness:
  "\<exists>w'. srv_start \<lparr>ss_log_opens = True, ss_fork = 0, ss_socket = 9, ss_binds = True, ss_listens = True\<rparr> 5 (cs ''log'')
      (cs ''pw'' @ replicate 300 NUL) (replicate 300 CHR ''d'' @ [NUL]) unstarted_server = (Ret 9, w') \<and>
    prefix_of w' = Some (replicate 255 CHR ''d'' @ ''/'')"
proof -
  let ?st = "\<lparr>ss_log_opens = True, ss_fork = 0, ss_socket = 9, ss_binds = True, ss_listens = True\<rparr>"
  have d: "c_str (replicate 300 CHR ''d'' @ [NUL]) = Some (replicate 300 CHR ''d'')" by simp
  have n: "c_str (cs ''log'') = Some ''log''" by simp
  have w: "fresh_server unstarted_server" "arrivals unstarted_server []"
    by (simp_all add: fresh_server_def unstarted_server_def server0_def arrivals_def)
  have l: "MESSAGE_BUFFERSIZE \<le> length (cs ''pw'' @ replicate 300 NUL)"
    "MESSAGE_BUFFERSIZE \<le> length (replicate 300 CHR ''d'' @ [NUL])"
    by (simp_all add: MESSAGE_BUFFERSIZE_def)
  from server_starts [OF w(1) l(1) d l(2) n _ _ _ _ _ w(2), of ?st] show ?thesis
    by (auto simp: MESSAGE_BUFFERSIZE_def)
qed

end
