(* ===== verification/System.thy ===== *)
theory System
  imports Client Daemon_Example Server_Example
begin

text \<open>
  Client, daemon and server together: three runs, each with its own state, tied by the connections
  between them.  What one program sent on its end of a connection is what the other finds on its
  own; nothing is said about which bytes those are.
\<close>

section \<open>Connections\<close>

definition wired :: "fd \<Rightarrow> 'y net_scheme \<Rightarrow> 'y net_scheme \<Rightarrow> fd \<Rightarrow> 'z net_scheme \<Rightarrow> bool" where
  "wired s u u' t v \<longleftrightarrow> tx u' s = tx u s @ avail t v"

text \<open>The connection of the client with the daemon (both ways), and the daemon's two connections with
  the server's thread; on the data connection the server may still have to skip \<open>junk\<close>.\<close>

definition connected_system ::
  "fd \<Rightarrow> client \<Rightarrow> client \<Rightarrow> fd \<Rightarrow> fd \<Rightarrow> fd \<Rightarrow> daemon \<Rightarrow> daemon \<Rightarrow> fd \<Rightarrow> fd \<Rightarrow> byte list \<Rightarrow> server \<Rightarrow> server \<Rightarrow> bool" where
  "connected_system sock c c' cl cm dt w w' scm sdt junk v v' \<longleftrightarrow>
     wired sock c c' cl w \<and> wired cl w w' sock c \<and> wired cm w w' scm v \<and> wired scm v v' cm w \<and>
     (\<exists>new. avail sdt v = junk @ new \<and> tx w' dt = tx w dt @ new) \<and>
     discard (d_attrs w) = of_nat (length junk) \<and> length junk < 2 ^ 64"

section \<open>One request\<close>

text \<open>Whatever the answers will be, the daemon gets the client's request and puts header, path and
  data on its two connections.\<close>

lemma daemon_gets_request:
  assumes "calls sock argv1 argv2 argv3 s d c" and "length buf = MAX_FILE_ATTRS_LEN"
    and "wired sock c (snd (cli_main argv1 argv2 argv3 buf f0 m0 c)) cl w" and "idle_for cm dt cl s d nd w"
  shows "ready_for cm dt cl s d nd w"
proof -
  have "avail cl w = request_bytes s d"
    using assms(3) cli_main_tx [OF assms(1,2), of f0 m0] by (simp add: wired_def)
  then show ?thesis using assms(4) by (simp add: ready_for_def)
qed

lemma round_transmits:
  assumes r: "ready_for cm dt cl s d nd w" and run: "dmn_round a st0 w = (rd, w')"
  shows "\<exists>cm_more dt_more. tx w' cm = tx w cm @ enc_transfer (announced nd d (discard (d_attrs w))) @ cm_more \<and>
    tx w' dt = tx w dt @ d @ NUL # node_bytes nd @ dt_more"
proof -
  obtain u where u: "dmn_round a st0 w = (case await_answer u of (Throw x, v) \<Rightarrow> run_handlers a x v | r \<Rightarrow> r)"
    "tx u = (tx w)(cm := tx w cm @ enc_transfer (announced nd d (discard (d_attrs w))), dt := tx w dt @ d @ [NUL] @ node_bytes nd)"
    using round_sends [OF r, of a st0] by blast
  obtain x v where x: "await_answer u = (x, v)" by fastforce
  have "grows u v" using calmD [OF calm_await_answer x] by blast
  moreover have "grows v w'"
    using u(1) run x calmD [OF calm_run_handlers, of a _ v rd w'] by (cases x) auto
  ultimately have "prefix (tx u cm) (tx w' cm)" "prefix (tx u dt) (tx w' dt)"
    using grows_trans [of u v w'] by (simp_all add: grows_def)
  moreover have "cm \<noteq> dt" using r by (auto simp: ready_for_def idle_for_def working_def)
  ultimately show ?thesis using u(2) by (auto simp: prefix_def)
qed

text \<open>What the server's thread finds.\<close>

lemma server_gets_transfer:
  assumes r: "ready_for cm dt cl s d nd w" and run: "dmn_round a st0 w = (rd, w')"
    and sys: "connected_system sock c c' cl cm dt w w' scm sdt junk v v'"
  shows "\<exists>crest drest. transfer_in scm sdt nd junk d crest drest v"
proof -
  obtain x y where "tx w' cm = tx w cm @ enc_transfer (announced nd d (discard (d_attrs w))) @ x"
    "tx w' dt = tx w dt @ d @ NUL # node_bytes nd @ y" using round_transmits [OF r run] by blast
  then have "transfer_in scm sdt nd junk d x y v"
    using sys r by (auto simp: transfer_in_def connected_system_def wired_def ready_for_def idle_for_def)
  then show ?thesis by blast
qed

section \<open>What the three programs make of it\<close>

text \<open>A daemon and a client whose buffers for messages hold strings.\<close>

definition listening :: "daemon \<Rightarrow> bool" where
  "listening w \<longleftrightarrow> (\<exists>m. c_str (d_message w) = Some m \<and> length m \<le> 252)"

lemma request_served:
  assumes c: "calls sock argv1 argv2 argv3 s d c" and len: "length buf = MAX_FILE_ATTRS_LEN" "length m0 = MESSAGE_BUFFERSIZE"
    and w: "idle_for cm dt cl s d nd w" "listening w"
    and v: "connected client scm sdt v" "locals_ok l" "permissive v" "target d full v" "\<not> strstr full ''../''"
    and runs: "cli_main argv1 argv2 argv3 buf f0 m0 c = (rc, c')" "dmn_round a st0 w = (rd, w')" "thr_iteration client l v = (rs, v')"
    and sys: "connected_system sock c c' cl cm dt w w' scm sdt junk v v'"
  shows "fs v' = (fs v)(full \<mapsto> nd)" and "\<exists>l'. rs = Ret (True, l')" and "rd = Ret ()" and "rc = Exit EXIT_SUCCESS"
proof -
  have r: "ready_for cm dt cl s d nd w"
    using daemon_gets_request [OF c len(1), of f0 m0 cl w cm dt nd] w(1) sys runs(1) by (simp add: connected_system_def)
  obtain x y where tr: "transfer_in scm sdt nd junk d x y v" using server_gets_transfer [OF r runs(2) sys] by blast
  obtain l' u where u: "thr_iteration client l v = (Ret (True, l'), u)" "fs u = (fs v)(full \<mapsto> nd)"
    "tx u = (tx v)(scm := tx v scm @ enc_message (as_char ACK_OK, []))"
    using serve_node_step [OF v(1,2) tr v(4,5,3)] by (auto simp: round_done_def text_body_def)
  then show "fs v' = (fs v)(full \<mapsto> nd)" "\<exists>l'. rs = Ret (True, l')" using runs(3) by auto
  have av: "avail cm w = enc_message (as_char ACK_OK, [])" using u runs(3) sys by (simp add: connected_system_def wired_def)
  then have rep: "dec_message (avail cm w) = Some ((as_char ACK_OK, []), [])"
    using messages.dec_enc [of "(as_char ACK_OK, [])" "[]"] by (simp add: valid_message_def)
  obtain m where m: "c_str (d_message w) = Some m" "length m \<le> 252" using w(2) by (auto simp: listening_def)
  have ne: "cl \<noteq> cm" "cl \<noteq> dt" using w(1) by (auto simp: idle_for_def working_def)
  obtain w2 where w2: "dmn_round a st0 w = (Ret (), w2)"
    "tx w2 cl = tx w cl @ enc_message (as_char ACK_OK, text_body m)"
    using round_acknowledged [OF r rep m, of a st0] ne by auto
  then show "rd = Ret ()" using runs(2) by simp
  have "avail sock c = enc_message (as_char ACK_OK, text_body m)" using w2 runs(2) sys by (simp add: connected_system_def wired_def)
  then have "dec_message (avail sock c) = Some ((as_char ACK_OK, text_body m), [])"
    using messages.dec_enc [of "(as_char ACK_OK, text_body m)" "[]"] m(2) by (simp add: valid_message_def text_body_def)
  from cli_main_answered [OF c len(1) this c_str_no_NUL [OF m(1)] len(2), of f0] show "rc = Exit EXIT_SUCCESS"
    using runs(1) by auto
qed

lemma request_refused:
  assumes c: "calls sock argv1 argv2 argv3 s d c" and len: "length buf = MAX_FILE_ATTRS_LEN" "length m0 = MESSAGE_BUFFERSIZE"
    and w: "idle_for cm dt cl s d nd w" "listening w"
    and v: "connected client scm sdt v" "locals_ok l" "refuses (node_command nd) e v v1" "target d full v" "\<not> strstr full ''../''"
    and msg: "errtext v e \<noteq> []" "NUL \<notin> set (errtext v e)" "length (errtext v e) \<le> 252"
    and runs: "cli_main argv1 argv2 argv3 buf f0 m0 c = (rc, c')" "dmn_round a st0 w = (rd, w')" "thr_iteration client l v = (rs, v')"
    and sys: "connected_system sock c c' cl cm dt w w' scm sdt junk v v'"
  shows "fs v' = fs v" and "\<exists>l'. rs = Ret (True, l')" and "rd = Ret ()" and "rc = Exit EXIT_FAILURE"
    and "printed c' = printed c @ errtext v e @ [CHR 0x0A]" and "discard (d_attrs w') = of_nat (length (node_bytes nd))"
proof -
  let ?t = "errtext v e"
  have r: "ready_for cm dt cl s d nd w"
    using daemon_gets_request [OF c len(1), of f0 m0 cl w cm dt nd] w(1) sys runs(1) by (simp add: connected_system_def)
  obtain x y where tr: "transfer_in scm sdt nd junk d x y v" using server_gets_transfer [OF r runs(2) sys] by blast
  then have inc: "incoming scm sdt (node_command nd) junk d (of_nat (length (node_bytes nd))) x (node_bytes nd @ y) v"
    by (simp add: transfer_in_def incoming_def announced_def)
  obtain l' u where u: "thr_iteration client l v = (Ret (True, l'), u)" "fs u = fs v"
    "tx u = (tx v)(scm := tx v scm @ enc_message (as_char ACK_ERROR, text_body ?t))"
    using serve_refused_step [OF v(1,2) inc v(4,5,3) msg(2,3)] by (auto simp: round_done_def)
  then show "fs v' = fs v" "\<exists>l'. rs = Ret (True, l')" using runs(3) by auto
  have dec: "dec_message (enc_message (as_char ACK_ERROR, text_body ?t)) = Some ((as_char ACK_ERROR, text_body ?t), [])"
    using messages.dec_enc [of "(as_char ACK_ERROR, text_body ?t)" "[]"] msg by (simp add: valid_message_def text_body_def)
  have "avail cm w = enc_message (as_char ACK_ERROR, text_body ?t)" using u runs(3) sys by (simp add: connected_system_def wired_def)
  then have rep: "dec_message (avail cm w) = Some ((as_char ACK_ERROR, text_body ?t), [])" using dec by simp
  have ne: "cl \<noteq> cm" "cl \<noteq> dt" "length (d_message w) = MESSAGE_BUFFERSIZE" using w(1) by (auto simp: idle_for_def working_def)
  obtain w2 where w2: "dmn_round a st0 w = (Ret (), w2)" "discard (d_attrs w2) = of_nat (length (node_bytes nd))"
    "tx w2 cl = tx w cl @ enc_message (as_char ACK_ERROR, text_body ?t)"
    using round_refused [OF r rep msg ne(3), of a st0] ne by auto
  then show "rd = Ret ()" "discard (d_attrs w') = of_nat (length (node_bytes nd))" using runs(2) by simp_all
  have "avail sock c = enc_message (as_char ACK_ERROR, text_body ?t)" using w2 runs(2) sys by (simp add: connected_system_def wired_def)
  then have "dec_message (avail sock c) = Some ((as_char ACK_ERROR, text_body ?t), [])" using dec by simp
  from cli_main_answered [OF c len(1) this msg(2) len(2), of f0]
  show "rc = Exit EXIT_FAILURE" "printed c' = printed c @ ?t @ [CHR 0x0A]"
    using runs(1) msg(1) by (auto simp: answer_flags)
qed

end
