(* ===== verification/System_Example.thy ===== *)
theory System_Example
  imports System
begin

text \<open>
  The three example programs wired together: the client asks for \<^verbatim>\<open>/a\<close>, which holds \<^verbatim>\<open>hi\<close>, to be
  stored at \<^verbatim>\<open>b\<close>; once the server does so, once its disk is full.
\<close>

definition caller :: "byte list \<Rightarrow> client" where
  "caller reply = \<lparr>rx = (\<lambda>_. [])(20 := [Seg reply]), tx = \<lambda>_. [], snd_evs = [], sel_evs = [], closed = [], errno = 0,
     sigpipe_ignored = False, socket_evs = [20], connect_evs = [], fcntl_evs = [], printed = [], reported = []\<rparr>"

definition caller_run :: "byte list \<Rightarrow> unit result \<times> client" where
  "caller_run reply = cli_main (cs ''host'') (cs ''/a'') (cs ''b'') (replicate MAX_FILE_ATTRS_LEN NUL) NUL message0 (caller reply)"

definition daemon_run :: "byte list \<Rightarrow> unit result \<times> daemon" where
  "daemon_run answer = dmn_round [] (False, 0) (daemon_rx answer (request_bytes ''/a'' ''b''))"

definition storing :: "int option list \<Rightarrow> server" where
  "storing evs = (server_rx [Seg (enc_transfer (announced (File ''hi'') ''b'' 0))] [Seg (''b'' @ NUL # ''hi'')])\<lparr>fopen_evs := evs\<rparr>"

definition server_run :: "int option list \<Rightarrow> (bool \<times> thr_locals) result \<times> server" where
  "server_run evs = thr_iteration 7 locals0 (storing evs)"

lemma caller_calls [simp]: "calls 20 (cs ''host'') (cs ''/a'') (cs ''b'') ''/a'' ''b'' (caller reply)"
  by (simp add: calls_def caller_def SOCKET_ADDRESS_def SUN_PATH_def PATH_MAX_def)

lemma caller_sends: "tx (snd (caller_run reply)) = (\<lambda>_. [])(20 := request_bytes ''/a'' ''b'')"
  using cli_main_tx [OF caller_calls, of "replicate MAX_FILE_ATTRS_LEN NUL" NUL message0 reply]
  by (simp add: caller_run_def) (simp add: caller_def)

lemma request_ready: "ready_for 3 4 6 ''/a'' ''b'' (File ''hi'') (daemon_rx p (request_bytes ''/a'' ''b''))"
  by (rule daemon_rx_ready) (simp_all add: files0_def)

lemma daemon_idle [simp]:
  "idle_for 3 4 6 ''/a'' ''b'' (File ''hi'') (daemon_rx p (request_bytes ''/a'' ''b''))"
  "listening (daemon_rx p q)"
  using request_ready [of p] by (simp_all add: ready_for_def listening_def)

lemma storing_ready [simp]:
  "connected 7 3 4 (storing evs)" "target ''b'' ''/srv/b'' (storing evs)" "evs = [] \<Longrightarrow> permissive (storing evs)"
  "avail 3 (storing evs) = enc_transfer (announced (File ''hi'') ''b'' 0)" "avail 4 (storing evs) = ''b'' @ NUL # ''hi''"
  "tx (storing evs) = (\<lambda>_. [])" "fs (storing evs) = (\<lambda>_. None)" "errtext (storing evs) = (\<lambda>_. ''no space'')"
proof -
  have p: "prefix_of (storing evs) = Some ''/srv/''" by (simp add: prefix_of_def storing_def server_rx_def server0_def)
  show "target ''b'' ''/srv/b'' (storing evs)" by (simp add: target_def p PATH_MAX_def)
qed (simp_all add: connected_def permissive_def storing_def server_rx_def server0_def avail_def)

lemma storing_transfer: "transfer_in 3 4 (File ''hi'') [] ''b'' [] [] (storing evs)"
  by (simp add: transfer_in_def announced_def valid_small_transfer)

section \<open>Stored\<close>

abbreviation "acknowledged \<equiv> enc_message (as_char ACK_OK, [])"

lemma daemon_run_ok:
  "tx (snd (daemon_run acknowledged)) = (\<lambda>_. [])(3 := enc_transfer (announced (File ''hi'') ''b'' 0),
     4 := ''b'' @ NUL # ''hi'', 6 := acknowledged)"
proof -
  have "dec_message acknowledged = Some ((as_char ACK_OK, []), [])"
    using messages.dec_enc [of "(as_char ACK_OK, [])" "[]"] by (simp add: valid_message_def)
  then show ?thesis
    using round_acknowledged [OF request_ready, of acknowledged "[]" "[]" "[]" "(False, 0)"]
    by (auto simp: daemon_run_def text_body_def)
qed

lemma server_run_ok: "tx (snd (server_run [])) = (\<lambda>_. [])(3 := acknowledged)"
  using serve_node_step [OF storing_ready(1) _ storing_transfer storing_ready(2), of locals0 "[]"]
  by (auto simp: server_run_def round_done_def text_body_def locals_ok_def locals0_def)

lemma system_ok:
  "connected_system 20 (caller acknowledged) (snd (caller_run acknowledged)) 6 3 4
     (daemon_rx acknowledged (request_bytes ''/a'' ''b'')) (snd (daemon_run acknowledged)) 3 4 []
     (storing []) (snd (server_run []))"
  by (simp add: connected_system_def wired_def caller_sends daemon_run_ok server_run_ok)
    (simp add: caller_def avail_def)

section \<open>Refused\<close>

abbreviation "refused \<equiv> enc_message (as_char ACK_ERROR, text_body ''no space'')"

lemma daemon_run_refused:
  "tx (snd (daemon_run refused)) = (\<lambda>_. [])(3 := enc_transfer (announced (File ''hi'') ''b'' 0),
     4 := ''b'' @ NUL # ''hi'', 6 := refused)"
proof -
  have "dec_message refused = Some ((as_char ACK_ERROR, text_body ''no space''), [])"
    using messages.dec_enc [of "(as_char ACK_ERROR, text_body ''no space'')" "[]"] by (simp add: valid_message_def text_body_def)
  then show ?thesis
    using round_refused [OF request_ready, of refused "''no space''" "[]" "[]" "(False, 0)"]
    by (auto simp: daemon_run_def)
qed

lemma storing_refuses: "refuses (node_command (File ''hi'')) 28 (storing [Some 28]) ((storing [])\<lparr>errno := 28\<rparr>)"
  by (simp add: refuses_def storing_def)

lemma server_run_refused: "tx (snd (server_run [Some 28])) = (\<lambda>_. [])(3 := refused)"
proof -
  have "incoming 3 4 (node_command (File ''hi'')) [] ''b'' 2 [] ''hi'' (storing [Some 28])"
    using storing_transfer [of "[Some 28]"] by (simp add: incoming_def transfer_in_def announced_def)
  from serve_refused_step [OF storing_ready(1) _ this storing_ready(2) _ storing_refuses, of locals0]
  show ?thesis by (auto simp: server_run_def round_done_def locals_ok_def locals0_def)
qed

lemma system_refused:
  "connected_system 20 (caller refused) (snd (caller_run refused)) 6 3 4
     (daemon_rx refused (request_bytes ''/a'' ''b'')) (snd (daemon_run refused)) 3 4 []
     (storing [Some 28]) (snd (server_run [Some 28]))"
  by (simp add: connected_system_def wired_def caller_sends daemon_run_refused server_run_refused)
    (simp add: caller_def avail_def)

end
