(* ===== verification/Server_Calm.thy ===== *)
theory Server_Calm
  imports Calm Server_Session
begin

text \<open>
  A client thread of the server is calm: what it has sent to its daemon stays sent, whatever
  happens later on the connection.
\<close>

lemma calm_files [calm_intros]:
  "calm (client_at a)" "calm (update_client a f)" "calm (print_log_message ip m path e)" "calm strerror"
  "calm (os_fopen_wb p)" "calm (os_mkdir p)" "calm (os_fwrite bs p)"
  by (auto simp: calm_def grows_def client_at_def orUb_def update_client_def print_log_message_def strerror_def
      os_fopen_wb_def os_mkdir_def os_fwrite_def split: list.splits option.splits)

lemma calm_dealloc [calm_intros]: "calm (dealloc client)"
  unfolding dealloc_def by (intro calm_intros; simp)

lemma calm_exit [calm_intros]: "calm (disconnected client)" "calm (unknown_protocol client)"
  unfolding disconnected_def unknown_protocol_def by (intro calm_intros)+

lemma calm_srv_wrappers [calm_intros]:
  "calm (srv_recv_bytes_wrapper buf off s n client)" "calm (srv_send_message_wrapper s f m client)"
  unfolding srv_recv_bytes_wrapper_def srv_send_message_wrapper_def by (intro calm_intros)+

lemma calm_thread_parts [calm_intros]:
  "calm (bad_path client p)" "calm (fwrite_failed client)" "calm (ack_error client)" "calm (ack_ok client)"
  "calm (discard_block n buf client)"
  unfolding bad_path_def fwrite_failed_def ack_error_def ack_ok_def discard_block_def by (intro calm_intros)+

lemma calm_write_block [calm_intros]: "calm (write_block n buf file client)"
  unfolding write_block_def by (intro calm_intros)

lemma calm_blocks [calm_intros]: "calm (write_blocks i buf file client)" "calm (discard_blocks i buf client)"
  by (induction i arbitrary: buf) (simp_all only: write_blocks.simps discard_blocks.simps calm_basic calm_bindM
      calm_write_block calm_thread_parts)

lemma calm_data [calm_intros]: "calm (write_data buf da file client)" "calm (discard_data da client buf)"
  unfolding write_data_def discard_data_def Let_def by (intro calm_intros)+

lemma calm_srv_load_path_wrapper [calm_intros]: "calm (srv_load_path_wrapper n client)"
  unfolding srv_load_path_wrapper_def by (intro calm_intros)

lemma calm_thr_iteration: "calm (thr_iteration client l)"
proof -
  have "calm (thr_command client da buf)" for da buf unfolding thr_command_def by (intro calm_intros)
  then show ?thesis
    unfolding thr_iteration_def load_dest_file_attrs_def parse_dest_file_attrs_def Let_def by (intro calm_intros)
qed

lemma calm_thr_loop: "calm (thr_loop client l)"
proof (rule calmI)
  fix w r w'
  show "thr_loop client l w = (r, w') \<Longrightarrow> grows w w' \<and> (sigpipe_ignored w \<longrightarrow> r \<noteq> Killed)"
  proof (induction client l w arbitrary: r w' rule: thr_loop.induct)
    case (1 client l w)
    obtain x v where x: "thr_iteration client l w = (x, v)" by fastforce
    have c: "grows w v \<and> (sigpipe_ignored w \<longrightarrow> x \<noteq> Killed)" using calmD [OF calm_thr_iteration x] .
    show ?case
    proof (cases "\<exists>l'. x = Ret (True, l')")
      case True
      then obtain l' where l': "x = Ret (True, l')" by blast
      then have "thr_loop client l' v = (r, w')" using x "1.prems" by (simp add: thr_loop.simps [of client l])
      from "1.IH" [OF x [symmetric] l' refl TrueI this] show ?thesis using c calm_step [of w v w' r] by blast
    next
      case False
      then show ?thesis using x "1.prems" c
        by (cases x) (auto simp: thr_loop.simps [of client l] split: if_splits prod.splits)
    qed
  qed
qed

end
