(* ===== verification/Daemon_Invariant.thy ===== *)
theory Daemon_Invariant
  imports Daemon_Start
begin

text \<open>
  The arrays of the daemon keep the sizes they are declared with, whatever the daemon does and
  however it ends; and only reconnecting changes its two sockets to the server, which are open
  whenever its loop goes round.
\<close>

definition arrays :: "daemon \<Rightarrow> bool" where
  "arrays w \<longleftrightarrow>
     length (d_data w) = BUFFERSIZE \<and> length (d_message w) = MESSAGE_BUFFERSIZE \<and>
     length (d_password w) = MESSAGE_BUFFERSIZE \<and> length (d_token w) = MESSAGE_BUFFERSIZE \<and>
     length (d_header w) = MAX_HEADER_LEN \<and> length (d_request_buffer w) = MAX_FILE_ATTRS_LEN \<and>
     length (fa_source (d_request w)) = PATH_MAX \<and> length (fa_destination (d_request w)) = PATH_MAX"

definition held :: "(fd \<times> fd) option \<Rightarrow> daemon \<Rightarrow> bool" where
  "held q w \<longleftrightarrow> arrays w \<and> (\<forall>s s'. q = Some (s, s') \<longrightarrow> d_command_socket w = s \<and> d_data_socket w = s')"

lemma held_update [simp]:
  "held q (w\<lparr>rx := x1\<rparr>) = held q w" "held q (w\<lparr>tx := x2\<rparr>) = held q w"
  "held q (w\<lparr>snd_evs := x3\<rparr>) = held q w" "held q (w\<lparr>errno := x4\<rparr>) = held q w"
  "held q (w\<lparr>closed := x5\<rparr>) = held q w" "held q (w\<lparr>sel_evs := x6\<rparr>) = held q w"
  "held q (w\<lparr>socket_evs := x7\<rparr>) = held q w" "held q (w\<lparr>connect_evs := x8\<rparr>) = held q w"
  "held q (w\<lparr>fcntl_evs := x9\<rparr>) = held q w" "held q (w\<lparr>d_logfile := y1\<rparr>) = held q w"
  "held None (w\<lparr>d_command_socket := y2\<rparr>) = held None w" "held None (w\<lparr>d_data_socket := y3\<rparr>) = held None w"
  "held q (w\<lparr>d_server_socket := y4\<rparr>) = held q w" "held q (w\<lparr>d_client_socket := y5\<rparr>) = held q w"
  "held q (w\<lparr>d_file := y6\<rparr>) = held q w" "held q (w\<lparr>d_attrs := y7\<rparr>) = held q w"
  "held q (w\<lparr>d_resend := y8\<rparr>) = held q w" "held q (w\<lparr>d_flag := y9\<rparr>) = held q w"
  "held q (w\<lparr>d_accepts := z1\<rparr>) = held q w" "held q (w\<lparr>d_resolves := z2\<rparr>) = held q w"
  "held q (w\<lparr>d_fopen_evs := z3\<rparr>) = held q w" "held q (w\<lparr>d_fread_evs := z4\<rparr>) = held q w"
  "held q (w\<lparr>sigpipe_ignored := z5\<rparr>) = held q w"
  by (simp_all add: held_def arrays_def)

section \<open>Kept by the calls and the library\<close>

lemma keeps_held_calls [keeps_intros]:
  "keeps (held q) (d_log t)" "keeps (held q) d_strerror" "keeps (held q) (d_log_error t)" "keeps (held q) d_fclose"
  "keeps (held q) os_gethostbyname" "keeps (held q) (os_stat64 p)" "keeps (held q) (os_fopen_rb p)"
  "keeps (held q) os_accept_client" "keeps (held q) (os_close s)" "keeps (held q) os_socket" "keeps (held q) (os_connect s)"
  "keeps (held q) (os_set_nonblock s)" "keeps (held q) os_select"
proof -
  show log: "keeps (held q) (d_log t)" for t by (simp add: d_log_def keeps_def)
  show str: "keeps (held q) d_strerror" unfolding d_strerror_def by (rule keeps_basic)
  show "keeps (held q) (d_log_error t)" unfolding d_log_error_def by (intro keeps_intros log str)
qed (auto simp: keeps_def d_fclose_def os_gethostbyname_def os_stat64_def os_fopen_rb_def os_accept_client_def os_close_def
    os_socket_def os_connect_def os_set_nonblock_def os_select_def split: list.splits option.splits handle.splits)

lemma keeps_held_net [keeps_intros]:
  "keeps (held q) (os_send s bs)" "keeps (held q) (recv_bytes buf off s n)" "keeps (held q) (send_message s f m)"
  "keeps (held q) (receive_message s f m)"
proof -
  show "keeps (held q) (os_send s bs)"
    by (auto simp: keeps_def os_send_def split: list.splits snd_ev.splits)
  show "keeps (held q) (recv_bytes buf off s n)"
    by (rule keepsI) (use recv_bytes_frame in \<open>metis held_update(1) prod.collapse\<close>)
  show "keeps (held q) (send_message s f m)"
    by (rule keepsI) (use send_message_frame in \<open>metis held_update(2-4) prod.collapse\<close>)
  show "keeps (held q) (receive_message s f m)"
    by (rule keepsI) (use receive_message_frame in \<open>metis held_update(1) prod.collapse\<close>)
qed

lemma keeps_held_send_message_wrapper [keeps_intros]: "keeps (held q) (send_message_wrapper s f m)"
  unfolding send_message_wrapper_def by (intro keeps_intros)

lemma keeps_send_loop:
  assumes sel: "keeps P os_select" and snd: "\<And>bs. keeps P (os_send s bs)"
  shows "P w \<Longrightarrow> send_loop buf off s bytes k w = (r, w') \<Longrightarrow> P w'"
proof (induction "length (sel_evs w)" arbitrary: k w r w' rule: less_induct)
  case less
  show ?case
  proof (cases "k < bytes \<and> sel_evs w \<noteq> []")
    case False
    then show ?thesis using less.prems
      by (auto simp: send_loop.simps [of buf off] os_select_def split: if_splits)
  next
    case True
    then obtain e es where lt: "k < bytes" and ev: "sel_evs w = e # es" by (cases "sel_evs w") auto
    let ?w1 = "w\<lparr>sel_evs := es\<rparr>"
    have run: "os_select w = (Ret e, ?w1)" using ev by (simp add: os_select_def)
    have 1: "P ?w1" using keepsD [OF sel less.prems(1) run] .
    have again: "P w'" if "P v" "sel_evs v = es" "send_loop buf off s bytes k' v = (r, w')" for v k'
      using less.hyps [OF _ that(1,3)] that(2) ev by simp
    show ?thesis
    proof (cases "buf_read buf (off + unat k) (unat (bytes - k))")
      case None
      then show ?thesis using less.prems(2) run lt 1 again [OF 1]
        by (auto simp: send_loop.simps [of buf off s bytes k w] split: if_splits)
    next
      case (Some rest)
      obtain x v where x: "os_send s rest ?w1 = (x, v)" by fastforce
      have v: "P v" "sel_evs v = es" using keepsD [OF snd 1 x] os_send_sel_evs [OF x] by simp_all
      show ?thesis using less.prems(2) run lt 1 again [OF 1] again [OF v] v(1) Some x
        by (cases x) (auto simp: send_loop.simps [of buf off s bytes k w] Let_def split: if_splits)
    qed
  qed
qed

lemma keeps_held_send_bytes [keeps_intros]: "keeps (held q) (send_bytes buf off s n)"
proof (rule keepsI)
  fix w :: daemon assume w: "held q w"
  obtain r w' where run: "send_bytes buf off s n w = (r, w')" by fastforce
  show "held q (snd (send_bytes buf off s n w))"
    using keeps_send_loop [of "held q", OF _ _ w run [unfolded send_bytes_def]] run by (simp add: keeps_intros)
qed

lemma keeps_held_send_path_wrapper [keeps_intros]: "keeps (held q) (send_path_wrapper p s n)"
proof -
  have "keeps (held q) (send_path_blocks p s i k)" for i k
    by (induction k arbitrary: i) (auto intro!: keeps_intros)
  then show ?thesis unfolding send_path_wrapper_def send_path_def Let_def by (intro keeps_intros)
qed

section \<open>Kept by what fills the arrays\<close>

lemma receive_message_length: "ensures (held q) (\<lambda>(e, f, m'). length m' = length m) (receive_message s f m)"
  by (auto simp: ensures_def keeps_intros dest: receive_message_ret)

lemma recv_bytes_length: "ensures (held q) (\<lambda>(e, b). length b = length buf) (recv_bytes buf off s n)"
  by (auto simp: ensures_def keeps_intros dest: recv_bytes_ret)

lemma load_path_length: "ensures (held q) (\<lambda>(e, b). length b = length path) (load_path n s path off)"
  using recv_bytes_length [of q path off s "word_of_int n"]
  by (auto simp: ensures_def load_path_def keeps_intros)

lemma keeps_held_message: "length m = MESSAGE_BUFFERSIZE \<Longrightarrow> keeps (held q) (modifyM (\<lambda>w. w\<lparr>d_message := m\<rparr>))"
  by (simp add: keeps_def held_def arrays_def)

text \<open>A message received into \<open>main\<close>'s array.\<close>

lemma keeps_held_receive:
  assumes "\<And>e f. keeps (held q) (k e f)"
  shows "keeps (held q) (bindM (getM d_message) (\<lambda>message. bindM (receive_message s f0 message) (\<lambda>(e, f, message).
    bindM (modifyM (\<lambda>w. w\<lparr>d_message := message\<rparr>)) (\<lambda>_. k e f))))"
proof (intro keeps_getM_bindM keeps_ensures_bindM [OF receive_message_length])
  fix w and a :: "int \<times> byte \<times> byte list" assume "held q w" and "case a of (e, f, m') \<Rightarrow> length m' = length (d_message w)"
  then obtain e f m where a: "a = (e, f, m)" "length m = MESSAGE_BUFFERSIZE" by (cases a) (auto simp: held_def arrays_def)
  have "keeps (held q) (bindM (modifyM (\<lambda>w. w\<lparr>d_message := m\<rparr>)) (\<lambda>_. k e f))"
    using keeps_held_message [OF a(2)] assms by (rule keeps_bindM)
  then show "keeps (held q) (case a of (e, f, m) \<Rightarrow> bindM (modifyM (\<lambda>w. w\<lparr>d_message := m\<rparr>)) (\<lambda>_. k e f))"
    by (simp add: a)
qed

lemma keeps_held_receive_message_wrapper [keeps_intros]: "keeps (held q) (receive_message_wrapper s f)"
  unfolding receive_message_wrapper_def by (intro keeps_held_receive keeps_intros)

lemma keeps_held_load_path_wrapper:
  assumes "\<And>p w. length p = length path \<Longrightarrow> held q w \<Longrightarrow> held q (put p w)"
  shows "keeps (held q) (load_path_wrapper n s path put)"
  unfolding load_path_wrapper_def
proof (rule keeps_ensures_bindM [OF load_path_length])
  fix a :: "int \<times> byte list" assume "case a of (e, b) \<Rightarrow> length b = length path"
  then obtain e b where a: "a = (e, b)" "length b = length path" by (cases a) auto
  show "keeps (held q) (case a of (error, path) \<Rightarrow> bindM (modifyM (put path)) (\<lambda>_.
       if error \<noteq> EXIT_SUCCESS then
         if error = SOCKET_CLOSED then failM (Throw FORCED_SOCKET_CLOSED) else failM (Throw error)
       else retM ()))"
    unfolding a(1) prod.case by (intro keeps_intros assms a(2))
qed

lemma fread_wrapper_length: "ensures (held q) (\<lambda>b. length b = length buf) (fread_wrapper buf n)"
proof -
  have "ensures (held q) (\<lambda>(e, b). length b = length buf) (os_fread buf n)"
    by (auto simp: ensures_def keeps_def os_fread_def dest: buf_write_length split: handle.splits list.splits option.splits)
  moreover have "keeps (held q) (bindM d_fclose (\<lambda>_. bindM (d_log_error ''fread'') (\<lambda>_. failM (Throw FILE_ERROR))) :: byte list dmn)"
    by (intro keeps_intros)
  ultimately show ?thesis
    unfolding fread_wrapper_def
    by (elim ensures_bindM) (auto simp: ensures_def keeps_basic bindM_eq_Ret split: prod.splits)
qed

section \<open>Connecting\<close>

lemma keeps_held_connect_both [keeps_intros]: "keeps (held None) connect_both"
proof -
  have "keeps (held None) client_connect" unfolding client_connect_def by (intro keeps_intros)
  then show ?thesis unfolding connect_both_def by (intro keeps_bindM keeps_modifyM; simp)
qed

lemma keeps_held_dmn_authenticate [keeps_intros]: "keeps (held q) dmn_authenticate"
  unfolding dmn_authenticate_def by (intro keeps_intros)

lemma keeps_held_reconnect_loop [keeps_intros]: "keeps (held None) (reconnect_loop a)"
proof (rule keepsI)
  have retry: "keeps (held None) (retry a)" for a unfolding retry_def by (intro keeps_intros)
  fix w assume "held None w"
  then show "held None (snd (reconnect_loop a w))"
  proof (induction a w rule: reconnect_loop.induct)
    case (1 a w)
    obtain x v where x: "retry a w = (x, v)" by fastforce
    show ?case
      using 1 x keepsD [OF retry _ x] by (cases x) (auto simp: reconnect_loop.simps [of a w])
  qed
qed

lemma keeps_held_dmn_dealloc [keeps_intros]: "keeps (held q) dmn_dealloc"
  unfolding dmn_dealloc_def by (intro keeps_intros)

lemma keeps_held_catch: "keeps (held None) (catch a x)"
proof -
  have "keeps (held None) (restart_connection a)" unfolding restart_connection_def by (intro keeps_intros)
  moreover have "keeps (held None) close_client" unfolding close_client_def by (intro keeps_intros)
  ultimately show ?thesis
    unfolding catch_def by (intro keeps_if keeps_bindM keeps_whenM keeps_modifyM) (simp_all add: keeps_intros)
qed

lemma keeps_held_run_handlers: "keeps (held None) (run_handlers a x)"
proof (rule keepsI)
  fix w assume "held None w"
  then show "held None (snd (run_handlers a x w))"
  proof (induction a x w rule: run_handlers.induct)
    case (1 a x w)
    obtain y v where y: "catch a x w = (y, v)" by fastforce
    show ?case
      using 1 y keepsD [OF keeps_held_catch _ y] by (cases y) (auto simp: run_handlers.simps [of a x w])
  qed
qed

section \<open>A request\<close>

lemma keeps_held_scm_loop: "held q w \<Longrightarrow> scm_loop buf ws ss cl bytes flag k w = (r, w') \<Longrightarrow> held q w'"
proof (induction "length (sel_evs w)" arbitrary: k w r w' rule: less_induct)
  case less
  show ?case
  proof (cases "k < bytes \<and> sel_evs w \<noteq> []")
    case False
    then show ?thesis using less.prems by (auto simp: scm_loop.simps [of buf] os_select_def split: if_splits)
  next
    case True
    then obtain e es where lt: "k < bytes" and ev: "sel_evs w = e # es" by (cases "sel_evs w") auto
    let ?w1 = "w\<lparr>sel_evs := es\<rparr>"
    have sel: "os_select w = (Ret e, ?w1)" using ev by (simp add: os_select_def)
    have w1: "held q ?w1" using less.prems(1) by simp
    have again: "held q w'" if "scm_loop buf ws ss cl bytes flag k' v = (r, w')" "held q v" "sel_evs v = es" for k' v
      using less.hyps [OF _ that(2,1)] that(3) ev by simp
    have last: "held q w'" if "keeps (held q) m" "m v = (r, w')" "held q v" for m :: "(byte \<times> u64) dmn" and v
      using keepsD [OF that(1,3,2)] .
    show ?thesis
    proof (cases "sel_write e")
      case False
      have "keeps (held q) (bindM (getM d_message) (\<lambda>message.
          bindM (receive_message cl flag message) (\<lambda>(q, flag, message).
          bindM (modifyM (\<lambda>w. w\<lparr>d_message := message\<rparr>)) (\<lambda>_.
            if q = SOCKET_CLOSED then failM (Throw FORCED_SOCKET_CLOSED) else retM (flag, k)))))"
        "keeps (held q) (bindM (receive_message_wrapper ss flag) (\<lambda>flag. retM (flag, k)))"
        "keeps (held q) (bindM (d_log_error ''select'') (\<lambda>_. failM (Throw EXIT_FAILURE)) :: (byte \<times> u64) dmn)"
        by (intro keeps_held_receive keeps_intros)+
      then show ?thesis
        using less.prems(2) sel lt False again [of k ?w1] last [OF _ _ w1] w1
        by (auto simp: scm_loop.simps [of buf _ _ _ _ _ _ w] simp del: bindM_run split: if_splits)
    next
      case wr: True
      let ?send = "bindM (orUb (buf_read buf (unat k) (unat (bytes - k)))) (os_send ws)"
      obtain x v where sn: "?send ?w1 = (x, v)" by fastforce
      have "keeps (held q) (?send :: int dmn)" by (intro keeps_intros)
      note v = keepsD [OF this w1 sn]
      show ?thesis
      proof (cases "\<exists>n. x = Ret n")
        case False
        then show ?thesis using less.prems(2) sel lt wr sn v
          by (cases x) (auto simp: scm_loop.simps [of buf _ _ _ _ _ _ w])
      next
        case True
        then obtain n where n: "x = Ret n" by blast
        have es: "sel_evs v = es" using bindM_orUb_os_send_sel [OF sn [unfolded n]] by simp
        have failed: "keeps (held q) (bindM (d_log_error ''send'') (\<lambda>_. failM (Throw SOCKET_CLOSED)) :: (byte \<times> u64) dmn)"
          by (intro keeps_intros)
        show ?thesis
          using less.prems(2) sel lt wr sn n again [OF _ v es] last [OF failed _ v]
          by (auto simp: scm_loop.simps [of buf _ _ _ _ _ _ w] Let_def split: if_splits)
      qed
    qed
  qed
qed

lemma keeps_held_send_block: "keeps (held q) (send_block n l)"
proof -
  have scm: "keeps (held q) (send_bytes_check_message b ws ss cl k f)" for b ws ss cl k f
    by (rule keepsI) (metis keeps_held_scm_loop prod.collapse send_bytes_check_message_def)
  have store: "keeps (held q) (modifyM (\<lambda>w. w\<lparr>d_data := b\<rparr>))" if "length b = BUFFERSIZE" for b
    using that by (simp add: keeps_def held_def arrays_def)
  show ?thesis
    unfolding send_block_def Let_def
    by (intro keeps_getM_bindM keeps_ensures_bindM [OF fread_wrapper_length] keeps_bindM [OF store])
      (auto simp: held_def arrays_def intro!: keeps_intros scm)
qed

lemma keeps_held_send_data [keeps_intros]: "keeps (held q) (send_data n)"
proof -
  have "keeps (held q) (send_blocks n l)" for n l
    by (induction n l rule: send_blocks.induct) (simp_all only: send_blocks.simps keeps_basic keeps_bindM keeps_held_send_block)
  then show ?thesis unfolding send_data_def Let_def
    by (intro keeps_bindM keeps_if keeps_modifyM keeps_basic keeps_held_send_block; simp)
qed

lemma keeps_held_await_answer: "keeps (held q) await_answer"
  unfolding await_answer_def by (intro keeps_bindM keeps_if keeps_modifyM) (simp_all add: keeps_intros)

lemma write_dest_header_length: "write_dest_header da buf = Some (da', h) \<Longrightarrow> length h = length buf"
  by (auto simp: write_dest_header_def Let_def dest!: buf_write_length split: bind_splits)

lemma keeps_held_create_dest_file_attrs: "keeps (held q) (create_dest_file_attrs st0)"
proof -
  define store :: "unit dmn" where "store = bindM (getM (\<lambda>w. write_dest_header (d_attrs w) (d_header w))) (\<lambda>r.
     bindM (orUb r) (\<lambda>(da, header). modifyM (\<lambda>w. w\<lparr>d_attrs := da, d_header := header\<rparr>)))"
  have "keeps (held q) store"
    by (auto simp: store_def keeps_def held_def arrays_def bindM_def orUb_def dest: write_dest_header_length split: option.splits prod.splits)
  then show ?thesis
    unfolding create_dest_file_attrs_def Let_def store_def [symmetric]
    by (intro keeps_bindM keeps_if keeps_whenM keeps_modifyM keeps_case_prod) (simp_all add: keeps_intros)
qed

lemma keeps_held_load_file_attrs: "keeps (held q) (load_file_attrs s)"
proof -
  have store: "keeps (held q) (modifyM (\<lambda>w. w\<lparr>d_request_buffer := b\<rparr>))" if "length b = MAX_FILE_ATTRS_LEN" for b
    using that by (simp add: keeps_def held_def arrays_def)
  have rcv: "keeps (held q) (recv_bytes_wrapper off s n)" for off n
    unfolding recv_bytes_wrapper_def
  proof (intro keeps_getM_bindM keeps_ensures_bindM [OF recv_bytes_length])
    fix w and a :: "int \<times> byte list" assume "held q w" and "case a of (e, b) \<Rightarrow> length b = length (d_request_buffer w)"
    then obtain e b where a: "a = (e, b)" "length b = MAX_FILE_ATTRS_LEN" by (cases a) (auto simp: held_def arrays_def)
    have "keeps (held q) (if e \<noteq> EXIT_SUCCESS then failM (Throw e) else retM b)" by (intro keeps_intros)
    with store [OF a(2)] show "keeps (held q) (case a of (error, buf) \<Rightarrow> bindM (modifyM (\<lambda>w. w\<lparr>d_request_buffer := buf\<rparr>)) (\<lambda>_.
       if error \<noteq> EXIT_SUCCESS then failM (Throw error) else retM buf))" unfolding a(1) prod.case by (rule keeps_bindM)
  qed
  show ?thesis
    unfolding load_file_attrs_def Let_def
    by (intro keeps_bindM keeps_if keeps_modifyM keeps_basic rcv) (simp_all add: held_def arrays_def)
qed

lemma keeps_held_load_request: "keeps (held q) (load_request st0)"
proof -
  have path: "keeps (held q) (load_path_wrapper n s p put_source)" "keeps (held q) (load_path_wrapper n s p put_destination)"
    if "length p = PATH_MAX" for n s p
    using that by (auto intro!: keeps_held_load_path_wrapper simp: held_def arrays_def put_source_def put_destination_def)
  show ?thesis
    unfolding load_request_def
    by (intro keeps_getM_bindM keeps_bindM [OF keeps_held_load_file_attrs] keeps_bindM [OF path(1)] keeps_bindM [OF path(2)]
        keeps_held_create_dest_file_attrs) (simp_all add: held_def arrays_def)
qed

lemma keeps_held_try_body: "keeps (held q) (try_body st0)"
proof -
  have rq: "keeps (held q) send_request" unfolding send_request_def send_wrapper_def by (intro keeps_intros)
  have "keeps (held q) transfer_file" unfolding transfer_file_def by (intro keeps_intros rq)
  then show ?thesis
    unfolding try_body_def
    by (intro keeps_bindM keeps_if keeps_modifyM keeps_held_load_request keeps_held_await_answer rq)
      (simp_all add: keeps_intros)
qed

lemma keeps_held_dmn_round: "keeps (held None) (dmn_round a st0)"
proof -
  have "keeps (held None) (\<lambda>w. case try_body st0 w of (Throw x, w') \<Rightarrow> run_handlers a x w' | r \<Rightarrow> r)"
  proof (rule keepsI)
    fix w assume w: "held None w"
    obtain x v where x: "try_body st0 w = (x, v)" by fastforce
    show "held None (snd (case try_body st0 w of (Throw x, w') \<Rightarrow> run_handlers a x w' | r \<Rightarrow> r))"
      using x keepsD [OF keeps_held_try_body w x] keeps_held_run_handlers by (cases x) (auto simp: keeps_def)
  qed
  moreover have "keeps (held None) accept_request"
    unfolding accept_request_def by (intro keeps_bindM keeps_if keeps_modifyM) (simp_all add: keeps_intros)
  ultimately show ?thesis unfolding dmn_round_def by (intro keeps_bindM keeps_modifyM) simp_all
qed

lemma keeps_held_dmn_rounds: "keeps (held None) (dmn_rounds a sts)"
  by (induction sts) (simp_all only: dmn_rounds.simps keeps_basic keeps_bindM keeps_held_dmn_round)

section \<open>The start\<close>

lemma generate_token_length: "generate_token n h = Some t \<Longrightarrow> length t = MESSAGE_BUFFERSIZE"
  by (auto simp: generate_token_def Let_def dest!: buf_write_length split: bind_splits)

lemma keeps_held_uncaught [keeps_intros]: "keeps (held q) m \<Longrightarrow> keeps (held q) (uncaught m)"
  unfolding keeps_def uncaught_def by (auto split: prod.splits result.splits)

lemma keeps_held_password: "length p = MESSAGE_BUFFERSIZE \<Longrightarrow> keeps (held q) (modifyM (\<lambda>w. w\<lparr>d_password := p\<rparr>))"
  by (simp add: keeps_def held_def arrays_def)

text \<open>The start checks both sockets before it goes on.\<close>

definition dial :: "starting \<Rightarrow> byte list \<Rightarrow> unit dmn" where
  "dial st argv1 =
     bindM (modifyM (\<lambda>w. w\<lparr>sigpipe_ignored := True\<rparr>)) (\<lambda>_.
     bindM (orUb (c_str argv1)) (\<lambda>addr.
     if PATH_MAX < length addr then failM (Exit EXIT_FAILURE)
     else
     bindM os_gethostbyname (\<lambda>found.
     if \<not> found then failM (Exit EXIT_FAILURE)
     else if \<not> st_log_opens st then failM (Exit EXIT_FAILURE)
     else
     bindM (orUb (generate_token (st_random st) (st_hostname st))) (\<lambda>token.
     bindM (modifyM (\<lambda>w. w\<lparr>d_token := token\<rparr>)) (\<lambda>_. uncaught connect_both)))))"

definition settle :: "starting \<Rightarrow> byte list \<Rightarrow> unit dmn" where
  "settle st argv1 =
     bindM (getM d_data_socket) (\<lambda>s.
     bindM (os_set_nonblock s) (\<lambda>r.
     if r = - 1 then failM (Exit EXIT_FAILURE)
     else
     bindM (dmn_server_start st argv1) (\<lambda>_.
       modifyM (\<lambda>w. w\<lparr>d_attrs := (d_attrs w)\<lparr>discard := 0\<rparr>\<rparr>))))"

lemma dmn_init_parts:
  "dmn_init st argv1 = bindM (dial st argv1) (\<lambda>_.
     bindM (getM (\<lambda>w. d_command_socket w = - 1 \<or> d_data_socket w = - 1)) (\<lambda>failed.
     if failed then failM (Exit EXIT_FAILURE) else settle st argv1))"
proof -
  have "bindM (if b then m else n) f = (if b then bindM m f else bindM n f)" for b m n and f :: "unit \<Rightarrow> unit dmn"
    by simp
  moreover have "bindM (failM (Exit c)) f = failM (Exit c)" for c and f :: "unit \<Rightarrow> unit dmn"
    by (simp add: fun_eq_iff)
  ultimately show ?thesis
    unfolding dmn_init_def dial_def settle_def by (simp only: bindM_assoc)
qed

lemma keeps_held_ask: "keeps (held None) (if b then ask_password st else copy_password argv4)"
  by (auto simp: keeps_def held_def arrays_def ask_password_def copy_password_def bindM_def orUb_def fgets_def cut_newline_def
      Let_def dest!: buf_write_length split: option.splits if_splits bind_splits)

lemma keeps_held_dial: "keeps (held None) (dial st argv1)"
proof -
  have token: "keeps (held None) (modifyM (\<lambda>w. w\<lparr>d_token := t\<rparr>))" if "length t = MESSAGE_BUFFERSIZE" for t
    using that by (simp add: keeps_def held_def arrays_def)
  have tok: "ensures (held None) (\<lambda>t. length t = MESSAGE_BUFFERSIZE) (orUb (generate_token n h))" for n h
    by (auto simp: ensures_def keeps_basic orUb_def dest: generate_token_length split: option.splits)
  show ?thesis
    unfolding dial_def
    by (intro keeps_ensures_bindM [OF tok] keeps_bindM [OF token] keeps_bindM keeps_if keeps_modifyM) (simp_all add: keeps_intros)
qed

lemma keeps_held_settle: "keeps (held q) (settle st argv1)"
proof -
  have "keeps (held q) (dmn_server_start st argv1)"
    unfolding dmn_server_start_def by (intro keeps_bindM keeps_if keeps_modifyM) (simp_all add: keeps_intros)
  then show ?thesis
    unfolding settle_def by (intro keeps_bindM keeps_if keeps_modifyM) (simp_all add: keeps_intros)
qed

lemma keeps_held_login: "keeps (held q) (bindM dmn_login (\<lambda>_. dmn_daemonize st))"
  unfolding dmn_login_def dmn_daemonize_def by (intro keeps_intros)

lemma keeps_held_dmn_start: "keeps (held None) (dmn_start st argc argv1 argv4)"
  unfolding dmn_start_def dmn_init_parts
  by (intro keeps_bindM keeps_if keeps_modifyM keeps_basic keeps_held_ask keeps_held_dial keeps_held_settle
      keeps_held_login [unfolded dmn_login_def] keeps_held_login) simp_all

lemma keeps_arrays_dmn_main: "keeps arrays (dmn_main st argc argv1 argv4 st0s)"
proof -
  have "keeps (held None) (dmn_main st argc argv1 argv4 st0s)"
    unfolding dmn_main_def by (intro keeps_bindM keeps_held_dmn_start keeps_basic keeps_held_dmn_rounds)
  then show ?thesis by (simp add: keeps_def held_def)
qed

section \<open>Online\<close>

definition online :: "daemon \<Rightarrow> bool" where
  "online w \<longleftrightarrow> d_command_socket w \<noteq> - 1 \<and> d_data_socket w \<noteq> - 1"

lemma held_now: "arrays w \<Longrightarrow> held (Some (d_command_socket w, d_data_socket w)) w"
  by (simp add: held_def)

lemma held_online: "held (Some (s, s')) w \<Longrightarrow> s \<noteq> - 1 \<Longrightarrow> s' \<noteq> - 1 \<Longrightarrow> online w \<and> arrays w"
  by (simp add: held_def online_def)

text \<open>Only the two handlers that reconnect change the sockets, and they leave open ones.\<close>

lemma keeps_held_other_catch:
  assumes "x \<noteq> SOCKET_CLOSED" and "x \<noteq> FORCED_SOCKET_CLOSED"
  shows "keeps (held q) (catch a x)"
proof -
  have "keeps (held q) close_client" unfolding close_client_def by (intro keeps_intros)
  then show ?thesis unfolding catch_def using assms by (simp add: keeps_intros)
qed

lemma run_handlers_online:
  "run_handlers a x w = (Ret u, w') \<Longrightarrow> arrays w \<Longrightarrow> online w \<Longrightarrow> online w'"
proof (induction a x w arbitrary: u w' rule: run_handlers.induct)
  case (1 a x w)
  show ?case
  proof (cases "x = SOCKET_CLOSED \<or> x = FORCED_SOCKET_CLOSED")
    case True
    then show ?thesis using run_handlers_connected [of a x w w'] "1.prems" by (simp add: online_def)
  next
    case False
    obtain y v where y: "catch a x w = (y, v)" by fastforce
    from keepsD [OF keeps_held_other_catch held_now [OF "1.prems"(2)] y] False "1.prems"(3)
    have v: "online v \<and> arrays v" by (auto simp: held_def online_def)
    show ?thesis using "1.prems"(1) y v "1.IH" [OF y [symmetric]] by (cases y) (auto simp: run_handlers.simps [of a x w])
  qed
qed

lemma dmn_round_online:
  assumes run: "dmn_round a st0 w = (Ret u, w')" and w: "arrays w" "online w"
  shows "online w'"
proof -
  let ?q = "Some (d_command_socket w, d_data_socket w)"
  have "keeps (held ?q) accept_request"
    unfolding accept_request_def by (intro keeps_bindM keeps_if keeps_modifyM) (simp_all add: keeps_intros)
  moreover obtain v where v: "accept_request (w\<lparr>d_flag := as_char ACK_OK\<rparr>) = (Ret (), v)"
    and rest: "(case try_body st0 v of (Throw x, w') \<Rightarrow> run_handlers a x w' | r \<Rightarrow> r) = (Ret u, w')"
    using run by (auto simp: dmn_round_def bindM_eq_Ret)
  ultimately have "held ?q v" using held_now [OF w(1)] by (metis held_update(18) keepsD)
  then have body: "online t \<and> arrays t" if "try_body st0 v = (x, t)" for x t
    using keepsD [OF keeps_held_try_body [where q = ?q] \<open>held ?q v\<close> that] w(2) by (auto simp: held_def online_def)
  show ?thesis using rest body run_handlers_online by (auto split: prod.splits result.splits)
qed

lemma dmn_rounds_online: "dmn_rounds a sts w = (Ret u, w') \<Longrightarrow> arrays w \<Longrightarrow> online w \<Longrightarrow> online w'"
proof (induction sts arbitrary: w)
  case (Cons st0 sts)
  then obtain v where v: "dmn_round a st0 w = (Ret (), v)" "dmn_rounds a sts v = (Ret u, w')"
    by (auto simp: bindM_eq_Ret)
  have "arrays v" using keepsD [OF keeps_held_dmn_round _ v(1)] Cons.prems(2) by (auto simp: held_def)
  then show ?case using Cons.IH [OF v(2)] dmn_round_online [OF v(1) Cons.prems(2,3)] by blast
qed simp

lemma dmn_start_online:
  assumes run: "dmn_start st argc argv1 argv4 w = (Ret u, w')" and w: "arrays w"
  shows "online w'"
proof -
  let ?w = "w\<lparr>d_file := Null, d_resend := False\<rparr>"
  obtain v1 v2 where v: "(if argc = 4 then ask_password st else copy_password argv4) ?w = (Ret (), v1)"
    "dial st argv1 v1 = (Ret (), v2)" and on: "online v2"
    and fin: "bindM (settle st argv1) (\<lambda>_. bindM dmn_login (\<lambda>_. dmn_daemonize st)) v2 = (Ret u, w')"
    using run by (auto simp: dmn_start_def dmn_init_parts bindM_eq_Ret online_def split: if_splits)
  have "held None ?w" using w by (simp add: held_def arrays_def)
  from keepsD [OF keeps_held_dial keepsD [OF keeps_held_ask this v(1)] v(2)] have "arrays v2" by (simp add: held_def)
  from keepsD [OF keeps_bindM [OF keeps_held_settle keeps_held_login] held_now [OF this] fin] on
  show ?thesis by (auto simp: held_def online_def)
qed

lemma dmn_main_online:
  assumes run: "dmn_main st argc argv1 argv4 st0s w = (Ret u, w')" and w: "arrays w"
  shows "online w'"
proof -
  obtain v a where v: "dmn_start st argc argv1 argv4 w = (Ret (), v)" "dmn_rounds a st0s v = (Ret u, w')"
    using run by (auto simp: dmn_main_def bindM_eq_Ret orUb_def split: option.splits)
  have "arrays v" using keepsD [OF keeps_held_dmn_start _ v(1)] w by (simp add: held_def)
  with v w show ?thesis using dmn_rounds_online dmn_start_online by blast
qed

end
