(* ===== verification/Session.thy ===== *)
theory Session
  imports System Server_Calm Daemon_Invariant
begin

text \<open>
  A daemon from its start through many requests, and the server's thread that serves it.  Neither
  side is told what the other will send: the bytes each finds are those the other sent, and that
  the dialogue gets as far as it should is shown step by step, one acknowledgement at a time.
\<close>

section \<open>Requests waiting at the daemon\<close>

text \<open>A client's connection, the source, the destination, and what is at the source.\<close>

type_synonym request = "fd \<times> byte list \<times> byte list \<times> node"

fun job_of :: "request \<Rightarrow> job" where
  "job_of (cl, s, d, nd) = (d, nd)"

fun request_ok :: "daemon \<Rightarrow> request \<Rightarrow> bool" where
  "request_ok w (cl, s, d, nd) \<longleftrightarrow>
     cl \<noteq> - 1 \<and> NUL \<notin> set s \<and> NUL \<notin> set d \<and> length s < PATH_MAX \<and> length d < PATH_MAX \<and>
     (\<exists>rest. avail cl w = request_bytes s d @ rest) \<and> d_fs w s = Some nd \<and> length (node_bytes nd) < 2 ^ 64 \<and>
     valid_transfer (announced nd d 0)"

text \<open>So many times the daemon may have to wait for a socket.\<close>

fun effort :: "request list \<Rightarrow> nat" where
  "effort [] = 0"
| "effort ((cl, s, d, nd) # rs) = length (node_bytes nd) + 1 + effort rs"

definition serving :: "fd \<Rightarrow> fd \<Rightarrow> byte list \<Rightarrow> request list \<Rightarrow> daemon \<Rightarrow> bool" where
  "serving cm dt m rs w \<longleftrightarrow>
     distinct (cm # dt # map fst rs) \<and> (\<exists>as. d_accepts w = map fst rs @ as) \<and> list_all (request_ok w) rs \<and>
     d_command_socket w = cm \<and> d_data_socket w = dt \<and> \<not> d_resend w \<and> discard (d_attrs w) = 0 \<and>
     snd_evs w = [] \<and> list_all sel_write (sel_evs w) \<and> effort rs \<le> length (sel_evs w) \<and>
     d_fopen_evs w = [] \<and> d_fread_evs w = [] \<and> c_str (d_message w) = Some m \<and> length m \<le> 252 \<and> arrays w"

abbreviation ack :: "byte list" where
  "ack \<equiv> enc_message (as_char ACK_OK, [])"

lemma dec_ack: "dec_message (ack @ rest) = Some ((as_char ACK_OK, []), rest)"
  using messages.dec_enc [of "(as_char ACK_OK, [])" rest] by (simp add: valid_message_def)

lemma serving_ready:
  assumes "serving cm dt m ((cl, s, d, nd) # rs) w"
  shows "ready_for cm dt cl s d nd w"
  using assms by (auto simp: serving_def ready_for_def idle_for_def working_def arrays_def)

text \<open>What has been sent when these requests are served.\<close>

definition answered :: "fd \<Rightarrow> fd \<Rightarrow> byte list \<Rightarrow> request list \<Rightarrow> daemon \<Rightarrow> daemon \<Rightarrow> bool" where
  "answered cm dt m rs w w' \<longleftrightarrow>
     tx w' cm = tx w cm @ session_cmd (map job_of rs) \<and> tx w' dt = tx w dt @ session_data (map job_of rs) \<and>
     (\<forall>f. f \<noteq> cm \<and> f \<noteq> dt \<longrightarrow> tx w' f = tx w f @ (if f \<in> fst ` set rs then enc_message (as_char ACK_OK, text_body m) else []))"

lemma serving_round:
  assumes s: "serving cm dt m ((cl, s, d, nd) # rs) w" and a: "avail cm w = ack @ rest"
  shows "\<exists>w'. dmn_round addr st0 w = (Ret (), w') \<and> serving cm dt m rs w' \<and> avail cm w' = rest \<and>
    answered cm dt m [(cl, s, d, nd)] w w'"
proof -
  have m: "c_str (d_message w) = Some m" "length m \<le> 252" and z: "discard (d_attrs w) = 0" and ar: "arrays w"
    using s by (auto simp: serving_def)
  have rep: "dec_message (avail cm w) = Some ((as_char ACK_OK, []), rest)" unfolding a by (rule dec_ack)
  obtain w' where w': "dmn_round addr st0 w = (Ret (), w')"
    "tx w' = (tx w)(cm := tx w cm @ enc_transfer (announced nd d (discard (d_attrs w))), dt := tx w dt @ d @ [NUL] @ node_bytes nd,
      cl := tx w cl @ enc_message (as_char ACK_OK, text_body m))"
    "discard (d_attrs w') = (if nd = Dir then discard (d_attrs w) else 0)" "\<not> d_resend w'" "d_message w' = d_message w" "snd_evs w' = []"
    "d_command_socket w' = cm" "d_accepts w' = tl (d_accepts w)" "avail cm w' = rest"
    "\<forall>s. s \<noteq> cl \<and> s \<noteq> cm \<longrightarrow> avail s w' = avail s w" "same_host (length (node_bytes nd) + 1) w w'"
    using round_acknowledged_leaves [OF serving_ready [OF s] rep m, of addr st0] by blast
  have ar': "arrays w'" using keepsD [OF keeps_held_dmn_round _ w'(1)] ar by (simp add: held_def)
  have ok: "request_ok w' r" if "r \<in> set rs" for r
  proof -
    obtain cl' s' d' nd' where r: "r = (cl', s', d', nd')" by (cases r)
    have "request_ok w r" and "cl' \<noteq> cl" "cl' \<noteq> cm"
      using s that r by (auto simp: serving_def list_all_iff image_iff Bex_def)
    then show ?thesis using w'(10,11) r by (simp add: same_host_def)
  qed
  obtain k where k: "k \<le> length (node_bytes nd) + 1" "sel_evs w' = drop k (sel_evs w)" using w'(11) by (auto simp: same_host_def)
  have "serving cm dt m rs w'"
    using s w'(3-8,11) z ok ar' k by (auto simp: serving_def same_host_def list_all_iff dest: in_set_dropD)
  moreover have "cl \<noteq> cm" "cl \<noteq> dt" "cm \<noteq> dt" using s by (auto simp: serving_def)
  then have "answered cm dt m [(cl, s, d, nd)] w w'" by (simp add: answered_def w'(2) z)
  ultimately show ?thesis using w' by blast
qed

lemma answered_trans:
  assumes "answered cm dt m rs w v" and "answered cm dt m us v u" and "distinct (map fst (rs @ us))" and "cm \<noteq> dt"
  shows "answered cm dt m (rs @ us) w u"
  using assms by (auto simp: answered_def session_cmd_def session_data_def)

lemma serving_rounds:
  assumes "serving cm dt m (rs @ us) w" and "avail cm w = concat (replicate (length rs) ack) @ rest" and "length sts = length rs"
  shows "\<exists>w'. dmn_rounds addr sts w = (Ret (), w') \<and> serving cm dt m us w' \<and> avail cm w' = rest \<and> answered cm dt m rs w w'"
  using assms
proof (induction rs arbitrary: w sts)
  case Nil
  then show ?case by (simp add: answered_def)
next
  case (Cons r rs)
  obtain cl s d nd where r: "r = (cl, s, d, nd)" by (cases r)
  obtain st0 sts' where st: "sts = st0 # sts'" "length sts' = length rs" using Cons.prems(3) by (cases sts) auto
  from serving_round [of cm dt m cl s d nd "rs @ us" w "concat (replicate (length rs) ack) @ rest" addr st0] Cons.prems(1,2) r
  obtain v where v: "dmn_round addr st0 w = (Ret (), v)" "serving cm dt m (rs @ us) v"
    "avail cm v = concat (replicate (length rs) ack) @ rest" "answered cm dt m [r] w v" by auto
  from Cons.IH [OF v(2,3) st(2)] obtain w' where w': "dmn_rounds addr sts' v = (Ret (), w')" "serving cm dt m us w'"
    "avail cm w' = rest" "answered cm dt m rs v w'" by blast
  have "distinct (map fst ([r] @ rs))" "cm \<noteq> dt" using Cons.prems(1) by (auto simp: serving_def)
  from answered_trans [OF v(4) w'(4) this] show ?case using v(1) w' st(1) by (simp add: bindM_def)
qed

lemma dmn_rounds_append: "dmn_rounds a (xs @ ys) = bindM (dmn_rounds a xs) (\<lambda>_. dmn_rounds a ys)"
  by (induction xs) (simp_all add: bindM_assoc bindM_run(1) del: retM_run)

lemma calm_dmn_rounds: "calm (dmn_rounds a sts)"
  by (induction sts) (simp_all only: dmn_rounds.simps calm_basic calm_bindM calm_dmn_round)

text \<open>However the dialogue goes on after some acknowledgements, the next request has been sent.\<close>

lemma serving_progress:
  assumes s: "serving cm dt m (rs @ r # us) w" and a: "avail cm w = concat (replicate (length rs) ack) @ rest"
    and n: "length rs < length sts" and run: "dmn_rounds addr sts w = (x, w')"
  shows "prefix (tx w cm @ session_cmd (map job_of (rs @ [r]))) (tx w' cm) \<and>
    prefix (tx w dt @ session_data (map job_of (rs @ [r]))) (tx w' dt)"
proof -
  let ?n = "length rs"
  obtain cl src d nd where r: "r = (cl, src, d, nd)" by (cases r)
  have sts: "sts = take ?n sts @ sts ! ?n # drop (Suc ?n) sts" using n by (simp add: id_take_nth_drop)
  have "length (take ?n sts) = ?n" using n by simp
  from serving_rounds [OF s a this] obtain v where v: "dmn_rounds addr (take ?n sts) w = (Ret (), v)"
    "serving cm dt m (r # us) v" "answered cm dt m rs w v" by blast
  obtain y u where y: "dmn_round addr (sts ! ?n) v = (y, u)" by fastforce
  have "dmn_rounds addr sts w = bindM (dmn_round addr (sts ! ?n)) (\<lambda>_. dmn_rounds addr (drop (Suc ?n) sts)) v"
    using v(1) by (subst sts) (simp add: dmn_rounds_append bindM_def)
  then have "grows u w'"
    using run y calmD [OF calm_dmn_rounds, of addr "drop (Suc ?n) sts" u x w'] by (cases y) (auto simp: bindM_def)
  then have g: "prefix (tx u cm) (tx w' cm)" "prefix (tx u dt) (tx w' dt)" by (simp_all add: grows_def)
  have "ready_for cm dt cl src d nd v" "discard (d_attrs v) = 0"
    using serving_ready [of cm dt m cl src d nd us v] v(2) r by (simp_all add: serving_def)
  from round_transmits [OF this(1) y] this(2) v(3) r
  have "prefix (tx w cm @ session_cmd (map job_of (rs @ [r]))) (tx u cm)"
    "prefix (tx w dt @ session_data (map job_of (rs @ [r]))) (tx u dt)"
    by (auto simp: answered_def session_cmd_def session_data_def)
  with g show ?thesis by (meson prefix_order.trans)
qed

section \<open>The server's thread\<close>

text \<open>Whatever comes behind the password and some transfers, they have been acknowledged.\<close>

lemma thread_progress:
  assumes s: "at_start client cm dt pw pw (session_cmd ts @ crest) v" and l: "locals_ok l" "permissive v"
    and pre: "prefix_of v = Some pre" "NUL \<notin> set pre" and jobs: "list_all (job_ok pre) ts"
    and dat: "avail dt v = session_data ts @ drest" and len: "length message = MESSAGE_BUFFERSIZE"
    and run: "thr_func client message f0 l v = (x, v')"
  shows "prefix (tx v cm @ concat (replicate (Suc (length ts)) ack)) (tx v' cm)"
proof -
  from s obtain c where c: "clients v client = Some c" by (auto simp: at_start_def connected_def)
  let ?v = "admitted client c cm pw ACK_OK v"
  from in_session_rounds [OF admitted_session [OF s c l pre jobs dat]] obtain l' u where
    u: "thr_loop client l ?v = thr_loop client l' u" "session_done cm pre ts ?v u" by blast
  have "thr_loop client l' u = (x, v')" using run thr_func_start [OF s c len] u(1) by simp
  then have "prefix (tx u cm) (tx v' cm)" using calmD [OF calm_thr_loop] by (auto simp: grows_def)
  moreover have "tx u cm = tx v cm @ concat (replicate (Suc (length ts)) ack)"
    using u(2) by (simp add: session_done_def)
  ultimately show ?thesis by simp
qed

section \<open>The daemon from its start\<close>

definition daemon_ready ::
  "starting \<Rightarrow> byte list \<Rightarrow> byte list \<Rightarrow> byte list \<Rightarrow> fd \<Rightarrow> fd \<Rightarrow> fd \<Rightarrow> byte list \<Rightarrow> request list \<Rightarrow> daemon \<Rightarrow> bool" where
  "daemon_ready st argv1 pw t s s' l m rs w \<longleftrightarrow>
     starts_up st argv1 pw t \<and> pw \<noteq> [] \<and> network_up s s' l w \<and> arrays w \<and>
     serving s s' m rs (w\<lparr>d_command_socket := s, d_data_socket := s', d_resend := False,
       d_attrs := (d_attrs w)\<lparr>discard := 0\<rparr>\<rparr>)"

abbreviation greeting :: "byte list \<Rightarrow> byte list" where
  "greeting t \<equiv> enc_message (as_char AUTH_REQUEST, text_body t)"

lemma start_serving:
  assumes d: "daemon_ready st argv1 pw t s s' l m rs w" and a: "avail s w = ack @ rest"
  shows "\<exists>addr w1. (\<forall>sts. dmn_main st 4 argv1 argv4 sts w = dmn_rounds addr sts w1) \<and> serving s s' m rs w1 \<and>
    avail s w1 = rest \<and> tx w1 = (tx w)(s := tx w s @ greeting t @ greeting pw, s' := tx w s' @ greeting t)"
proof -
  have st: "starts_up st argv1 pw t" and up: "network_up s s' l w" and ar: "arrays w"
    and sv: "serving s s' m rs (w\<lparr>d_command_socket := s, d_data_socket := s', d_resend := False,
       d_attrs := (d_attrs w)\<lparr>discard := 0\<rparr>\<rparr>)" (is "serving _ _ _ _ ?w")
    using d by (auto simp: daemon_ready_def)
  have dec: "dec_message (avail s w) = Some ((as_char ACK_OK, []), rest)" unfolding a by (rule dec_ack)
  then have rs: "reachable_server s s' l rest w" using up by (auto simp: reachable_server_def answer_flags)
  obtain v q g where run: "dmn_start st 4 argv1 argv4 w = (Ret (),
      v\<lparr>tx := (tx v)(s := tx v s @ greeting pw), rx := (rx v)(s := q), d_logfile := g\<rparr>)" (is "_ = (_, ?w1)")
    and v: "set_up s s' l pw t w v" and q: "stream q = rest" using dmn_start_run [OF st rs] by blast
  note f = set_up_fields [OF v up]
  obtain addr where addr: "c_str argv1 = Some addr" using st by (auto simp: starts_up_def)
  have "held None w" using ar by (simp add: held_def)
  from keepsD [OF keeps_held_dmn_start this run] have ar1: "arrays ?w1" by (simp add: held_def)
  have ok: "request_ok ?w1 r" if "r \<in> set rs" for r
  proof -
    obtain cl src e nd where r: "r = (cl, src, e, nd)" by (cases r)
    have "request_ok ?w r" and "cl \<noteq> s" using sv that r by (auto simp: serving_def list_all_iff image_iff Bex_def)
    then show ?thesis using f r by (simp add: avail_def)
  qed
  have "serving s s' m rs ?w1"
    using sv ok ar1 f by (auto simp: serving_def list_all_iff)
  moreover have "avail s ?w1 = rest" using q by (simp add: avail_def)
  moreover have "s \<noteq> s'" using up by (simp add: network_up_def)
  then have "tx ?w1 = (tx w)(s := tx w s @ greeting t @ greeting pw, s' := tx w s' @ greeting t)"
    using f by (simp add: fun_eq_iff)
  moreover have "dmn_main st 4 argv1 argv4 sts w = dmn_rounds addr sts ?w1" for sts
    using run addr by (simp add: dmn_main_def bindM_def)
  ultimately show ?thesis by blast
qed

text \<open>Even before the first answer the token and the password have been sent.\<close>

lemma start_greets:
  assumes d: "daemon_ready st argv1 pw t s s' l m rs w" and run: "dmn_main st 4 argv1 argv4 sts w = (x, w')"
  shows "prefix (tx w s @ greeting t @ greeting pw) (tx w' s)"
proof -
  have st: "starts_up st argv1 pw t" and up: "network_up s s' l w" using d by (auto simp: daemon_ready_def)
  obtain v where v: "dmn_start st 4 argv1 argv4 w = bindM dmn_login (\<lambda>_. retM ()) v" "set_up s s' l pw t w v"
    using dmn_start_sets_up [OF st up] by blast
  note f = set_up_fields [OF v(2) up]
  obtain addr where addr: "c_str argv1 = Some addr" using st by (auto simp: starts_up_def)
  define answer :: "int dmn" where "answer = bindM (receive_message_wrapper s NUL) (\<lambda>message_flag.
     if message_flag = as_char BAD_AUTH then retM BAD_AUTH
     else bindM (d_log (''Authenticated. Wainting for client connection.'' @ [NL])) (\<lambda>_. retM EXIT_SUCCESS))"
  define rest :: "unit dmn" where "rest = bindM (uncaught answer) (\<lambda>r.
     bindM (if r \<noteq> EXIT_SUCCESS then failM (Exit EXIT_FAILURE) else retM ()) (\<lambda>_. dmn_rounds addr sts))"
  let ?u = "sent s (greeting pw) v"
  have "length pw \<le> 252" using st by (simp add: starts_up_def)
  then have "send_message s (as_char AUTH_REQUEST) (d_password v) v = (Ret EXIT_SUCCESS, ?u)"
    using f by (simp add: send_message_ideal)
  then have "dmn_authenticate v = answer ?u" using f(1) by (simp add: dmn_authenticate_def answer_def bindM_def)
  then have "dmn_main st 4 argv1 argv4 sts w = rest ?u"
    using v(1) addr by (simp add: dmn_main_def dmn_login_def rest_def uncaught_def bindM_def split: prod.splits result.splits)
  moreover have "calm answer" unfolding answer_def by (intro calm_intros)
  then have "calm (uncaught answer)" by (auto simp: calm_def uncaught_def split: prod.splits result.splits)
  then have "calm rest" unfolding rest_def by (intro calm_intros calm_dmn_rounds)
  ultimately have "grows ?u w'" using run calmD by metis
  then have "prefix (tx ?u s) (tx w' s)" unfolding grows_def by blast
  moreover have "s \<noteq> s'" using up by (simp add: network_up_def)
  then have "tx ?u s = tx w s @ greeting t @ greeting pw" using f(17) by (simp add: sent_def)
  ultimately show ?thesis by simp
qed

section \<open>The dialogue\<close>

text \<open>The server's thread before its first byte; the pairing of the two connections has taken the
  daemon's token off each.\<close>

definition thread_ready ::
  "addr \<Rightarrow> fd \<Rightarrow> fd \<Rightarrow> byte list \<Rightarrow> byte list \<Rightarrow> job list \<Rightarrow> thr_locals \<Rightarrow> server \<Rightarrow> bool" where
  "thread_ready client cm dt pw pre ts l v \<longleftrightarrow>
     connected client cm dt v \<and> c_str (password v) = Some pw \<and> locals_ok l \<and> permissive v \<and>
     prefix_of v = Some pre \<and> NUL \<notin> set pre \<and> list_all (job_ok pre) ts \<and> silent (rx v cm) \<and>
     (\<exists>xs. client_list (clients v) (last_client v) xs \<and> client \<in> set xs)"

definition dialogue ::
  "fd \<Rightarrow> fd \<Rightarrow> byte list \<Rightarrow> daemon \<Rightarrow> daemon \<Rightarrow> fd \<Rightarrow> fd \<Rightarrow> server \<Rightarrow> server \<Rightarrow> bool" where
  "dialogue s s' t w w' cm dt v v' \<longleftrightarrow>
     tx w' s = tx w s @ greeting t @ avail cm v \<and> tx w' s' = tx w s' @ greeting t @ avail dt v \<and> wired cm v v' s w"

lemma thread_at_start:
  assumes r: "thread_ready client cm dt pw pre ts l v" and a: "avail cm v = greeting pw @ crest"
    and pw: "pw \<noteq> []" "length pw \<le> 252"
  shows "at_start client cm dt pw pw crest v"
proof -
  have "dec_message (avail cm v) = Some ((as_char AUTH_REQUEST, pw @ [NUL]), crest)"
    unfolding a using messages.dec_enc [of "(as_char AUTH_REQUEST, pw @ [NUL])" crest] pw
    by (simp add: valid_message_def text_body_def)
  moreover have "NUL \<notin> set pw" using r by (auto simp: thread_ready_def dest: c_str_no_NUL)
  ultimately show ?thesis using r pw(2) by (auto simp: at_start_def thread_ready_def MESSAGE_BUFFERSIZE_def)
qed

text \<open>The server acknowledges what has arrived of the session.\<close>

lemma thread_acknowledges:
  assumes r: "thread_ready client cm dt pw pre (ts @ us) l v" and pw: "pw \<noteq> []" "length pw \<le> 252"
    and cmd: "avail cm v = greeting pw @ session_cmd ts @ crest" and dat: "avail dt v = session_data ts @ drest"
    and run: "thr_func client message f0 l v = (x, v')" and len: "length message = MESSAGE_BUFFERSIZE"
    and sys: "wired cm v v' s w"
  shows "\<exists>rest. avail s w = concat (replicate (Suc (length ts)) ack) @ rest"
proof -
  note s = thread_at_start [OF r cmd pw]
  have "prefix (tx v cm @ concat (replicate (Suc (length ts)) ack)) (tx v' cm)"
    by (rule thread_progress [OF s _ _ _ _ _ dat len run]) (use r in \<open>auto simp: thread_ready_def\<close>)
  then show ?thesis using sys by (auto simp: wired_def prefix_def)
qed

text \<open>So the daemon gets one acknowledgement after the other.\<close>

lemma dialogue_progress:
  assumes d: "daemon_ready st argv1 pw t s s' ls m rs w" and r: "thread_ready client cm dt pw pre (map job_of rs) l v"
    and sys: "dialogue s s' t w w' cm dt v v'" and len: "length message = MESSAGE_BUFFERSIZE" "length sts = length rs"
    and runs: "dmn_main st 4 argv1 argv4 sts w = (x, w')" "thr_func client message f0 l v = (y, v')"
  shows "k \<le> length rs \<Longrightarrow> \<exists>rest. avail s w = concat (replicate (Suc k) ack) @ rest"
proof (induction k)
  have pw: "pw \<noteq> []" "length pw \<le> 252" using d by (simp_all add: daemon_ready_def starts_up_def)
  have wire: "wired cm v v' s w" using sys by (simp add: dialogue_def)
  note acks = thread_acknowledges [OF _ pw _ _ runs(2) len(1) wire]
  case 0
  obtain crest where "avail cm v = greeting pw @ crest"
    using start_greets [OF d runs(1)] sys by (auto simp: dialogue_def prefix_def)
  then show ?case using acks [of dt pre "[]" "map job_of rs" crest "avail dt v"] r by simp
next
  have pw: "pw \<noteq> []" "length pw \<le> 252" using d by (simp_all add: daemon_ready_def starts_up_def)
  have wire: "wired cm v v' s w" using sys by (simp add: dialogue_def)
  note acks = thread_acknowledges [OF _ pw _ _ runs(2) len(1) wire]
  case (Suc k)
  then obtain rest where a: "avail s w = ack @ concat (replicate k ack) @ rest" by auto
  from start_serving [OF d a] obtain addr w1 where w1: "\<And>sts. dmn_main st 4 argv1 argv4 sts w = dmn_rounds addr sts w1"
    "serving s s' m rs w1" "avail s w1 = concat (replicate k ack) @ rest"
    "tx w1 = (tx w)(s := tx w s @ greeting t @ greeting pw, s' := tx w s' @ greeting t)" by blast
  let ?rs = "take k rs" and ?us = "drop (Suc k) rs"
  have rs: "rs = ?rs @ rs ! k # ?us" and n: "length ?rs = k" "k < length sts" using Suc.prems len(2) by (simp_all add: id_take_nth_drop)
  have ne: "s \<noteq> s'" using w1(2) by (auto simp: serving_def)
  let ?ts = "map job_of (?rs @ [rs ! k])"
  have "prefix (tx w1 s @ session_cmd ?ts) (tx w' s) \<and> prefix (tx w1 s' @ session_data ?ts) (tx w' s')"
    by (rule serving_progress [OF w1(2) [unfolded arg_cong [OF rs, of "\<lambda>rs. serving s s' m rs w1"]], of rest sts addr x])
      (use w1 runs(1) n in simp_all)
  then have "prefix (tx w s @ greeting t @ greeting pw @ session_cmd ?ts) (tx w' s)"
    "prefix (tx w s' @ greeting t @ session_data ?ts) (tx w' s')" using w1(4) ne by simp_all
  then obtain crest drest where "avail cm v = greeting pw @ session_cmd ?ts @ crest" "avail dt v = session_data ?ts @ drest"
    using sys by (auto simp: dialogue_def prefix_def)
  moreover have "map job_of rs = ?ts @ map job_of ?us" by (subst rs) simp
  then have "thread_ready client cm dt pw pre (?ts @ map job_of ?us) l v" using r by simp
  moreover have "length ?ts = Suc k" using n by simp
  ultimately show ?case using acks [of dt pre ?ts "map job_of ?us" crest drest] by simp
qed

text \<open>In the end every request is stored and acknowledged.\<close>

lemma session_completed:
  assumes d: "daemon_ready st argv1 pw t s s' ls m rs w" and r: "thread_ready client cm dt pw pre (map job_of rs) l v"
    and sys: "dialogue s s' t w w' cm dt v v'" and len: "length message = MESSAGE_BUFFERSIZE" "length sts = length rs"
    and runs: "dmn_main st 4 argv1 argv4 sts w = (x, w')" "thr_func client message f0 l v = (y, v')"
  shows "x = Ret ()" and "y = Block" and "fs v' = stored pre (map job_of rs) (fs v)"
    and "\<forall>cl \<in> fst ` set rs. tx w' cl = tx w cl @ enc_message (as_char ACK_OK, text_body m)"
proof -
  have pw: "pw \<noteq> []" "length pw \<le> 252" using d by (simp_all add: daemon_ready_def starts_up_def)
  obtain rest where "avail s w = concat (replicate (Suc (length rs)) ack) @ rest"
    using dialogue_progress [OF d r sys len runs, of "length rs"] by auto
  then have a: "avail s w = ack @ concat (replicate (length rs) ack) @ rest" by simp
  from start_serving [OF d a] obtain addr w1 where w1: "\<And>sts. dmn_main st 4 argv1 argv4 sts w = dmn_rounds addr sts w1"
    "serving s s' m rs w1" "avail s w1 = concat (replicate (length rs) ack) @ rest"
    "tx w1 = (tx w)(s := tx w s @ greeting t @ greeting pw, s' := tx w s' @ greeting t)" by blast
  have "serving s s' m (rs @ []) w1" using w1(2) by simp
  from serving_rounds [OF this w1(3) len(2), of addr] obtain u where
    u: "dmn_rounds addr sts w1 = (Ret (), u)" "answered s s' m rs w1 u" by blast
  then have x: "x = Ret ()" and w': "answered s s' m rs w1 w'" using runs(1) w1(1) by auto
  show "x = Ret ()" by (rule x)
  have ne: "s \<noteq> s'" "s \<notin> fst ` set rs" "s' \<notin> fst ` set rs" using w1(2) by (auto simp: serving_def)
  show "\<forall>cl \<in> fst ` set rs. tx w' cl = tx w cl @ enc_message (as_char ACK_OK, text_body m)"
  proof
    fix cl assume cl: "cl \<in> fst ` set rs"
    then have "cl \<noteq> s" "cl \<noteq> s'" using ne by blast+
    moreover from this have "tx w' cl = tx w1 cl @ enc_message (as_char ACK_OK, text_body m)"
      using w' cl unfolding answered_def by metis
    ultimately show "tx w' cl = tx w cl @ enc_message (as_char ACK_OK, text_body m)" by (simp add: w1(4))
  qed
  let ?ts = "map job_of rs"
  have cmd: "avail cm v = greeting pw @ session_cmd ?ts @ []" and dat: "avail dt v = session_data ?ts @ []"
    using sys w' ne(1) by (simp_all add: dialogue_def answered_def w1(4))
  note st = thread_at_start [OF r cmd pw]
  from st obtain c where c: "clients v client = Some c" by (auto simp: at_start_def connected_def)
  have "in_session client cm dt pre ?ts [] [] l (admitted client c cm pw ACK_OK v)"
    by (rule admitted_session [OF st c _ _ _ _ _ dat]) (use r in \<open>auto simp: thread_ready_def\<close>)
  moreover have "silent (rx (admitted client c cm pw ACK_OK v) cm)" using r by (simp add: thread_ready_def)
  ultimately obtain v2 where "thr_loop client l (admitted client c cm pw ACK_OK v) = (Block, v2)"
    "fs v2 = stored pre ?ts (fs v)" using session_waits by fastforce
  then show "y = Block" "fs v' = stored pre ?ts (fs v)"
    using runs(2) thr_func_start [OF st c len(1)] by simp_all
qed

end
