(* ===== verification/Session_Example.thy ===== *)
theory Session_Example
  imports Session Start_Properties
begin

text \<open>
  The example daemon from its start through two requests, a file and a directory, and the example
  server's thread that serves it.
\<close>

definition requests0 :: "request list" where
  "requests0 = [(6, ''/a'', ''a'', File ''hi''), (7, ''/d'', ''d'', Dir)]"

definition calling :: daemon where
  "calling = unstarted\<lparr>rx := (\<lambda>_. [])(3 := [Seg (concat (replicate 3 ack))], 6 := [Seg (request_bytes ''/a'' ''a'')],
     7 := [Seg (request_bytes ''/d'' ''d'')]), d_accepts := [6, 7], d_token := replicate MESSAGE_BUFFERSIZE NUL\<rparr>"

definition called :: server where
  "called = server_rx [Seg (greeting ''pw''), Seg (session_cmd jobs0)] [Seg (session_data jobs0)]"

definition token0 :: "byte list" where
  "token0 = ''pc'' @ sprintf_ld 42"

definition calling_run :: "unit result \<times> daemon" where
  "calling_run = dmn_main starting0 4 (cs ''host'') [] [(False, 0), (False, 0)] calling"

definition called_run :: "unit result \<times> server" where
  "called_run = thr_func 7 message0 NUL locals0 called"

lemma requests0_jobs: "map job_of requests0 = jobs0"
  by (simp add: requests0_def jobs0_def)

lemma calling_simps [simp]:
  "avail 3 calling = concat (replicate 3 ack)" "tx calling = (\<lambda>_. [])"
  by (simp_all add: calling_def unstarted_def daemon0_def avail_def)

lemma called_simps [simp]:
  "avail 3 called = greeting ''pw'' @ session_cmd jobs0" "avail 4 called = session_data jobs0"
  "tx called = (\<lambda>_. [])" "fs called = Map.empty"
  by (simp_all add: called_def)

lemma starting0_starts: "starts_up starting0 (cs ''host'') ''pw'' token0"
proof -
  obtain tok where tok: "generate_token 42 (cs ''pc'') = Some tok" "c_str tok = Some token0"
    using generate_token_run [of "cs ''pc''" "''pc''" 42] by (auto simp: token0_def)
  have l: "length (sprintf_ld 42) \<le> 20" by (rule length_sprintf_ld) simp_all
  then show ?thesis
    using tok by (auto simp: starts_up_def starting0_def token0_def line_of_terminated [of "''pw''" "[]"] NL_def SOCKET_ADDRESS_def SUN_PATH_def)
qed

lemma calling_arrays: "arrays calling"
  by (simp add: arrays_def calling_def unstarted_def daemon0_def request0_def)

lemma calling_ready: "daemon_ready starting0 (cs ''host'') ''pw'' token0 3 4 5 [] requests0 calling"
proof -
  let ?w = "calling\<lparr>d_command_socket := 3, d_data_socket := 4, d_resend := False, d_attrs := (d_attrs calling)\<lparr>discard := 0\<rparr>\<rparr>"
  have "list_all (request_ok ?w) requests0"
    by (simp add: requests0_def calling_def unstarted_def daemon0_def files0_def avail_def PATH_MAX_def announced_def valid_small_transfer)
  moreover have "arrays ?w" using calling_arrays by (simp add: arrays_def)
  ultimately have "serving 3 4 [] requests0 ?w"
    by (simp add: serving_def) (simp add: requests0_def calling_def unstarted_def daemon0_def writable_ev_def list_all_iff)
  moreover have "network_up 3 4 5 calling" by (simp add: network_up_def calling_def unstarted_def daemon0_def)
  ultimately show ?thesis using starting0_starts calling_arrays by (simp add: daemon_ready_def)
qed

lemma called_ready: "thread_ready 7 3 4 ''pw'' ''/srv/'' (map job_of requests0) locals0 called"
  unfolding requests0_jobs
  by (simp add: thread_ready_def called_def) (intro exI [of _ "[7]"]; simp)

lemma calling_sends:
  "fst calling_run = Ret ()"
  "tx (snd calling_run) 3 = greeting token0 @ greeting ''pw'' @ session_cmd jobs0"
  "tx (snd calling_run) 4 = greeting token0 @ session_data jobs0"
proof -
  have "avail 3 calling = ack @ concat (replicate 2 ack)" by (simp add: numeral_3_eq_3 numeral_2_eq_2)
  from start_serving [OF calling_ready this] obtain addr w1 where
    w1: "\<And>sts. dmn_main starting0 4 (cs ''host'') [] sts calling = dmn_rounds addr sts w1"
    "serving 3 4 [] requests0 w1" "avail 3 w1 = concat (replicate 2 ack)"
    "tx w1 = (tx calling)(3 := tx calling 3 @ greeting token0 @ greeting ''pw'', 4 := tx calling 4 @ greeting token0)" by blast
  have "length requests0 = 2" by (simp add: requests0_def)
  then obtain w' where w': "dmn_rounds addr [(False, 0), (False, 0)] w1 = (Ret (), w')" "answered 3 4 [] requests0 w1 w'"
    using serving_rounds [of 3 4 "[]" requests0 "[]" w1 "[]" "[(False, 0), (False, 0)]" addr] w1(2,3) by auto
  have run: "calling_run = (Ret (), w')" using w1(1) w'(1) by (simp add: calling_run_def)
  show "fst calling_run = Ret ()" unfolding run by simp
  show "tx (snd calling_run) 3 = greeting token0 @ greeting ''pw'' @ session_cmd jobs0"
    "tx (snd calling_run) 4 = greeting token0 @ session_data jobs0"
    unfolding run snd_conv using w'(2) by (auto simp: answered_def w1(4) requests0_jobs)
qed

lemma called_answers: "tx (snd called_run) 3 = concat (replicate 3 ack)"
proof -
  have st: "at_start 7 3 4 ''pw'' ''pw'' (session_cmd jobs0 @ []) called"
    using thread_at_start [OF called_ready, of "session_cmd jobs0"] by simp
  have c: "clients called 7 = Some client0" by (simp add: called_def)
  have "in_session 7 3 4 ''/srv/'' jobs0 [] [] locals0 (admitted 7 client0 3 ''pw'' ACK_OK called)"
    by (rule admitted_session [OF st c]) (use called_ready in \<open>auto simp: thread_ready_def requests0_jobs\<close>)
  moreover have "silent (rx (admitted 7 client0 3 ''pw'' ACK_OK called) 3)" using called_ready by (simp add: thread_ready_def)
  ultimately obtain v where "thr_loop 7 locals0 (admitted 7 client0 3 ''pw'' ACK_OK called) = (Block, v)"
    "tx v = (tx (admitted 7 client0 3 ''pw'' ACK_OK called))(3 := tx (admitted 7 client0 3 ''pw'' ACK_OK called) 3 @
       concat (replicate (length jobs0) ack))"
    using session_waits by blast
  then show ?thesis using thr_func_start [OF st c, of message0 NUL locals0]
    by (simp add: called_run_def jobs0_def numeral_3_eq_3)
qed

lemma calling_called: "dialogue 3 4 token0 calling (snd calling_run) 3 4 called (snd called_run)"
  by (simp add: dialogue_def wired_def calling_sends called_answers)

end
