(* ===== verification/Invariant_Properties.thy ===== *)
theory Invariant_Properties
  imports Session_Example
begin

text \<open>What holds of the daemon at every moment, from its start on and whatever it meets.\<close>





end
