(* ===== verification/Library_Properties.thy ===== *)
theory Library_Properties
  imports Libllncp
begin

text \<open>
  What \<^verbatim>\<open>src/libs/libllncp.c\<close> promises the three programs, each with a run that meets its
  hypotheses: exact reads, writes that hand over a prefix whatever the network does and all of it
  when it behaves, messages that arrive as they were sent, and the limits of each.
\<close>

section \<open>States to run on\<close>

text \<open>No connection has anything in store.\<close>

definition net0 :: net where
  "net0 = \<lparr>rx = \<lambda>_. [], tx = \<lambda>_. [], snd_evs = [], sel_evs = [], closed = [], errno = 0,
     sigpipe_ignored = False\<rparr>"

definition net_rx :: "fd \<Rightarrow> rx_ev list \<Rightarrow> net" where
  "net_rx s q = net0\<lparr>rx := (\<lambda>_. [])(s := q)\<rparr>"

definition writable :: sel_ev where
  "writable = \<lparr>sel_ret = 1, sel_write = True, sel_server = False, sel_client = False\<rparr>"

text \<open>What a run has put on a socket, and on which outcome it ended.\<close>

definition put_on :: "fd \<Rightarrow> ('z net_scheme, 'a) prog \<Rightarrow> 'z net_scheme \<Rightarrow> byte list" where
  "put_on s m w = drop (length (tx w s)) (tx (snd (m w)) s)"

lemma net_examples [simp]:
  "avail s (net_rx s q) = stream q" "rx (net_rx s q) s = q" "tx (net_rx s q) = (\<lambda>_. [])"
  "snd_evs (net_rx s q) = []" "sel_evs (net_rx s q) = []" "sel_write writable"
  by (simp_all add: net_rx_def net0_def avail_def writable_def)

section \<open>Reading\<close>

text \<open>C20: \<open>recv_bytes\<close> stores exactly the bytes asked for, in order, whatever segments they
  arrive in, and takes no byte more off the connection.\<close>

theorem recv_bytes_exact:
  assumes "off + unat bytes \<le> length buf" and "unat bytes \<le> length (avail sock w)"
  shows "\<exists>w'. recv_bytes buf off sock bytes w =
      (Ret (EXIT_SUCCESS, take off buf @ take (unat bytes) (avail sock w) @ drop (off + unat bytes) buf), w') \<and>
    avail sock w' = drop (unat bytes) (avail sock w) \<and> (\<forall>t. t \<noteq> sock \<longrightarrow> rx w' t = rx w t) \<and> tx w' = tx w"
  using recv_bytes_ok [OF assms] assms(2) by (simp add: patched_def min_def)

theorem recv_bytes_exact_witness:
  "\<exists>w'. recv_bytes [NUL, NUL, NUL, NUL] 1 5 3 (net_rx 5 [Seg ''ab'', Seg ''cd'']) =
      (Ret (EXIT_SUCCESS, [NUL, CHR ''a'', CHR ''b'', CHR ''c'']), w') \<and> avail 5 w' = ''d''"
  using recv_bytes_exact [of 1 3 "[NUL, NUL, NUL, NUL]" 5 "net_rx 5 [Seg ''ab'', Seg ''cd'']"] by auto

text \<open>A connection that ends early is reported as \<open>SOCKET_CLOSED\<close>.\<close>

theorem recv_bytes_eof:
  assumes "off + unat bytes \<le> length buf" and "length (avail sock w) < unat bytes" and "closes (rx w sock)"
  shows "\<exists>w'. recv_bytes buf off sock bytes w =
    (Ret (SOCKET_CLOSED, take off buf @ avail sock w @ drop (off + length (avail sock w)) buf), w')"
  using recv_bytes_short [OF assms] by (auto simp: patched_def)

theorem recv_bytes_eof_witness:
  "\<exists>w'. recv_bytes [NUL, NUL] 0 5 2 (net_rx 5 [Seg ''a'', Eof]) = (Ret (SOCKET_CLOSED, [CHR ''a'', NUL]), w')"
  using recv_bytes_eof [of 0 2 "[NUL, NUL]" 5 "net_rx 5 [Seg ''a'', Eof]"] by simp

text \<open>\<open>recv_bytes\<close> never returns \<open>EXIT_FAILURE\<close>: whatever \<^verbatim>\<open>recv\<close> does, errors included,
  the call waits or returns \<open>EXIT_SUCCESS\<close> or \<open>SOCKET_CLOSED\<close>, since the code tests \<open>n < 0\<close> on an
  unsigned number.\<close>

theorem recv_bytes_never_fails:
  assumes "off + unat bytes \<le> length buf"
  shows "fst (recv_bytes buf off sock bytes w) = Block \<or>
    (\<exists>code buf'. fst (recv_bytes buf off sock bytes w) = Ret (code, buf') \<and>
      code \<in> {EXIT_SUCCESS, SOCKET_CLOSED} \<and> length buf' = length buf)"
  using recv_bytes_codes [OF _ assms, of sock w "fst (recv_bytes buf off sock bytes w)"
      "snd (recv_bytes buf off sock bytes w)"] by auto

theorem recv_bytes_never_fails_witness:
  "fst (recv_bytes [NUL, NUL] 0 5 2 (net_rx 5 [RErr 104])) = Block \<or>
    (\<exists>code buf'. fst (recv_bytes [NUL, NUL] 0 5 2 (net_rx 5 [RErr 104])) = Ret (code, buf') \<and>
      code \<in> {EXIT_SUCCESS, SOCKET_CLOSED} \<and> length buf' = 2)"
  using recv_bytes_never_fails [of 0 2 "[NUL, NUL]" 5 "net_rx 5 [RErr 104]"] by (simp add: numeral_2_eq_2)

text \<open>When the first \<^verbatim>\<open>recv\<close> fails, \<open>recv_bytes\<close> reports success though no byte was
  received and the array is as before.\<close>

theorem recv_error_reads_as_success:
  assumes "rx w sock = RErr e # q" and "0 < bytes"
  shows "\<exists>w'. recv_bytes buf off sock bytes w = (Ret (EXIT_SUCCESS, buf), w') \<and> rx w' sock = q"
  using recv_bytes_error_first [OF assms] by simp

theorem recv_error_reads_as_success_witness:
  "\<exists>w'. recv_bytes ''old'' 0 5 3 (net_rx 5 [RErr 104, Seg ''new'']) = (Ret (EXIT_SUCCESS, ''old''), w') \<and>
    rx w' 5 = [Seg ''new'']"
  using recv_error_reads_as_success [of "net_rx 5 [RErr 104, Seg ''new'']" 5 104 "[Seg ''new'']" 3 "''old''" 0]
  by simp

lemma uint_negative:
  assumes "len < 0" and "- (2 ^ 63) \<le> len"
  shows "uint (word_of_int len :: u64) = len + 2 ^ 64"
proof -
  have "(len + 2 ^ 64) mod 2 ^ 64 = len + 2 ^ 64"
    by (rule mod_pos_pos_trivial) (use assms in simp_all)
  moreover have "(len + 2 ^ 64) mod 2 ^ 64 = len mod 2 ^ 64" by (rule mod_add_self2)
  moreover have "uint (word_of_int len :: u64) = len mod 2 ^ 64" by (simp add: uint_word_of_int)
  ultimately show ?thesis by simp
qed

text \<open>\<open>load_path\<close> checks a path's length against \<open>PATH_MAX\<close> from above only: a negative
  length passes, \<open>recv_bytes\<close> reads it as nearly \<open>2 ^ 64\<close>, and once the peer has sent more bytes
  than the array has room for, it writes past the array.\<close>

theorem load_path_negative_length:
  assumes "len < 0" and "- (2 ^ 63) \<le> len" and "off \<le> length path" and "length path \<le> 2 * PATH_MAX"
    and "length path < off + length (avail s w)"
  shows "fst (load_path len s path off w) = Ub"
proof -
  have "length path < off + unat (word_of_int len :: u64)"
    using assms(2,4) by (simp add: unat_eq_nat_uint uint_negative [OF assms(1,2)] PATH_MAX_def)
  from recv_bytes_overrun [OF assms(3) this assms(5)] show ?thesis
    using assms(1) by (simp add: load_path_def PATH_MAX_def)
qed

theorem load_path_negative_length_witness:
  "fst (load_path (- 1) 5 (replicate PATH_MAX NUL) 0 (net_rx 5 [Seg (replicate (PATH_MAX + 1) CHR ''a'')])) = Ub"
  by (rule load_path_negative_length) simp_all

section \<open>Writing\<close>

text \<open>C21: whatever \<^verbatim>\<open>select\<close> and \<^verbatim>\<open>send\<close> answer, \<open>send_bytes\<close> hands the kernel a prefix of the
  bytes to send, once each and in order, and all of them when it reports success.\<close>

theorem send_bytes_in_order:
  "\<exists>k. tx (snd (send_bytes buf off s bytes w)) = (tx w)(s := tx w s @ take k (take (unat bytes) (drop off buf))) \<and>
    (fst (send_bytes buf off s bytes w) = Ret EXIT_SUCCESS \<longrightarrow>
      tx (snd (send_bytes buf off s bytes w)) = (tx w)(s := tx w s @ take (unat bytes) (drop off buf)))"
  using send_loop_part_sent [of buf off s bytes 0 w "fst (send_bytes buf off s bytes w)"
      "snd (send_bytes buf off s bytes w)"]
  by (auto simp: send_bytes_def part_sent_def handed_def)

theorem send_bytes_in_order_witness:
  "\<exists>k. tx (snd (send_bytes ''abcd'' 1 5 3 (net0\<lparr>sel_evs := [writable, writable], snd_evs := [SOk 1, SErr 32]\<rparr>))) =
      (\<lambda>_. [])(5 := take k ''bcd'')"
  using send_bytes_in_order [of "''abcd''" 1 5 3 "net0\<lparr>sel_evs := [writable, writable], snd_evs := [SOk 1, SErr 32]\<rparr>"]
  by (auto simp: net0_def)

text \<open>C34: on a socket that takes at least one byte whenever it is reported writable, \<open>send_bytes\<close>
  succeeds within as many rounds as there are bytes.\<close>

theorem send_bytes_succeeds:
  assumes "off + unat bytes \<le> length buf" and "bytes \<noteq> - 1" and "list_all takes_some (snd_evs w)"
    and "list_all sel_write (sel_evs w)" and "unat bytes \<le> length (sel_evs w)"
  shows "fst (send_bytes buf off s bytes w) = Ret EXIT_SUCCESS"
  using send_loop_live [of 0 bytes off buf w s] assms by (simp add: send_bytes_def)

theorem send_bytes_succeeds_witness:
  "fst (send_bytes ''abcd'' 1 5 3 (net0\<lparr>sel_evs := [writable, writable, writable], snd_evs := [SOk 1, SOk 1]\<rparr>)) =
    Ret EXIT_SUCCESS"
  by (rule send_bytes_succeeds) simp_all

text \<open>When the socket's buffer is full, \<^verbatim>\<open>send\<close> fails with \<open>EWOULDBLOCK\<close> on the non-blocking
  socket and \<open>send_bytes\<close> gives up with \<open>SOCKET_CLOSED\<close>: the test for that error can only hold
  when \<^verbatim>\<open>send\<close> returned 0.\<close>

theorem send_bytes_full_buffer:
  assumes "sel_evs w = e # es" and "sel_write e" and "snd_evs w = SErr EWOULDBLOCK # fs"
    and "0 < bytes" and "off + unat bytes \<le> length buf"
  shows "fst (send_bytes buf off s bytes w) = Ret SOCKET_CLOSED"
  by (rule send_bytes_would_block [OF assms])

theorem send_bytes_full_buffer_witness:
  "fst (send_bytes ''abcd'' 1 5 3 (net0\<lparr>sel_evs := [writable, writable], snd_evs := [SErr EWOULDBLOCK]\<rparr>)) =
    Ret SOCKET_CLOSED"
  by (rule send_bytes_full_buffer [of _ writable "[writable]" "[]"]) simp_all

section \<open>Messages\<close>

text \<open>C22: what \<open>send_message\<close> puts on one end, \<open>receive_message\<close> reads off the other: the flag
  and the text, whatever follows, and it takes exactly the message off the connection.\<close>

theorem message_round_trip:
  assumes "snd_evs w = []" and "c_str message = Some t" and "length t \<le> 252"
    and "avail r v = put_on s (send_message s flag message) w @ rest" and "253 \<le> length buf"
  shows "fst (send_message s flag message w) = Ret EXIT_SUCCESS \<and>
    (\<exists>v'. receive_message r flag0 buf v =
        (Ret (EXIT_SUCCESS, flag, text_body t @ drop (length (text_body t)) buf), v') \<and> avail r v' = rest)"
proof -
  note snt = send_message_ideal [OF assms(1-3), of s flag]
  have body: "length (text_body t) \<le> 253" using assms(3) by (simp add: text_body_def)
  have av: "avail r v = enc_message (flag, text_body t) @ rest"
    using assms(4) snt by (simp add: put_on_def)
  then have "dec_message (avail r v) = Some ((flag, text_body t), rest)"
    using messages.dec_enc [of "(flag, text_body t)" rest] body by (simp add: valid_message_def)
  from receive_message_spec [OF this, of buf flag0] show ?thesis
    using snt body assms(5) av by (simp add: patched_0 enc_message_def)
qed

theorem message_round_trip_witness:
  "fst (send_message 5 (as_char ACK_ERROR) (cs ''no space'') net0) = Ret EXIT_SUCCESS \<and>
    (\<exists>v'. receive_message 7 NUL (replicate MESSAGE_BUFFERSIZE NUL)
        (net_rx 7 [Seg (put_on 5 (send_message 5 (as_char ACK_ERROR) (cs ''no space'')) net0 @ ''more'')]) =
      (Ret (EXIT_SUCCESS, as_char ACK_ERROR, cs ''no space'' @ replicate 246 NUL), v') \<and> avail 7 v' = ''more'')"
proof -
  have body: "text_body ''no space'' @ drop (length (text_body ''no space'')) (replicate MESSAGE_BUFFERSIZE NUL) =
      cs ''no space'' @ replicate 246 NUL"
    by (simp add: text_body_def cs_def MESSAGE_BUFFERSIZE_def)
  show ?thesis
    unfolding body [symmetric]
    by (rule message_round_trip) (simp_all add: net0_def MESSAGE_BUFFERSIZE_def)
qed

text \<open>A text of more than 252 characters does not fit \<open>message_buf\<close> behind its header:
  \<open>send_message\<close> writes past the array.\<close>

theorem message_overflow:
  assumes "c_str message = Some t"
  shows "fst (send_message s flag message w) = Ub \<longleftrightarrow> 252 < length t"
proof (cases "252 < length t")
  case True
  then show ?thesis using message_frame_too_long [OF assms True] by (simp add: send_message_def)
next
  case False
  then have fr: "message_frame flag message = Some (enc_message (flag, text_body t))"
    by (intro message_frame_text [OF assms]) simp
  show ?thesis
    using False
    by (auto simp: send_message_def fr bindM_def os_send_def split: list.splits snd_ev.splits)
qed

theorem message_overflow_witness:
  "fst (send_message 5 NUL (replicate 253 CHR ''a'' @ [NUL]) net0) = Ub \<longleftrightarrow>
    252 < length (replicate 253 CHR ''a'')"
  by (rule message_overflow) simp

end
