(* ===== verification/Server_System.thy ===== *)
theory Server_System
  imports Server_Confined Server_Accept Client_Steps
begin

text \<open>
  The whole server of \<^verbatim>\<open>src/server.c\<close> at work: the main thread and the threads of the clients, on
  one shared state, with a peer and an operating system that may do anything in between.  A step is
  one round of one thread that ends: a round of \<open>main\<close>, the beginning of \<open>thr_func\<close> up to the
  answer to the password, or one transfer.  A thread is \<open>Starting\<close> after \<^verbatim>\<open>pthread_create\<close>
  and \<open>Serving\<close>, with its local variables, once it is in its loop.  Rounds of different threads
  follow each other in any order; within a round no other thread runs.
\<close>

section \<open>The steps\<close>

text \<open>\<open>thr_func\<close> up to its loop.  \<open>False\<close> is the \<^verbatim>\<open>return\<close> after a bad password.\<close>

definition thr_enter :: "addr \<Rightarrow> byte list \<Rightarrow> byte \<Rightarrow> bool srv" where
  "thr_enter client message message_flag =
     bindM (getM ntoa) (\<lambda>inet_ntoa.
     bindM (update_client client (\<lambda>c. c\<lparr>ip_address := inet_ntoa (command_info c)\<rparr>)) (\<lambda>_.
     bindM (client_at client) (\<lambda>c.
     bindM (print_log_message (ip_address c) ''connected to the server'' None False) (\<lambda>_.
     bindM (authenticate client message message_flag) (\<lambda>r.
     if r \<noteq> EXIT_SUCCESS then
       bindM (print_log_message (ip_address c) ''BAD AUTH'' None True) (\<lambda>_.
       bindM (dealloc client) (\<lambda>_. retM False))
     else retM True)))))"

lemma bindM_unit: "bindM m (\<lambda>_. retM ()) = m" "bindM m (\<lambda>_. Pair (Ret ())) = m"
  by (auto simp: bindM_def fun_eq_iff split: prod.splits result.splits)

lemma bindM_if: "bindM (if b then m else n) f = (if b then bindM m f else bindM n f)"
  by simp

lemma thr_func_enter:
  "thr_func client message flag l = bindM (thr_enter client message flag) (\<lambda>entered. if entered then thr_loop client l else retM ())"
  by (simp add: thr_func_def thr_enter_def bindM_assoc bindM_if bindM_unit cong: if_cong)

datatype phase = Starting | Serving thr_locals

type_synonym system = "server \<times> (addr \<rightharpoonup> phase)"

text \<open>What happens outside: bytes, ends and errors arrive on sockets, connections on the listening
  one; the operating system decides on the results of the coming calls; time goes on.\<close>

definition environment :: "server \<Rightarrow> server \<Rightarrow> bool" where
  "environment w w' \<longleftrightarrow> (\<exists>arriving calling es fo mk fw t.
     w' = w\<lparr>rx := (\<lambda>s. rx w s @ arriving s), accepts := accepts w @ calling, snd_evs := es,
       fopen_evs := fo, mkdir_evs := mk, fwrite_evs := fw, now := t\<rparr>)"

text \<open>A step is labelled with the client whose thread makes it.  The memory that \<^verbatim>\<open>malloc\<close> returns
  and the uninitialised locals hold anything, in arrays of the declared sizes.\<close>

inductive srv_step :: "addr option \<Rightarrow> system \<Rightarrow> system \<Rightarrow> bool" where
  outside: "environment w w' \<Longrightarrow> srv_step None (w, ts) (w', ts)"
| accept: "srv_main_round c0 e0 flag message sock no w = (Ret a, w') \<Longrightarrow> length (file_path c0) = PATH_MAX \<Longrightarrow>
    length message = MESSAGE_BUFFERSIZE \<Longrightarrow> srv_step None (w, ts) (w', ts(a \<mapsto> Starting))"
| enter: "ts a = Some Starting \<Longrightarrow> thr_enter a message flag w = (Ret True, w') \<Longrightarrow>
    length message = MESSAGE_BUFFERSIZE \<Longrightarrow> locals_ok l \<Longrightarrow> srv_step (Some a) (w, ts) (w', ts(a \<mapsto> Serving l))"
| shut_out: "ts a = Some Starting \<Longrightarrow> thr_enter a message flag w = (Ret False, w') \<Longrightarrow>
    length message = MESSAGE_BUFFERSIZE \<Longrightarrow> srv_step (Some a) (w, ts) (w', ts(a := None))"
| serve: "ts a = Some (Serving l) \<Longrightarrow> thr_iteration a l w = (Ret (True, l'), w') \<Longrightarrow>
    srv_step (Some a) (w, ts) (w', ts(a \<mapsto> Serving l'))"
| return: "ts a = Some (Serving l) \<Longrightarrow> thr_iteration a l w = (Ret (False, l'), w') \<Longrightarrow>
    srv_step (Some a) (w, ts) (w', ts(a := None))"
| quit: "ts a = Some (Serving l) \<Longrightarrow> thr_iteration a l w = (Exit e, w') \<Longrightarrow>
    srv_step (Some a) (w, ts) (w', ts(a := None))"

inductive_cases srv_stepE [consumes 1, case_names outside accept enter shut_out serve return quit]:
  "srv_step who (w, ts) (w', ts')"

text \<open>A round that does not end, because it waits, or because it is the last one of the process:
  what it has done by then.  A signal interrupts the process between two rounds.\<close>

inductive srv_stuck :: "system \<Rightarrow> server \<Rightarrow> bool" where
  accept: "srv_main_round c0 e0 flag message sock no w = (r, w') \<Longrightarrow> length (file_path c0) = PATH_MAX \<Longrightarrow>
    length message = MESSAGE_BUFFERSIZE \<Longrightarrow> srv_stuck (w, ts) w'"
| enter: "ts a = Some Starting \<Longrightarrow> thr_enter a message flag w = (r, w') \<Longrightarrow>
    length message = MESSAGE_BUFFERSIZE \<Longrightarrow> srv_stuck (w, ts) w'"
| serve: "ts a = Some (Serving l) \<Longrightarrow> thr_iteration a l w = (r, w') \<Longrightarrow> srv_stuck (w, ts) w'"
| interrupt: "srv_signal_handler w = (r, w') \<Longrightarrow> srv_stuck (w, ts) w'"

definition srv_run :: "system \<Rightarrow> system \<Rightarrow> bool" where
  "srv_run = (\<lambda>s s'. \<exists>who. srv_step who s s')\<^sup>*\<^sup>*"

lemma srv_run_induct [consumes 1, case_names start step]:
  assumes "srv_run s s'" and "P s" and "\<And>who t u. srv_run s t \<Longrightarrow> srv_step who t u \<Longrightarrow> P t \<Longrightarrow> P u"
  shows "P s'"
  using assms unfolding srv_run_def by (induction rule: rtranclp_induct) blast+

end
