(* ===== verification/Server_Frame.thy ===== *)
theory Server_Frame
  imports Server_System
begin

text \<open>
  What one client's thread leaves alone: the other clients (but for their links), the sockets that
  are not its own, the waiting list, the connections to come and the settings of the server.  The
  invariant \<open>elsewhere\<close> compares a state with an earlier one, and every piece of the thread keeps
  it.
\<close>

section \<open>The clients' data\<close>

text \<open>Linking a client changes the links of clients only, and so does unlinking one, which also
  frees it.\<close>

definition core :: "client_info \<Rightarrow> client_info" where
  "core c = c\<lparr>ci_next := None, ci_before := None\<rparr>"

lemma core_links [simp]:
  "core (c\<lparr>ci_next := p\<rparr>) = core c" "core (c\<lparr>ci_before := p\<rparr>) = core c"
  by (simp_all add: core_def)

lemma core_fields [simp]:
  "file_path (core c) = file_path c" "command_socket (core c) = command_socket c" "data_socket (core c) = data_socket c"
  by (simp_all add: core_def)

lemma core_eqD:
  assumes "core c = core d"
  shows "file_path c = file_path d" "command_socket c = command_socket d" "data_socket c = data_socket d"
  using arg_cong [OF assms, of file_path] arg_cong [OF assms, of command_socket] arg_cong [OF assms, of data_socket]
  by simp_all

definition same_cores :: "client_heap \<Rightarrow> client_heap \<Rightarrow> bool" where
  "same_cores h h' \<longleftrightarrow> (\<forall>a. map_option core (h' a) = map_option core (h a))"

lemma same_cores_refl [simp]: "same_cores h h"
  by (simp add: same_cores_def)

lemma same_cores_trans: "same_cores h h' \<Longrightarrow> same_cores h' h'' \<Longrightarrow> same_cores h h''"
  by (simp add: same_cores_def)

lemma upd_client_cores:
  "upd_client p f h = Some h' \<Longrightarrow> (\<And>c. core (f c) = core c) \<Longrightarrow> same_cores h h'"
  by (auto simp: upd_client_def same_cores_def split: bind_splits)

lemma link_client_cores:
  assumes "link_client p l h = Some (l', h')"
  shows "same_cores h h'"
proof -
  from assms obtain h1 h2 where "upd_client p (\<lambda>c. c\<lparr>ci_next := None\<rparr>) h = Some h1"
    "upd_client p (\<lambda>c. c\<lparr>ci_before := l\<rparr>) h1 = Some h2"
    "h' = h2 \<or> upd_client l (\<lambda>c. c\<lparr>ci_next := p\<rparr>) h2 = Some h'"
    unfolding link_client_def by (auto split: bind_splits if_splits)
  then show ?thesis by (metis upd_client_cores same_cores_trans core_links same_cores_refl)
qed

lemma unlink_client_cores:
  assumes "unlink_client (Some a) l h = Some (l', h')"
  shows "h' a = None" and "x \<noteq> a \<Longrightarrow> map_option core (h' x) = map_option core (h x)"
proof -
  from assms obtain g where g: "h' = g(a := None)" "same_cores h g"
    unfolding unlink_client_def
    by (auto split: bind_splits if_splits dest!: upd_client_cores intro: same_cores_trans)
  then show "h' a = None" and "x \<noteq> a \<Longrightarrow> map_option core (h' x) = map_option core (h x)"
    by (simp_all add: same_cores_def)
qed

lemma same_cores_path:
  assumes "same_cores h h'" and "h' a = Some c'"
  shows "\<exists>c. h a = Some c \<and> file_path c' = file_path c"
proof -
  have "map_option core (h a) = map_option core (h' a)" using assms(1) unfolding same_cores_def by metis
  then have "map_option core (h a) = Some (core c')" using assms(2) by simp
  then obtain c where "h a = Some c" "core c = core c'" by auto
  then show ?thesis using core_eqD(1) by metis
qed

section \<open>The frame of a thread\<close>

definition elsewhere :: "addr \<Rightarrow> fd \<Rightarrow> fd \<Rightarrow> server \<Rightarrow> server \<Rightarrow> bool" where
  "elsewhere b cm dt v w \<longleftrightarrow>
     (\<forall>c. clients w b = Some c \<longrightarrow> command_socket c = cm \<and> data_socket c = dt) \<and>
     (\<forall>x. x \<noteq> b \<longrightarrow> map_option core (clients w x) = map_option core (clients v x)) \<and>
     (\<forall>s. s \<noteq> cm \<longrightarrow> s \<noteq> dt \<longrightarrow> rx w s = rx v s \<and> tx w s = tx v s) \<and>
     fresh_addr w = fresh_addr v \<and> els w = els v \<and> head w = head v \<and> accepts w = accepts v \<and>
     password w = password v \<and> dest_chroot w = dest_chroot v \<and> is_dest_chroot w = is_dest_chroot v"

lemma elsewhere_refl:
  "clients w b = Some c \<Longrightarrow> elsewhere b (command_socket c) (data_socket c) w w"
  by (simp add: elsewhere_def)

lemma elsewhere_update [simp]:
  "elsewhere b cm dt v (w\<lparr>snd_evs := x1\<rparr>) = elsewhere b cm dt v w"
  "elsewhere b cm dt v (w\<lparr>errno := x2\<rparr>) = elsewhere b cm dt v w"
  "elsewhere b cm dt v (w\<lparr>closed := x3\<rparr>) = elsewhere b cm dt v w"
  "elsewhere b cm dt v (w\<lparr>logfile := x4\<rparr>) = elsewhere b cm dt v w"
  "elsewhere b cm dt v (w\<lparr>fs := x5\<rparr>) = elsewhere b cm dt v w"
  "elsewhere b cm dt v (w\<lparr>fopen_evs := x6\<rparr>) = elsewhere b cm dt v w"
  "elsewhere b cm dt v (w\<lparr>mkdir_evs := x7\<rparr>) = elsewhere b cm dt v w"
  "elsewhere b cm dt v (w\<lparr>fwrite_evs := x8\<rparr>) = elsewhere b cm dt v w"
  "elsewhere b cm dt v (w\<lparr>last_client := x9\<rparr>) = elsewhere b cm dt v w"
  by (simp_all add: elsewhere_def)

lemma elsewhere_sockets:
  assumes "s = cm \<or> s = dt" and "elsewhere b cm dt v w"
  shows "elsewhere b cm dt v (w\<lparr>rx := (rx w)(s := q)\<rparr>)" "elsewhere b cm dt v (w\<lparr>tx := (tx w)(s := t)\<rparr>)"
  using assms by (auto simp: elsewhere_def)

lemma keeps_elsewhere_lib [keeps_intros]:
  assumes "s = cm \<or> s = dt"
  shows "keeps (elsewhere b cm dt v) (recv_bytes buf off s bytes)" "keeps (elsewhere b cm dt v) (send_message s flag m)"
    "keeps (elsewhere b cm dt v) (receive_message s flag m)" "keeps (elsewhere b cm dt v) (load_path len s path off)"
proof -
  show recv: "keeps (elsewhere b cm dt v) (recv_bytes buf off s bytes)" for buf off bytes
    by (rule keepsI) (use recv_bytes_frame elsewhere_sockets(1) [OF assms] in \<open>metis prod.collapse\<close>)
  show "keeps (elsewhere b cm dt v) (load_path len s path off)"
    unfolding load_path_def by (intro keeps_intros recv)
  show "keeps (elsewhere b cm dt v) (send_message s flag m)"
    by (rule keepsI) (use send_message_frame elsewhere_sockets(2) [OF assms] elsewhere_update(1,2) in \<open>metis prod.collapse\<close>)
  show "keeps (elsewhere b cm dt v) (receive_message s flag m)"
    by (rule keepsI) (use receive_message_frame elsewhere_sockets(1) [OF assms] in \<open>metis prod.collapse\<close>)
qed

lemma keeps_elsewhere_os [keeps_intros]:
  "keeps (elsewhere b cm dt v) (print_log_message ip m p e)" "keeps (elsewhere b cm dt v) (os_close s)"
  "keeps (elsewhere b cm dt v) (os_fopen_wb path)" "keeps (elsewhere b cm dt v) (os_mkdir path)"
  "keeps (elsewhere b cm dt v) (os_fwrite bs path)" "keeps P (strerror)" "keeps P (client_at a)"
  by (auto simp: keeps_def print_log_message_def os_close_def os_fopen_wb_def os_mkdir_def os_fwrite_def strerror_def
      client_at_def orUb_def split: list.splits option.splits)

lemma keeps_elsewhere_update [keeps_intros]:
  "(\<And>c. command_socket (f c) = command_socket c) \<Longrightarrow> (\<And>c. data_socket (f c) = data_socket c) \<Longrightarrow>
    keeps (elsewhere b cm dt v) (update_client b f)"
  by (auto simp: keeps_def update_client_def elsewhere_def split: option.splits)

text \<open>Whoever looks at the client finds the two sockets.\<close>

lemma keeps_client_bindM [keeps_intros]:
  assumes "\<And>c. command_socket c = cm \<Longrightarrow> data_socket c = dt \<Longrightarrow> keeps (elsewhere b cm dt v) (f c)"
  shows "keeps (elsewhere b cm dt v) (bindM (client_at b) f)"
proof (rule keepsI)
  fix w assume e: "elsewhere b cm dt v w"
  show "elsewhere b cm dt v (snd (bindM (client_at b) f w))"
  proof (cases "clients w b")
    case None
    then show ?thesis using e by (simp add: client_at_def bindM_def)
  next
    case (Some c)
    then have "keeps (elsewhere b cm dt v) (f c)" using e assms by (simp add: elsewhere_def)
    then show ?thesis using e Some by (simp add: keeps_def bindM_def)
  qed
qed

lemma keeps_elsewhere_dealloc [keeps_intros]: "keeps (elsewhere b cm dt v) (dealloc b)"
  unfolding dealloc_def
proof (rule keeps_client_bindM, rule keeps_bindM, rule keeps_elsewhere_os, rule keeps_bindM, rule keeps_elsewhere_os)
  show "keeps (elsewhere b cm dt v) (bindM (getM (\<lambda>w. unlink_client (Some b) (last_client w) (clients w))) (\<lambda>r.
      bindM (orUb r) (\<lambda>(last, h). modifyM (\<lambda>w. w\<lparr>last_client := last, clients := h\<rparr>))))" (is "keeps _ ?m")
  proof (rule keepsI)
    fix w assume e: "elsewhere b cm dt v w"
    show "elsewhere b cm dt v (snd (?m w))"
    proof (cases "unlink_client (Some b) (last_client w) (clients w)")
      case None
      with e show ?thesis by simp
    next
      case (Some r)
      obtain lst h where r: "r = (lst, h)" by fastforce
      note u = unlink_client_cores [OF Some [unfolded r]]
      have "elsewhere b cm dt v (w\<lparr>last_client := lst, clients := h\<rparr>)"
        using e u unfolding elsewhere_def by simp
      then show ?thesis using Some r by simp
    qed
  qed
qed

lemma keeps_elsewhere_ends [keeps_intros]:
  "keeps (elsewhere b cm dt v) (disconnected b)" "keeps (elsewhere b cm dt v) (unknown_protocol b)"
  unfolding disconnected_def unknown_protocol_def by (intro keeps_intros)+

lemma keeps_elsewhere_wrappers [keeps_intros]:
  assumes "s = cm \<or> s = dt"
  shows "keeps (elsewhere b cm dt v) (srv_recv_bytes_wrapper buf off s bytes b)"
    "keeps (elsewhere b cm dt v) (srv_send_message_wrapper s flag m b)"
  unfolding srv_recv_bytes_wrapper_def srv_send_message_wrapper_def by (intro keeps_intros assms)+

lemma keeps_elsewhere_talk [keeps_intros]:
  "keeps (elsewhere b cm dt v) (bad_path b p)" "keeps (elsewhere b cm dt v) (fwrite_failed b)"
  "keeps (elsewhere b cm dt v) (ack_error b)" "keeps (elsewhere b cm dt v) (ack_ok b)"
  "keeps (elsewhere b cm dt v) (discard_block n buf b)" "keeps (elsewhere b cm dt v) (write_block n buf file b)"
  unfolding bad_path_def fwrite_failed_def ack_error_def ack_ok_def discard_block_def write_block_def
  by (intro keeps_intros; simp)+

lemma keeps_elsewhere_blocks [keeps_intros]:
  "keeps (elsewhere b cm dt v) (write_blocks i buf file b)" "keeps (elsewhere b cm dt v) (discard_blocks i buf b)"
  by (induction i arbitrary: buf) (simp_all add: keeps_basic keeps_bindM keeps_elsewhere_talk)

lemma keeps_elsewhere_data [keeps_intros]:
  "keeps (elsewhere b cm dt v) (write_data buf da file b)" "keeps (elsewhere b cm dt v) (discard_data da b buf)"
  unfolding write_data_def discard_data_def Let_def by (intro keeps_intros)+

lemma keeps_elsewhere_header [keeps_intros]:
  "keeps (elsewhere b cm dt v) (load_dest_file_attrs buf da b)" "keeps (elsewhere b cm dt v) (parse_dest_file_attrs buf da b)"
  unfolding load_dest_file_attrs_def parse_dest_file_attrs_def Let_def
  by (intro keeps_intros; simp)+

lemma keeps_elsewhere_path [keeps_intros]: "keeps (elsewhere b cm dt v) (srv_load_path_wrapper n b)"
  unfolding srv_load_path_wrapper_def by (intro keeps_intros; simp)+

lemma keeps_elsewhere_command [keeps_intros]: "keeps (elsewhere b cm dt v) (thr_command b da buf)"
  unfolding thr_command_def by (intro keeps_intros; simp)+

lemma keeps_elsewhere_iteration: "keeps (elsewhere b cm dt v) (thr_iteration b l)"
  unfolding thr_iteration_def Let_def by (intro keeps_intros)

lemma keeps_elsewhere_enter: "keeps (elsewhere b cm dt v) (thr_enter b message flag)"
proof -
  have "keeps (elsewhere b cm dt v) (authenticate b message flag)"
    unfolding authenticate_def by (intro keeps_intros; simp)+
  then show ?thesis unfolding thr_enter_def by (intro keeps_intros; simp)
qed

section \<open>The frame of the main thread\<close>

text \<open>A round of \<open>main\<close> that makes the client \<open>a\<close> reads from the sockets it accepts only, and
  touches no other client (but for links).\<close>

definition callers :: "server \<Rightarrow> fd set" where
  "callers w = {s. \<exists>info. Some (s, info) \<in> set (accepts w)}"

definition admitting :: "addr \<Rightarrow> server \<Rightarrow> server \<Rightarrow> bool" where
  "admitting a v w \<longleftrightarrow>
     clients w a \<noteq> None \<and> a < fresh_addr w \<and>
     (\<forall>x. x \<noteq> a \<longrightarrow> map_option core (clients w x) = map_option core (clients v x)) \<and>
     (\<forall>s. s \<notin> callers v \<longrightarrow> rx w s = rx v s) \<and> callers w \<subseteq> callers v \<and>
     tx w = tx v \<and> fs w = fs v \<and> closed w = closed v \<and> snd_evs w = snd_evs v \<and>
     password w = password v \<and> dest_chroot w = dest_chroot v \<and> is_dest_chroot w = is_dest_chroot v \<and>
     fopen_evs w = fopen_evs v \<and> mkdir_evs w = mkdir_evs v \<and> fwrite_evs w = fwrite_evs v"

lemma admitting_update [simp]:
  "admitting a v (w\<lparr>els := x1\<rparr>) = admitting a v w" "admitting a v (w\<lparr>head := x2\<rparr>) = admitting a v w"
  "admitting a v (w\<lparr>last_client := x3\<rparr>) = admitting a v w"
  by (simp_all add: admitting_def callers_def)

lemma keeps_case_option [keeps_intros]:
  "keeps P m \<Longrightarrow> (\<And>a. keeps P (f a)) \<Longrightarrow> keeps P (case x of None \<Rightarrow> m | Some a \<Rightarrow> f a)"
  by (cases x) simp_all

lemma keeps_el_at [keeps_intros]: "keeps P (el_at a)"
  by (auto simp: keeps_def el_at_def orUb_def split: option.splits)

lemma admitting_fresh_addr: "admitting a v w \<Longrightarrow> fresh_addr w \<le> n \<Longrightarrow> admitting a v (w\<lparr>fresh_addr := n\<rparr>)"
  by (simp add: admitting_def callers_def)

lemma keeps_admitting_heap [keeps_intros]:
  "keeps (admitting a v) (malloc_el e0)" "keeps (admitting a v) (update_el b g)"
  "keeps (admitting a v) (update_client a f)"
proof -
  show "keeps (admitting a v) (malloc_el e0)" by (simp add: keeps_def malloc_el_run admitting_fresh_addr)
  show "keeps (admitting a v) (update_el b g)" unfolding update_el_def by (intro keeps_intros) simp
  show "keeps (admitting a v) (update_client a f)"
    by (auto simp: keeps_def update_client_def admitting_def callers_def split: option.splits)
qed

lemma keeps_admitting_receive [keeps_intros]:
  assumes "s \<in> callers v"
  shows "keeps (admitting a v) (receive_message s flag m)"
proof -
  have "admitting a v (w\<lparr>rx := (rx w)(s := q)\<rparr>)" if "admitting a v w" for w q
    using that assms by (auto simp: admitting_def callers_def)
  then show ?thesis by (intro keepsI) (use receive_message_frame in \<open>metis prod.collapse\<close>)
qed

lemma ensures_accept: "ensures (admitting a v) (\<lambda>r. case r of None \<Rightarrow> True | Some (s, _) \<Rightarrow> s \<in> callers v) os_accept"
proof -
  have "admitting a v (w\<lparr>accepts := rs\<rparr>) \<and> (case r of None \<Rightarrow> True | Some (s, _) \<Rightarrow> s \<in> callers v)"
    if "admitting a v w" "accepts w = r # rs" for w r rs
    using that by (cases r) (auto simp: admitting_def callers_def)
  then show ?thesis by (auto simp: ensures_def keeps_def os_accept_def split: list.splits)
qed

lemma keeps_admitting_accept [keeps_intros]:
  "s \<in> callers v \<Longrightarrow> keeps (admitting a v) (admit b a s flag message)"
  "keeps (admitting a v) (accept_round e0 a flag message)"
proof -
  show admit: "keeps (admitting a v) (admit b a s flag message)" if "s \<in> callers v" for b s
    unfolding admit_def by (intro keeps_intros that; simp)
  show "keeps (admitting a v) (accept_round e0 a flag message)"
    unfolding accept_round_def
    by (intro keeps_bindM keeps_ensures_bindM [OF ensures_accept] keeps_admitting_heap)
      (auto intro!: keeps_intros admit split: option.splits)
qed

lemma keeps_accept_loop:
  assumes "\<And>flag message. keeps P (accept_round e0 client flag message)" and "P w"
  shows "P (snd (accept_loop e0 client flag message w))"
  using assms
proof (induction e0 client flag message w rule: accept_loop.induct)
  case (1 e0 client flag message w)
  obtain x v where x: "accept_round e0 client flag message w = (x, v)" by fastforce
  have v: "P v" using keepsD [OF "1.prems" x] .
  show ?case
  proof (cases "\<exists>f m. x = Ret (False, f, m)")
    case True
    then obtain f m where fm: "x = Ret (False, f, m)" by blast
    have "P (snd (accept_loop e0 client f m v))"
      by (rule "1.IH" [OF x [symmetric] fm refl refl _ "1.prems"(1) v]) simp
    then show ?thesis using x fm by (simp add: accept_loop.simps [of e0 client flag])
  next
    case False
    then show ?thesis using x v
      by (cases x) (auto simp: accept_loop.simps [of e0 client flag] split: prod.splits if_splits)
  qed
qed

lemma keeps_accept_connection:
  "(\<And>flag message. keeps P (accept_round e0 client flag message)) \<Longrightarrow> keeps P (accept_connection e0 client flag message)"
  unfolding accept_connection_def by (rule keepsI, rule keeps_accept_loop)

text \<open>The end of the round, which puts the client into the list.\<close>

lemma keeps_link:
  assumes "\<And>w lst h. P w \<Longrightarrow> same_cores (clients w) h \<Longrightarrow> P (w\<lparr>last_client := lst, clients := h\<rparr>)"
  shows "keeps P (bindM (getM (\<lambda>w. link_client p (last_client w) (clients w))) (\<lambda>r.
      bindM (orUb r) (\<lambda>(lst, h). bindM (modifyM (\<lambda>w. w\<lparr>last_client := lst, clients := h\<rparr>)) (\<lambda>_. retM a))))"
    (is "keeps P ?m")
proof (rule keepsI)
  fix w assume w: "P w"
  show "P (snd (?m w))"
  proof (cases "link_client p (last_client w) (clients w)")
    case None
    with w show ?thesis by simp
  next
    case (Some r)
    obtain lst h where r: "r = (lst, h)" by fastforce
    show ?thesis using assms [OF w link_client_cores [OF Some [unfolded r]]] Some r by simp
  qed
qed

lemma main_round_frame:
  assumes run: "srv_main_round c0 e0 flag message sock no w = (Ret a, w')"
  shows "a = fresh_addr w" and "admitting a w w'"
proof -
  let ?a = "fresh_addr w" and ?w = "w\<lparr>fresh_addr := fresh_addr w + 1, clients := (clients w)(fresh_addr w \<mapsto> c0)\<rparr>"
  define tail where "tail = bindM (accept_connection e0 ?a flag message) (\<lambda>_.
     bindM (update_client ?a (\<lambda>c. c\<lparr>server_socket := sock\<rparr>)) (\<lambda>_.
     bindM (update_client ?a (\<lambda>c. c\<lparr>thr := no\<rparr>)) (\<lambda>_.
     bindM (getM (\<lambda>w. link_client (Some ?a) (last_client w) (clients w))) (\<lambda>r.
     bindM (orUb r) (\<lambda>(lst, h).
     bindM (modifyM (\<lambda>w. w\<lparr>last_client := lst, clients := h\<rparr>)) (\<lambda>_. retM ?a))))))"
  have t: "tail ?w = (Ret a, w')"
    using run by (simp add: srv_main_round_def malloc_client_def malloc_def bindM_def tail_def)
  then show "a = ?a" by (auto simp: tail_def bindM_eq_Ret)
  have link: "admitting ?a w (v\<lparr>last_client := lst, clients := h\<rparr>)"
    if "admitting ?a w v" "same_cores (clients v) h" for v lst h
  proof -
    have "map_option core (h x) = map_option core (clients v x)" for x using that(2) by (simp add: same_cores_def)
    then have "(h ?a = None) = (clients v ?a = None)" and same: "map_option core (h x) = map_option core (clients v x)" for x
      by (metis option.map_disc_iff)+
    then show ?thesis using that(1) by (simp add: admitting_def callers_def same)
  qed
  have "keeps (admitting ?a w) tail" unfolding tail_def
    by (intro keeps_bindM keeps_link link keeps_accept_connection keeps_admitting_accept keeps_admitting_heap)
  moreover have "admitting ?a w ?w" by (simp add: admitting_def callers_def)
  ultimately show "admitting a w w'" using t \<open>a = ?a\<close> keepsD by metis
qed

end
