(* ===== verification/Server_Always.thy ===== *)
theory Server_Always
  imports Server_Frame
begin

text \<open>
  What holds in every state the server of \<open>Server_System\<close> can reach, and also in the midst of a
  round that does not end: nothing is written outside the chroot directory, the clients in memory
  are those whose threads run, and a thread that has not been let in changes no file.
\<close>

section \<open>Inside the chroot directory\<close>

lemma guard_accept [simp]:
  "guard pre f0 (w\<lparr>els := x1\<rparr>) = guard pre f0 w" "guard pre f0 (w\<lparr>head := x2\<rparr>) = guard pre f0 w"
  "guard pre f0 (w\<lparr>fresh_addr := x3\<rparr>) = guard pre f0 w" "guard pre f0 (w\<lparr>accepts := x4\<rparr>) = guard pre f0 w"
  by (simp_all add: guard_def prefix_of_def)

lemma keeps_guard_update_client:
  "(\<And>c. length (file_path (f c)) = length (file_path c)) \<Longrightarrow> keeps (guard pre f0) (update_client a f)"
  by (auto simp: keeps_def update_client_def guard_def prefix_of_def split: option.splits)

lemma keeps_guard_connection [keeps_intros]:
  "keeps (guard pre f0) malloc" "keeps (guard pre f0) (malloc_el e0)" "keeps (guard pre f0) (update_el a g)"
  "keeps (guard pre f0) os_accept"
  unfolding malloc_el_def malloc_def update_el_def
  by (intro keeps_intros; simp)+ (auto simp: keeps_def os_accept_def split: list.splits)

lemma keeps_guard_accept [keeps_intros]: "keeps (guard pre f0) (accept_round e0 client flag message)"
  unfolding accept_round_def admit_def
  by (intro keeps_intros keeps_guard_update_client; simp)

lemma keeps_guard_main_round:
  assumes "length (file_path c0) = PATH_MAX"
  shows "keeps (guard pre f0) (srv_main_round c0 e0 flag message sock no)"
proof -
  have "guard pre f0 (w\<lparr>last_client := lst, clients := h\<rparr>)" if "guard pre f0 w" "same_cores (clients w) h" for w lst h
    using that(1) same_cores_path [OF that(2)] by (fastforce simp: guard_def prefix_of_def)
  moreover have "keeps (guard pre f0) (malloc_client c0)"
    unfolding malloc_client_def using assms
    by (intro keeps_intros) (auto simp: guard_def prefix_of_def)
  ultimately show ?thesis unfolding srv_main_round_def
    by (intro keeps_bindM keeps_link keeps_guard_update_client keeps_accept_connection keeps_guard_accept) simp_all
qed

lemma keeps_guard_enter: "keeps (guard pre f0) (thr_enter client message flag)"
  unfolding thr_enter_def authenticate_def by (intro keeps_intros keeps_guard_update_client; simp)

text \<open>The signal handler frees clients and touches nothing else of them.\<close>

lemma close_clients_frees:
  assumes "close_clients l h fds = Some r"
  shows "snd r \<subseteq>\<^sub>m h"
proof (rule close_clients.raw_induct [where P = "\<lambda>l h fds r. snd r \<subseteq>\<^sub>m h", OF _ assms])
  fix close and l h fds and r :: "fd list \<times> client_heap"
  assume IH: "\<And>l h fds r. close l h fds = Some r \<Longrightarrow> snd r \<subseteq>\<^sub>m h"
    and run: "(case l of None \<Rightarrow> Some (fds, h)
      | Some a \<Rightarrow> (case h a of None \<Rightarrow> None
        | Some c \<Rightarrow> (let fds' = fds @ [command_socket c, data_socket c, server_socket c] in
            if ci_before c = None then Some (fds', h(a := None)) else close (ci_before c) (h(a := None)) fds'))) = Some r"
  show "snd r \<subseteq>\<^sub>m h"
  proof (cases l)
    case None
    with run show ?thesis by auto
  next
    case (Some a)
    with run obtain c where "h a = Some c" by (auto split: option.splits)
    with Some run consider "snd r = h(a := None)" | fds1 where "close (ci_before c) (h(a := None)) fds1 = Some r"
      by (auto simp: Let_def split: if_splits)
    then show ?thesis
    proof cases
      case 2
      show ?thesis by (rule map_le_trans [OF IH [OF 2] upd_None_map_le])
    qed (simp add: upd_None_map_le)
  qed
qed

lemma keeps_guard_signal: "keeps (guard pre f0) srv_signal_handler"
proof (rule keepsI)
  fix w assume g: "guard pre f0 w"
  show "guard pre f0 (snd (srv_signal_handler w))"
  proof (cases "close_clients (last_client w) (clients w) []")
    case None
    with g show ?thesis by (simp add: srv_signal_handler_def)
  next
    case (Some r)
    obtain fds h where r: "r = (fds, h)" by fastforce
    have "h \<subseteq>\<^sub>m clients w" using close_clients_frees [OF Some] r by simp
    then have "clients w a = Some c" if "h a = Some c" for a c using that by (metis domI map_le_def)
    then have "\<forall>a c. h a = Some c \<longrightarrow> length (file_path c) = PATH_MAX" using g unfolding guard_def by blast
    moreover have "prefix_of (w\<lparr>closed := fs', clients := h\<rparr>) = prefix_of w" for fs' by (simp add: prefix_of_def)
    ultimately have "guard pre f0 (w\<lparr>closed := fs', clients := h\<rparr>)" for fs' using g by (simp add: guard_def)
    then show ?thesis using Some r by (simp add: srv_signal_handler_def)
  qed
qed

lemma environment_guard: "environment w w' \<Longrightarrow> guard pre f0 w' = guard pre f0 w"
  by (auto simp: environment_def guard_def prefix_of_def)

lemma srv_step_guard:
  assumes "srv_step who s s'" and "NUL \<notin> set pre" "length pre < PATH_MAX" and "guard pre f0 (fst s)"
  shows "guard pre f0 (fst s')"
  using assms(1,4)
proof (induction rule: srv_step.induct)
  case outside
  then show ?case by (simp add: environment_guard)
next
  case (accept c0 e0 flag message sock no w a w' ts)
  then show ?case using keepsD [OF keeps_guard_main_round] by simp
next
  case (enter ts a message flag w w' l)
  then show ?case using keepsD [OF keeps_guard_enter] by simp
next
  case (shut_out ts a message flag w w')
  then show ?case using keepsD [OF keeps_guard_enter] by simp
qed (use thr_iteration_guard assms(2,3) in simp_all)

lemma srv_stuck_guard:
  assumes "srv_stuck s w'" and "NUL \<notin> set pre" "length pre < PATH_MAX" and "guard pre f0 (fst s)"
  shows "guard pre f0 w'"
  using assms(1,4)
proof (induction rule: srv_stuck.induct)
  case (accept c0 e0 flag message sock no w r w' ts)
  then show ?case using keepsD [OF keeps_guard_main_round] by simp
next
  case (enter ts a message flag w r w')
  then show ?case using keepsD [OF keeps_guard_enter] by simp
next
  case (interrupt w r w' ts)
  then show ?case using keepsD [OF keeps_guard_signal] by simp
qed (use thr_iteration_guard assms(2,3) in simp_all)

lemma srv_run_guard:
  assumes "srv_run s s'" and "NUL \<notin> set pre" "length pre < PATH_MAX" and "guard pre f0 (fst s)"
  shows "guard pre f0 (fst s')"
  using assms(1,4) by (induction rule: srv_run_induct) (use srv_step_guard assms(2,3) in auto)

section \<open>Clients and threads\<close>

text \<open>How a piece of the thread of \<open>a\<close> ends: it exits only once its client is freed, and where it
  returns, \<open>R\<close> tells from the result whether the client is.\<close>

definition frees :: "addr \<Rightarrow> ('a \<Rightarrow> bool) \<Rightarrow> 'a srv \<Rightarrow> bool" where
  "frees a R m \<longleftrightarrow> (\<forall>w r w'. clients w a \<noteq> None \<longrightarrow> m w = (r, w') \<longrightarrow>
     (\<forall>x. r = Ret x \<longrightarrow> (clients w' a = None) = R x) \<and> (\<forall>e. r = Exit e \<longrightarrow> clients w' a = None))"

named_theorems frees_intros "composition rules of frees"

abbreviation stays :: "addr \<Rightarrow> 'a srv \<Rightarrow> bool" where
  "stays a \<equiv> frees a (\<lambda>_. False)"

lemma freesD:
  assumes "frees a R m" and "clients w a \<noteq> None" and "m w = (r, w')"
  shows "r = Ret x \<Longrightarrow> (clients w' a = None) = R x" and "r = Exit e \<Longrightarrow> clients w' a = None"
  using assms by (auto simp: frees_def)

lemma frees_bindM [frees_intros]:
  assumes "stays a m" and "\<And>x. frees a R (f x)"
  shows "frees a R (bindM m f)"
  unfolding frees_def
proof (intro allI impI)
  fix w r w' assume c: "clients w a \<noteq> None" and run: "bindM m f w = (r, w')"
  from run show "(\<forall>x. r = Ret x \<longrightarrow> (clients w' a = None) = R x) \<and> (\<forall>e. r = Exit e \<longrightarrow> clients w' a = None)"
  proof (cases rule: bindM_outcome)
    case (ret x v)
    then have "clients v a \<noteq> None" using freesD(1) [OF assms(1) c ret(1)] by simp
    then show ?thesis using assms(2) ret(2) unfolding frees_def by blast
  next
    case (stop r')
    then show ?thesis using freesD(2) [OF assms(1) c stop(1)] by simp
  qed
qed

text \<open>After the client is freed the thread only returns or exits.\<close>

lemma frees_last:
  assumes m: "frees a (\<lambda>_. True) m"
  shows "frees a R (bindM m (\<lambda>_. failM (Exit e)))" and "R x \<Longrightarrow> frees a R (bindM m (\<lambda>_. retM x))"
proof -
  have gone: "clients w' a = None \<and> (\<forall>y. r = Ret y \<longrightarrow> k = Ret y) \<or> (\<forall>y. r \<noteq> Ret y) \<and> (\<forall>e. r \<noteq> Exit e)"
    if "clients w a \<noteq> None" and "bindM m (\<lambda>_. failM k) w = (r, w')" for w w' and r k :: "'b result"
    using that(2)
  proof (cases rule: bindM_outcome)
    case (ret x v)
    then show ?thesis using freesD(1) [OF m that(1) ret(1)] by simp
  next
    case (stop r')
    then show ?thesis using freesD(2) [OF m that(1) stop(1)] by (cases r') auto
  qed
  show "frees a R (bindM m (\<lambda>_. failM (Exit e)))" unfolding frees_def using gone by fastforce
  show "frees a R (bindM m (\<lambda>_. retM x))" if "R x"
  proof -
    have "(retM x :: 'b srv) = failM (Ret x)" by (simp add: fun_eq_iff)
    then show ?thesis unfolding frees_def using gone that by fastforce
  qed
qed

lemma frees_then:
  assumes m: "frees a Q m" and f: "\<And>x. \<exists>y. f x = retM y \<and> R y = Q x"
  shows "frees a R (bindM m f)"
  unfolding frees_def
proof (intro allI impI)
  fix w r w' assume c: "clients w a \<noteq> None" and "bindM m f w = (r, w')"
  from this(2) show "(\<forall>x. r = Ret x \<longrightarrow> (clients w' a = None) = R x) \<and> (\<forall>e. r = Exit e \<longrightarrow> clients w' a = None)"
  proof (cases rule: bindM_outcome)
    case (ret x v)
    moreover obtain y where "f x = retM y" "R y = Q x" using f by blast
    ultimately show ?thesis using freesD(1) [OF m c ret(1)] by auto
  next
    case (stop r')
    then show ?thesis using freesD(2) [OF m c stop(1)] by simp
  qed
qed

lemma frees_retM [frees_intros]: "\<not> R x \<Longrightarrow> frees a R (retM x)"
  by (simp add: frees_def)

lemma frees_basic [frees_intros]:
  "stays a (retM x)" "stays a (getM g)" "stays a (orUb y)" "frees a R (failM Ub)"
  by (auto simp: frees_def orUb_def split: option.splits)

lemma frees_if [frees_intros]: "frees a R m \<Longrightarrow> frees a R n \<Longrightarrow> frees a R (if b then m else n)"
  by simp

lemma frees_case_prod [frees_intros]: "(\<And>x y. frees a R (f x y)) \<Longrightarrow> frees a R (case z of (x, y) \<Rightarrow> f x y)"
  by (cases z) simp

lemma send_message_outcomes: "send_message s flag m w = (r, w') \<Longrightarrow> r = Killed \<or> r = Ub \<or> (\<exists>x. r = Ret x)"
  by (auto simp: send_message_def bindM_def orUb_def os_send_def split: option.splits result.splits prod.splits
      list.splits snd_ev.splits if_splits)

text \<open>Pieces that leave the clients alone and do not exit.\<close>

lemma frees_same_clients:
  assumes "\<And>w r w'. m w = (r, w') \<Longrightarrow> clients w' = clients w \<and> (\<forall>e. r \<noteq> Exit e)"
  shows "stays a m"
  unfolding frees_def using assms by metis

lemma stays_lib [frees_intros]:
  "stays a (recv_bytes buf off s bytes)" "stays a (receive_message s flag m)" "stays a (send_message s flag m)"
  "stays a (load_path len s path off)"
proof -
  show recv: "stays a (recv_bytes buf off s bytes)" for buf off bytes
    by (rule frees_same_clients, frule recv_bytes_frame) (auto simp: recv_bytes_def dest!: recv_loop_outcomes)
  show "stays a (receive_message s flag m)"
    by (rule frees_same_clients, frule receive_message_frame) (auto dest!: receive_message_outcomes)
  show "stays a (send_message s flag m)"
    by (rule frees_same_clients, frule send_message_frame) (auto dest!: send_message_outcomes)
  show "stays a (load_path len s path off)" unfolding load_path_def by (intro frees_intros recv)
qed

lemma stays_os [frees_intros]:
  "stays a (print_log_message ip m p e)" "stays a (client_at b)" "stays a strerror" "stays a (os_fopen_wb path)"
  "stays a (os_mkdir path)" "stays a (os_fwrite bs path)"
  by (rule frees_same_clients; auto simp: print_log_message_def client_at_def orUb_def strerror_def os_fopen_wb_def
      os_mkdir_def os_fwrite_def split: option.splits list.splits)+

lemma stays_update_client [frees_intros]: "stays a (update_client b f)"
  by (auto simp: frees_def update_client_def split: option.splits if_splits)

lemma frees_dealloc: "frees a (\<lambda>_. True) (dealloc a)"
  unfolding frees_def
proof (intro allI impI)
  fix w r w' assume "clients w a \<noteq> None" and run: "dealloc a w = (r, w')"
  then obtain c where c: "clients w a = Some c" by blast
  show "(\<forall>x. r = Ret x \<longrightarrow> (clients w' a = None) = True) \<and> (\<forall>e. r = Exit e \<longrightarrow> clients w' a = None)"
  proof (cases "unlink_client (Some a) (last_client w) (clients w)")
    case None
    then have "r = Ub" using run c by (simp add: dealloc_def bindM_def os_close_def)
    then show ?thesis by simp
  next
    case (Some p)
    obtain lst h where p: "p = (lst, h)" by fastforce
    show ?thesis using dealloc_run [OF c Some [unfolded p]] run unlink_client_cores(1) [OF Some [unfolded p]] by auto
  qed
qed

lemma stays_ends [frees_intros]:
  "frees a R (disconnected a)" "frees a R (unknown_protocol a)"
  unfolding disconnected_def unknown_protocol_def by (intro frees_last(1) [OF frees_dealloc] frees_intros)+

lemma frees_wrappers [frees_intros]:
  "stays a (srv_recv_bytes_wrapper buf off s bytes a)" "stays a (srv_send_message_wrapper s flag m a)"
  unfolding srv_recv_bytes_wrapper_def srv_send_message_wrapper_def by (intro frees_intros; simp)+

lemma frees_talk [frees_intros]:
  "frees a R (bad_path a p)" "frees a R (fwrite_failed a)" "stays a (ack_error a)" "stays a (ack_ok a)"
  "stays a (discard_block n buf a)" "stays a (write_block n buf file a)"
  unfolding bad_path_def fwrite_failed_def ack_error_def ack_ok_def discard_block_def write_block_def
  by (intro frees_last(1) [OF frees_dealloc] frees_intros; simp)+

lemma stays_blocks [frees_intros]: "stays a (write_blocks i buf file a)" "stays a (discard_blocks i buf a)"
  by (induction i arbitrary: buf) (simp_all add: frees_basic frees_bindM frees_talk)

lemma stays_parts [frees_intros]:
  "stays a (write_data buf da file a)" "stays a (discard_data da a buf)" "stays a (load_dest_file_attrs buf da a)"
  "stays a (parse_dest_file_attrs buf da a)" "stays a (srv_load_path_wrapper n a)"
  unfolding write_data_def discard_data_def load_dest_file_attrs_def parse_dest_file_attrs_def srv_load_path_wrapper_def Let_def
  by (intro frees_intros; simp)+

lemma frees_command: "frees a (\<lambda>(again, _). \<not> again) (thr_command a da buf)"
  unfolding thr_command_def
  by (intro frees_last(2) [OF frees_dealloc] frees_intros; simp)

lemma frees_iteration: "frees a (\<lambda>(again, _). \<not> again) (thr_iteration a l)"
  unfolding thr_iteration_def Let_def
  by (intro frees_then [OF frees_command] frees_intros) (auto simp: split_beta)

lemma frees_enter: "frees a (\<lambda>entered. \<not> entered) (thr_enter a message flag)"
proof -
  have "stays a (authenticate a message flag)" unfolding authenticate_def by (intro frees_intros; simp)
  then show ?thesis unfolding thr_enter_def by (intro frees_last(2) [OF frees_dealloc] frees_intros; simp)
qed

text \<open>The clients in memory are those whose threads run, and new memory is new.\<close>

definition tenants :: "system \<Rightarrow> bool" where
  "tenants s \<longleftrightarrow> (case s of (w, ts) \<Rightarrow>
     \<forall>a. (clients w a = None) = (ts a = None) \<and> (ts a \<noteq> None \<longrightarrow> a < fresh_addr w))"

lemma same_presence: "map_option core (h x) = map_option core (h' x) \<Longrightarrow> (h x = None) = (h' x = None)"
  by (metis option.map_disc_iff)

text \<open>What a round of the thread of \<open>a\<close> does to the clients.\<close>

lemma thread_round_tenants:
  assumes t: "tenants (w, ts)" and a: "a \<in> dom ts" and run: "m w = (r, w')"
    and frame: "\<And>cm dt. keeps (elsewhere a cm dt w) m" and frees: "frees a R m"
  shows "r = Ret x \<Longrightarrow> \<not> R x \<Longrightarrow> tenants (w', ts(a \<mapsto> p))" and "r = Ret x \<Longrightarrow> R x \<Longrightarrow> tenants (w', ts(a := None))"
    and "r = Exit e \<Longrightarrow> tenants (w', ts(a := None))"
proof -
  have c: "clients w a \<noteq> None" using t a by (auto simp: tenants_def)
  then obtain k where k: "clients w a = Some k" by blast
  have e: "elsewhere a (command_socket k) (data_socket k) w w'"
    using keepsD [OF frame elsewhere_refl [of w a, OF k] run] .
  then have others: "(clients w' x = None) = (clients w x = None)" if "x \<noteq> a" for x
    using that same_presence by (auto simp: elsewhere_def)
  have fa: "fresh_addr w' = fresh_addr w" using e by (simp add: elsewhere_def)
  have d: "(clients w x = None) = (ts x = None)" "ts x \<noteq> None \<Longrightarrow> x < fresh_addr w" for x
    using t by (auto simp: tenants_def)
  show "tenants (w', ts(a \<mapsto> p))" if "r = Ret x" "\<not> R x"
    using others d a fa freesD(1) [OF frees c run that(1)] that(2) by (auto simp: tenants_def)
  show "tenants (w', ts(a := None))" if "r = Ret x" "R x"
    using others d fa freesD(1) [OF frees c run that(1)] that(2) by (auto simp: tenants_def)
  show "tenants (w', ts(a := None))" if "r = Exit e"
    using others d fa freesD(2) [OF frees c run that] by (auto simp: tenants_def)
qed

lemmas enter_tenants = thread_round_tenants [OF _ _ _ keeps_elsewhere_enter frees_enter]
lemmas iteration_tenants = thread_round_tenants [OF _ _ _ keeps_elsewhere_iteration frees_iteration]

lemma srv_step_tenants:
  assumes "srv_step who s s'" and "tenants s"
  shows "tenants s'"
  using assms
proof (induction rule: srv_step.induct)
  case (outside w w' ts)
  then show ?case by (auto simp: environment_def tenants_def)
next
  case (accept c0 e0 flag message sock no w a w' ts)
  note f = main_round_frame [OF accept(1)]
  have "(clients w' x = None) = (clients w x = None)" if "x \<noteq> a" for x
    using f(2) that same_presence by (auto simp: admitting_def)
  moreover have "clients w' a \<noteq> None" "a < fresh_addr w'" using f(2) by (auto simp: admitting_def)
  moreover have "ts x \<noteq> None \<longrightarrow> x < fresh_addr w'" for x
    using accept.prems f by (force simp: tenants_def admitting_def)
  ultimately show ?case using accept.prems by (auto simp: tenants_def)
next
  case (enter ts a message flag w w' l)
  show ?case using enter_tenants(1) [OF enter.prems _ enter(2)] enter(1) by auto
next
  case (shut_out ts a message flag w w')
  show ?case using enter_tenants(2) [OF shut_out.prems _ shut_out(2)] shut_out(1) by auto
next
  case (serve ts a l w l' w')
  show ?case using iteration_tenants(1) [OF serve.prems _ serve(2)] serve(1) by auto
next
  case (return ts a l w l' w')
  show ?case using iteration_tenants(2) [OF return.prems _ return(2)] return(1) by auto
next
  case (quit ts a l w e w')
  show ?case using iteration_tenants(3) [OF quit.prems _ quit(2)] quit(1) by auto
qed

lemma srv_run_tenants: "srv_run s s' \<Longrightarrow> tenants s \<Longrightarrow> tenants s'"
  by (induction rule: srv_run_induct) (auto intro: srv_step_tenants)

section \<open>Who writes\<close>

text \<open>Until the answer to the password the file system is left alone.\<close>

lemma keeps_fs_lib [keeps_intros]:
  "keeps (\<lambda>w :: server. fs w = f) (receive_message s flag m)" "keeps (\<lambda>w :: server. fs w = f) (send_message s flag m)"
proof -
  have "fs (snd (receive_message s flag m w)) = fs w" for w :: server
    using receive_message_frame [OF prod.collapse [symmetric, of "receive_message s flag m w"]] by auto
  then show "keeps (\<lambda>w :: server. fs w = f) (receive_message s flag m)" by (simp add: keeps_def)
  have "fs (snd (send_message s flag m w)) = fs w" for w :: server
    using send_message_frame [OF prod.collapse [symmetric, of "send_message s flag m w"]] by auto
  then show "keeps (\<lambda>w :: server. fs w = f) (send_message s flag m)" by (simp add: keeps_def)
qed

lemma keeps_fs_enter: "keeps (\<lambda>w :: server. fs w = f) (thr_enter a message flag)"
proof -
  have "keeps (\<lambda>w :: server. fs w = f) (print_log_message ip m p e)" for ip m p e
    by (simp add: keeps_def print_log_message_def)
  moreover have "keeps (\<lambda>w :: server. fs w = f) (os_close s)" for s by (simp add: keeps_def os_close_def)
  moreover have "keeps (\<lambda>w :: server. fs w = f) (update_client b g)" for b g
    by (auto simp: keeps_def update_client_def split: option.splits)
  ultimately show ?thesis unfolding thr_enter_def authenticate_def dealloc_def by (intro keeps_intros; simp)
qed

lemma srv_step_writes:
  assumes "srv_step who (w, ts) (w', ts')" and "fs w' \<noteq> fs w"
  shows "\<exists>a l. who = Some a \<and> ts a = Some (Serving l)"
  using assms(1)
proof (cases rule: srv_stepE)
  case outside
  then show ?thesis using assms(2) by (auto simp: environment_def)
next
  case (accept c0 e0 flag message sock no a)
  then show ?thesis using assms(2) main_round_frame(2) by (fastforce simp: admitting_def)
qed (use assms(2) keepsD [OF keeps_fs_enter refl] in auto)

end
