(* ===== verification/Server_Isolation.thy ===== *)
theory Server_Isolation
  imports Server_Always Server_Calm
begin

text \<open>
  The sessions of different daemons do not disturb each other.  However the rounds of the threads
  of \<open>Server_System\<close> follow each other, a thread that is in a session serves its transfers in order,
  each with its own acknowledgement, as if it were alone.
\<close>

section \<open>What the operating system is relied on for\<close>

text \<open>It gives no descriptor to two connections at a time, and refuses nothing.\<close>

definition apart :: "addr \<Rightarrow> fd \<Rightarrow> fd \<Rightarrow> system \<Rightarrow> bool" where
  "apart a cm dt s \<longleftrightarrow> (case s of (w, ts) \<Rightarrow>
     (\<forall>b c. b \<noteq> a \<longrightarrow> ts b \<noteq> None \<longrightarrow> clients w b = Some c \<longrightarrow>
        command_socket c \<notin> {cm, dt} \<and> data_socket c \<notin> {cm, dt}) \<and>
     callers w \<inter> {cm, dt} = {} \<and> snd_evs w = [] \<and> permissive w)"

text \<open>A step in such a world, in which the others leave the paths \<open>P\<close> alone.\<close>

definition apart_step :: "addr \<Rightarrow> fd \<Rightarrow> fd \<Rightarrow> byte list set \<Rightarrow> system \<Rightarrow> system \<Rightarrow> bool" where
  "apart_step a cm dt P s s' \<longleftrightarrow> apart a cm dt s' \<and>
     (\<exists>who. srv_step who s s' \<and> (who \<noteq> Some a \<longrightarrow> (\<forall>p \<in> P. fs (fst s') p = fs (fst s) p)))"

section \<open>Steps of the others\<close>

definition untouched :: "addr \<Rightarrow> fd \<Rightarrow> fd \<Rightarrow> server \<Rightarrow> server \<Rightarrow> bool" where
  "untouched a cm dt w w' \<longleftrightarrow> map_option core (clients w' a) = map_option core (clients w a) \<and>
     (\<exists>x. avail cm w' = avail cm w @ x) \<and> (\<exists>y. avail dt w' = avail dt w @ y) \<and> tx w' cm = tx w cm \<and>
     password w' = password w \<and> dest_chroot w' = dest_chroot w \<and> is_dest_chroot w' = is_dest_chroot w"

lemma stream_append: "\<exists>x. stream (q @ r) = stream q @ x"
  by (induction q rule: stream.induct) auto

lemma elsewhere_untouched:
  assumes "elsewhere b s t w w'" and "b \<noteq> a" and "{s, t} \<inter> {cm, dt} = {}"
  shows "untouched a cm dt w w'"
  using assms by (auto simp: elsewhere_def untouched_def avail_def)

lemma admitting_untouched:
  assumes "admitting b w w'" and "b \<noteq> a" and "callers w \<inter> {cm, dt} = {}"
  shows "untouched a cm dt w w'"
  using assms by (auto simp: admitting_def untouched_def avail_def)

lemma environment_untouched: "environment w w' \<Longrightarrow> untouched a cm dt w w'"
  using stream_append by (auto simp: environment_def untouched_def avail_def)

lemma foreign_step:
  assumes step: "srv_step who (w, ts) (w', ts')" and who: "who \<noteq> Some a"
    and t: "tenants (w, ts)" "ts a \<noteq> None" and ap: "apart a cm dt (w, ts)"
  shows "untouched a cm dt w w' \<and> ts' a = ts a"
proof -
  have round: "untouched a cm dt w w'"
    if b: "b \<noteq> a" "ts b \<noteq> None" and run: "m w = (r, w')" and frame: "\<And>s t. keeps (elsewhere b s t w) m"
    for b m and r :: "'b result"
  proof -
    obtain k where k: "clients w b = Some k" using t(1) b(2) by (auto simp: tenants_def)
    have "elsewhere b (command_socket k) (data_socket k) w w'"
      using keepsD [OF frame elsewhere_refl [of w b, OF k] run] .
    then show ?thesis by (rule elsewhere_untouched) (use b k ap in \<open>auto simp: apart_def\<close>)
  qed
  from step show ?thesis
  proof (cases rule: srv_stepE)
    case outside
    then show ?thesis using environment_untouched by auto
  next
    case (accept c0 e0 flag message sock no b)
    note f = main_round_frame [OF accept(3)]
    have "b \<noteq> a" using t f(1) by (auto simp: tenants_def)
    then show ?thesis using admitting_untouched [OF f(2)] ap accept by (auto simp: apart_def)
  next
    case (enter b message flag l)
    then show ?thesis using round [OF _ _ enter(4) keeps_elsewhere_enter] who by auto
  next
    case (shut_out b message flag)
    then show ?thesis using round [OF _ _ shut_out(4) keeps_elsewhere_enter] who by auto
  next
    case (serve b l l')
    then show ?thesis using round [OF _ _ serve(4) keeps_elsewhere_iteration] who by auto
  next
    case (return b l l')
    then show ?thesis using round [OF _ _ return(4) keeps_elsewhere_iteration] who by auto
  next
    case (quit b l e)
    then show ?thesis using round [OF _ _ quit(4) keeps_elsewhere_iteration] who by auto
  qed
qed

lemma connected_untouched:
  assumes m: "connected a cm dt w" and u: "untouched a cm dt w w'" and "snd_evs w' = []"
  shows "connected a cm dt w'" and "prefix_of w' = prefix_of w"
proof -
  from m obtain c where c: "clients w a = Some c" "command_socket c = cm" "data_socket c = dt" "length (file_path c) = PATH_MAX"
    by (auto simp: connected_def)
  then obtain c' where c': "clients w' a = Some c'" "core c' = core c" using u by (auto simp: untouched_def)
  show "connected a cm dt w'" using m c c' core_eqD [OF c'(2)] assms(3) by (auto simp: connected_def)
  show "prefix_of w' = prefix_of w" using u by (simp add: untouched_def prefix_of_def)
qed

lemma midway_untouched:
  assumes "midway a cm dt pre js crest drest l w" and "untouched a cm dt w w'" and "snd_evs w' = []" "permissive w'"
  shows "\<exists>crest drest. midway a cm dt pre js crest drest l w'"
  using assms connected_untouched [OF _ assms(2,3)] by (auto simp: midway_def) (auto simp: untouched_def)

lemma dec_message_append: "dec_message av = Some (m, rest) \<Longrightarrow> dec_message (av @ x) = Some (m, rest @ x)"
  by (auto simp: dec_message_def split: list.splits if_splits)

lemma greets_untouched:
  assumes "greets a cm dt pw pre js crest drest w" and "untouched a cm dt w w'" and "snd_evs w' = []" "permissive w'"
  shows "\<exists>crest drest. greets a cm dt pw pre js crest drest w'"
proof -
  from assms(1) obtain flag where "dec_message (avail cm w) = Some ((flag, pw @ [NUL]), session_cmd js @ crest)"
    by (auto simp: greets_def)
  from dec_message_append [OF this] assms connected_untouched [OF _ assms(2,3)] show ?thesis
    by (auto simp: greets_def) (auto simp: untouched_def)
qed

section \<open>What was sent stays sent\<close>

lemma calm_thr_enter: "calm (thr_enter a message flag)"
  unfolding thr_enter_def authenticate_def by (intro calm_intros; simp)

lemma srv_step_sent:
  assumes "srv_step who (w, ts) (w', ts')"
  shows "prefix (tx w s) (tx w' s)"
  using assms
proof (cases rule: srv_stepE)
  case outside
  then show ?thesis by (auto simp: environment_def)
next
  case (accept c0 e0 flag message sock no b)
  then show ?thesis using main_round_frame(2) [OF accept(3)] by (simp add: admitting_def)
qed (use calmD [OF calm_thr_enter] calmD [OF calm_thr_iteration] in \<open>auto simp: grows_def\<close>)

section \<open>A session among others\<close>

definition acks :: "nat \<Rightarrow> byte list" where
  "acks k = concat (replicate k (enc_message (as_char ACK_OK, [])))"

definition job_paths :: "byte list \<Rightarrow> job list \<Rightarrow> byte list set" where
  "job_paths pre js = (\<lambda>(t, _). pre @ t) ` set js"

text \<open>How the thread comes to compare the password.\<close>

definition greeted :: "addr \<Rightarrow> client_info \<Rightarrow> server \<Rightarrow> server" where
  "greeted a c w = (let c' = c\<lparr>ip_address := ntoa w (command_info c)\<rparr> in
     logged (ip_address c') ''connected to the server'' None False (w\<lparr>clients := (clients w)(a \<mapsto> c')\<rparr>))"

lemma thr_enter_authenticates:
  assumes "clients w a = Some c"
  shows "thr_enter a message f0 w = bindM (authenticate a message f0) (\<lambda>r.
    if r \<noteq> EXIT_SUCCESS then
      bindM (print_log_message (ntoa w (command_info c)) ''BAD AUTH'' None True) (\<lambda>_. bindM (dealloc a) (\<lambda>_. retM False))
    else retM True) (greeted a c w)"
  using assms by (simp add: thr_enter_def bindM_def update_client_def print_log_message_run greeted_def Let_def
    split: prod.split result.split)

lemma greeted_authenticates:
  assumes "clients w a = Some c" and "dec_message (avail (command_socket c) w) = Some ((flag, t @ [NUL]), rest)"
    and "NUL \<notin> set t" and "c_str (password w) = Some pw" and "length pw < MESSAGE_BUFFERSIZE"
    and "length message = MESSAGE_BUFFERSIZE"
  shows "authenticate a message f0 (greeted a c w) =
    bindM (send_message (command_socket c) (as_char (if t = pw then ACK_OK else BAD_AUTH)) (cs []))
      (\<lambda>_. retM (if t = pw then EXIT_SUCCESS else BAD_AUTH)) (consume (command_socket c) (length t + 3) (greeted a c w))"
  using authenticate_answers [of "greeted a c w" a "c\<lparr>ip_address := ntoa w (command_info c)\<rparr>" flag t rest pw message f0] assms
  by (simp add: greeted_def logged_def Let_def)

text \<open>A daemon with the right password is let in, whatever the rest of the state.\<close>

lemma thr_enter_greeted:
  assumes g: "greets a cm dt pw pre js crest drest w" and c: "clients w a = Some c" and len: "length message = MESSAGE_BUFFERSIZE"
  shows "thr_enter a message f0 w = (Ret True, admitted a c cm pw ACK_OK w)"
proof -
  from g c have cm: "command_socket c = cm" "snd_evs w = []" by (auto simp: greets_def connected_def)
  from g obtain flag where msg: "dec_message (avail (command_socket c) w) = Some ((flag, pw @ [NUL]), session_cmd js @ crest)"
    using cm by (auto simp: greets_def)
  have pw: "c_str (password w) = Some pw" "length pw < MESSAGE_BUFFERSIZE" using g by (auto simp: greets_def)
  have "snd_evs (consume cm n (greeted a c w)) = []" for n using cm(2) by (simp add: greeted_def Let_def)
  then have "authenticate a message f0 (greeted a c w) = (Ret EXIT_SUCCESS, admitted a c cm pw ACK_OK w)"
    using greeted_authenticates [OF c msg c_str_no_NUL [OF pw(1)] pw len, of f0] cm(1)
    by (simp add: bindM_def send_message_ideal replied_def admitted_def greeted_def Let_def)
  then show ?thesis by (simp add: thr_enter_authenticates [OF c] bindM_def return_codes)
qed

text \<open>The thread of \<open>a\<close> after \<open>n\<close> acknowledgements, the first one being that of the password, compared
  with the state \<open>w0\<close> it started from.\<close>

definition served :: "addr \<Rightarrow> fd \<Rightarrow> fd \<Rightarrow> byte list \<Rightarrow> byte list \<Rightarrow> job list \<Rightarrow> server \<Rightarrow> nat \<Rightarrow> system \<Rightarrow> bool" where
  "served a cm dt pw pre js w0 n s \<longleftrightarrow> (case s of (w, ts) \<Rightarrow>
     (case n of
        0 \<Rightarrow> ts a = Some Starting \<and> (\<exists>crest drest. greets a cm dt pw pre js crest drest w)
      | Suc k \<Rightarrow> \<exists>l crest drest. ts a = Some (Serving l) \<and> midway a cm dt pre (drop k js) crest drest l w) \<and>
     n \<le> Suc (length js) \<and> tx w cm = tx w0 cm @ acks n \<and>
     (\<forall>p \<in> job_paths pre js. fs w p = stored pre (take (n - 1) js) (fs w0) p))"

lemma served_foreign:
  assumes s: "served a cm dt pw pre js w0 n (w, ts)" and step: "srv_step who (w, ts) (w', ts')" and who: "who \<noteq> Some a"
    and t: "tenants (w, ts)" and ap: "apart a cm dt (w, ts)" "apart a cm dt (w', ts')"
    and P: "\<forall>p \<in> job_paths pre js. fs w' p = fs w p"
  shows "served a cm dt pw pre js w0 n (w', ts')"
proof -
  have "ts a \<noteq> None" using s by (auto simp: served_def split: nat.splits)
  then have u: "untouched a cm dt w w'" "ts' a = ts a" using foreign_step [OF step who t _ ap(1)] by auto
  have ok: "snd_evs w' = []" "permissive w'" using ap(2) by (auto simp: apart_def)
  have "\<exists>crest drest. greets a cm dt pw pre js crest drest w'" if "greets a cm dt pw pre js crest drest w" for crest drest
    using greets_untouched [OF that u(1) ok] .
  moreover have "\<exists>crest drest. midway a cm dt pre (drop k js) crest drest l w'"
    if "midway a cm dt pre (drop k js) crest drest l w" for k l crest drest
    using midway_untouched [OF that u(1) ok] .
  moreover have "tx w' cm = tx w cm" using u(1) by (simp add: untouched_def)
  ultimately show ?thesis using s u(2) P unfolding served_def by (cases n) auto
qed

lemma acks_Suc: "acks (Suc n) = acks n @ enc_message (as_char ACK_OK, [])"
  by (simp add: acks_def replicate_append_same [symmetric])

lemma served_enters:
  assumes s: "served a cm dt pw pre js w0 0 (w, ts)" and step: "srv_step (Some a) (w, ts) (w', ts')"
  shows "served a cm dt pw pre js w0 1 (w', ts')"
proof -
  from s obtain crest drest where g: "ts a = Some Starting" "greets a cm dt pw pre js crest drest w" by (auto simp: served_def)
  from g obtain c where c: "clients w a = Some c" by (auto simp: greets_def connected_def)
  from step obtain l where "w' = admitted a c cm pw ACK_OK w" "ts' = ts(a \<mapsto> Serving l)" "locals_ok l"
    by (cases rule: srv_stepE) (use g(1) thr_enter_greeted [OF g(2) c] in auto)
  moreover from this have "midway a cm dt pre js crest drest l w'" using admitted_midway [OF g(2) c] by simp
  ultimately show ?thesis using s by (auto simp: served_def acks_def)
qed

lemma served_own:
  assumes s: "served a cm dt pw pre js w0 (Suc k) (w, ts)" and step: "srv_step (Some a) (w, ts) (w', ts')" and k: "k < length js"
  shows "served a cm dt pw pre js w0 (Suc (Suc k)) (w', ts')"
proof -
  from s obtain l crest drest where l: "ts a = Some (Serving l)" "midway a cm dt pre (drop k js) crest drest l w"
    by (auto simp: served_def)
  obtain t nd where j: "js ! k = (t, nd)" by fastforce
  have d: "drop k js = (t, nd) # drop (Suc k) js" "take (Suc k) js = take k js @ [(t, nd)]"
    using Cons_nth_drop_Suc [OF k] take_Suc_conv_app_nth [OF k] j by simp_all
  from midway_round [OF l(2) [unfolded d(1)]] obtain l' v where run: "thr_iteration a l w = (Ret (True, l'), v)"
    and m: "midway a cm dt pre (drop (Suc k) js) crest drest l' v" and f: "session_done cm pre [(t, nd)] w v" by blast
  have "w' = v \<and> ts' = ts(a \<mapsto> Serving l')"
    using step by (cases rule: srv_stepE) (use l(1) run in auto)
  moreover have "tx v cm = tx w0 cm @ acks (Suc (Suc k))"
    using f s by (simp add: session_done_def served_def acks_Suc)
  moreover have "fs v p = stored pre (take (Suc k) js) (fs w0) p" if "p \<in> job_paths pre js" for p
  proof -
    have "fs v = (fs w)(pre @ t \<mapsto> nd)" using f by (simp add: session_done_def)
    moreover have "fs w p = stored pre (take k js) (fs w0) p" using s that by (auto simp: served_def)
    ultimately show ?thesis unfolding d(2) by (simp add: stored_def)
  qed
  ultimately show ?thesis using m k by (auto simp: served_def)
qed

lemma served_next:
  assumes "served a cm dt pw pre js w0 n s" and "srv_step (Some a) s s'" and "n \<le> length js"
  shows "served a cm dt pw pre js w0 (Suc n) s'"
  using assms served_enters [of a cm dt pw pre js w0] served_own [of a cm dt pw pre js w0]
  by (cases s; cases s'; cases n) auto

lemma session_isolated_steps:
  assumes run: "(apart_step a cm dt (job_paths pre js))\<^sup>*\<^sup>* (w0, ts0) s" and ap: "apart a cm dt (w0, ts0)"
    and t: "tenants (w0, ts0)" and l: "ts0 a = Some Starting" and m: "greets a cm dt pw pre js crest drest w0"
  shows "tenants s \<and> apart a cm dt s \<and>
    ((\<exists>n. served a cm dt pw pre js w0 n s) \<or> prefix (tx w0 cm @ acks (Suc (length js))) (tx (fst s) cm))"
  using run
proof (induction rule: rtranclp_induct)
  case base
  have "served a cm dt pw pre js w0 0 (w0, ts0)" using l m by (auto simp: served_def acks_def)
  then show ?case using t ap by blast
next
  case (step s s')
  obtain w ts w' ts' where s: "s = (w, ts)" "s' = (w', ts')" by fastforce
  from step(2) s obtain who where who: "srv_step who (w, ts) (w', ts')" "apart a cm dt (w', ts')"
    "who \<noteq> Some a \<Longrightarrow> \<forall>p \<in> job_paths pre js. fs w' p = fs w p" by (auto simp: apart_step_def)
  have t: "tenants (w', ts')" using srv_step_tenants [OF who(1)] step.IH s by simp
  let ?past = "\<lambda>w. prefix (tx w0 cm @ acks (Suc (length js))) (tx w cm)"
  have grows: "prefix (tx w cm) (tx w' cm)" by (rule srv_step_sent [OF who(1)])
  from step.IH s consider (on) n where "served a cm dt pw pre js w0 n (w, ts)" | (past) "?past w" by auto
  then have "(\<exists>n. served a cm dt pw pre js w0 n (w', ts')) \<or> ?past w'"
  proof cases
    case past
    then show ?thesis using grows by (auto intro: prefix_order.trans)
  next
    case on
    consider (foreign) "who \<noteq> Some a" | (own) "who = Some a" "n \<le> length js" | (served_all) "n = Suc (length js)"
      using on by (fastforce simp: served_def)
    then show ?thesis
    proof cases
      case foreign
      then show ?thesis using served_foreign [OF on who(1) foreign _ _ who(2) who(3)] step.IH s by blast
    next
      case own
      then show ?thesis using served_next [OF on] who(1) by blast
    next
      case served_all
      then have "tx w cm = tx w0 cm @ acks (Suc (length js))" using on by (auto simp: served_def)
      then show ?thesis using grows by simp
    qed
  qed
  then show ?case using t who(2) s by simp
qed

text \<open>And it is never stuck: as long as an answer is due, the thread's next round is possible.\<close>

lemma locals_ok_exists: "\<exists>l. locals_ok l"
proof
  show "locals_ok \<lparr>l_attrs = da, l_header = replicate MAX_HEADER_LEN NUL, l_data = replicate BUFFERSIZE NUL\<rparr>" for da
    by (simp add: locals_ok_def)
qed

lemma served_enabled:
  assumes "served a cm dt pw pre js w0 n s" and "n \<le> length js"
  shows "\<exists>s'. srv_step (Some a) s s'"
proof -
  obtain w ts where s: "s = (w, ts)" by fastforce
  show ?thesis
  proof (cases n)
    case 0
    with assms s obtain crest drest where g: "ts a = Some Starting" "greets a cm dt pw pre js crest drest w"
      by (auto simp: served_def)
    then obtain c where c: "clients w a = Some c" by (auto simp: greets_def connected_def)
    obtain m :: "byte list" where m: "length m = MESSAGE_BUFFERSIZE" by (rule that [of "replicate MESSAGE_BUFFERSIZE NUL"]) (rule length_replicate)
    obtain l where l: "locals_ok l" using locals_ok_exists by blast
    have "srv_step (Some a) (w, ts) (admitted a c cm pw ACK_OK w, ts(a \<mapsto> Serving l))"
      by (rule srv_step.enter [where flag = NUL and message = m, OF _ _ m l])
        (rule g(1), rule thr_enter_greeted [OF g(2) c m])
    then show ?thesis using s by blast
  next
    case (Suc k)
    with assms s obtain l crest drest where l: "ts a = Some (Serving l)" "midway a cm dt pre (drop k js) crest drest l w"
      by (auto simp: served_def)
    obtain t nd where "drop k js = (t, nd) # drop (Suc k) js" using assms(2) Suc by (metis Cons_nth_drop_Suc Suc_le_lessD surj_pair)
    with midway_round l(2) obtain l' v where "thr_iteration a l w = (Ret (True, l'), v)" by metis
    then have "srv_step (Some a) (w, ts) (v, ts(a \<mapsto> Serving l'))" using l(1) by (intro srv_step.serve)
    then show ?thesis using s by blast
  qed
qed

end
