(* ===== verification/Server_Runs.thy ===== *)
theory Server_Runs
  imports Server_Isolation Server_Properties Start_Properties
begin

text \<open>
  Properties of the whole server, with its main thread and the threads of its clients at work in
  any order, and runs of a server with two clients that meet their hypotheses.
\<close>

section \<open>Two clients\<close>

text \<open>The client at address 7 has just connected, with the password and the session \<open>jobs0\<close> on its way;
  the one at address 8, with the sockets 5 and 6, is about to have a directory made.\<close>

definition client1 :: client_info where
  "client1 = client0\<lparr>command_socket := 5, data_socket := 6, ci_before := Some 7\<rparr>"

definition jobs1 :: "job list" where
  "jobs1 = [(''b'', Dir)]"

definition two_clients :: server where
  "two_clients = server0\<lparr>rx := (\<lambda>_. [])(3 := [Seg (enc_message (as_char AUTH_REQUEST, ''pw'' @ [NUL])), Seg (session_cmd jobs0)],
        4 := [Seg (session_data jobs0)],
       5 := [Seg (session_cmd jobs1)], 6 := [Seg (session_data jobs1)]),
     clients := [7 \<mapsto> client0\<lparr>ci_next := Some 8\<rparr>, 8 \<mapsto> client1], last_client := Some 8, fresh_addr := 9\<rparr>"

definition two_threads :: "addr \<rightharpoonup> phase" where
  "two_threads = [7 \<mapsto> Starting, 8 \<mapsto> Serving locals0]"

lemma two_clients_simps [simp]:
  "clients two_clients = [7 \<mapsto> client0\<lparr>ci_next := Some 8\<rparr>, 8 \<mapsto> client1]" "fresh_addr two_clients = 9"
  "tx two_clients = (\<lambda>_. [])" "fs two_clients = (\<lambda>_. None)" "snd_evs two_clients = []" "accepts two_clients = []"
  "permissive two_clients" "callers two_clients = {}"
  "prefix_of two_clients = Some ''/srv/''"
  by (simp_all add: two_clients_def server0_def permissive_def callers_def prefix_of_def)

lemma client1_simps [simp]:
  "command_socket client1 = 5" "data_socket client1 = 6" "length (file_path client1) = PATH_MAX"
  by (simp_all add: client1_def)

lemma jobs1_ok [simp]: "list_all (job_ok ''/srv/'') jobs1"
  by (simp add: jobs1_def job_ok_def announced_def valid_small_transfer PATH_MAX_def)

lemma two_clients_ready:
  "greets 7 3 4 ''pw'' ''/srv/'' jobs0 [] [] two_clients" "midway 8 5 6 ''/srv/'' jobs1 [] [] locals0 two_clients"
proof -
  show "greets 7 3 4 ''pw'' ''/srv/'' jobs0 [] [] two_clients"
    using messages.dec_enc [of "(as_char AUTH_REQUEST, ''pw'' @ [NUL])" "session_cmd jobs0"]
    by (simp add: greets_def connected_def) (simp add: two_clients_def server0_def avail_def valid_message_def MESSAGE_BUFFERSIZE_def)
  show "midway 8 5 6 ''/srv/'' jobs1 [] [] locals0 two_clients"
    by (simp add: midway_def connected_def) (simp add: two_clients_def avail_def)
qed

lemma two_clients_tenants: "tenants (two_clients, two_threads)"
  by (simp add: tenants_def two_threads_def)

lemma two_clients_apart: "apart 7 3 4 (two_clients, two_threads)"
  by (simp add: apart_def two_threads_def)

text \<open>The thread of the second one goes first.\<close>

lemma second_goes_first:
  obtains w ts where "srv_step (Some 8) (two_clients, two_threads) (w, ts)" "apart_step 7 3 4 (job_paths ''/srv/'' jobs0) (two_clients, two_threads) (w, ts)"
    "fs w = [''/srv/b'' \<mapsto> Dir]" "tx w 3 = []"
proof -
  from midway_round [OF two_clients_ready(2) [unfolded jobs1_def]] obtain l v where
    run: "thr_iteration 8 locals0 two_clients = (Ret (True, l), v)"
    and m: "midway 8 5 6 ''/srv/'' [] [] [] l v" and d: "session_done 5 ''/srv/'' [(''b'', Dir)] two_clients v" by blast
  have step: "srv_step (Some 8) (two_clients, two_threads) (v, two_threads(8 \<mapsto> Serving l))"
    by (rule srv_step.serve [OF _ run]) (simp add: two_threads_def)
  have f: "fs v = [''/srv/b'' \<mapsto> Dir]" "tx v 3 = []" using d by (simp_all add: session_done_def)
  have c: "clients two_clients 8 = Some client1" by simp
  have e: "elsewhere 8 5 6 two_clients v"
    using keepsD [OF keeps_elsewhere_iteration elsewhere_refl [of two_clients 8, OF c] run] by simp
  have ap: "apart 7 3 4 (v, two_threads(8 \<mapsto> Serving l))"
  proof -
    have "callers v = {}" using e by (simp add: elsewhere_def callers_def)
    moreover have "snd_evs v = []" "permissive v" using m by (auto simp: midway_def connected_def)
    moreover have "command_socket k = 5 \<and> data_socket k = 6" if "clients v 8 = Some k" for k
      using e that by (simp add: elsewhere_def)
    ultimately show ?thesis by (auto simp: apart_def two_threads_def split: if_splits)
  qed
  have "apart_step 7 3 4 (job_paths ''/srv/'' jobs0) (two_clients, two_threads) (v, two_threads(8 \<mapsto> Serving l))"
    unfolding apart_step_def
    by (intro conjI ap exI [of _ "Some 8"] step impI) (simp add: f job_paths_def jobs0_def)
  then show ?thesis using that step f by blast
qed

section \<open>Sessions side by side\<close>

text \<open>C4: the sessions of different daemons do not disturb each other.  However the rounds of all
  threads follow each other, and whatever the other peers send, a daemon that presents the password
  has at any moment got some of its answers, \<open>ACK_OK\<close> each: that to the password, then one for
  every transfer in its order, whose files hold exactly the bytes sent; and as long as an answer is
  due its thread can go on.  This relies on the operating system for descriptors that are given out
  once at a time and calls that do not fail, and on the other daemons for writing to other paths.\<close>

theorem sessions_isolated:
  assumes "(apart_step a cm dt (job_paths pre js))\<^sup>*\<^sup>* (w0, ts0) (w, ts)"
    and "apart a cm dt (w0, ts0)" and "tenants (w0, ts0)"
    and "ts0 a = Some Starting" and "greets a cm dt pw pre js crest drest w0"
  shows "(\<exists>n \<le> Suc (length js). tx w cm = tx w0 cm @ acks n \<and>
       (\<forall>p \<in> job_paths pre js. fs w p = stored pre (take (n - 1) js) (fs w0) p) \<and>
       (n \<le> length js \<longrightarrow> (\<exists>s. srv_step (Some a) (w, ts) s))) \<or>
     prefix (tx w0 cm @ acks (Suc (length js))) (tx w cm)"
proof -
  from session_isolated_steps [OF assms] consider (on) n where "served a cm dt pw pre js w0 n (w, ts)"
    | (past) "prefix (tx w0 cm @ acks (Suc (length js))) (tx w cm)" by auto
  then show ?thesis
  proof cases
    case on
    then have "n \<le> Suc (length js)" "tx w cm = tx w0 cm @ acks n"
      "\<forall>p \<in> job_paths pre js. fs w p = stored pre (take (n - 1) js) (fs w0) p" by (auto simp: served_def)
    then show ?thesis using served_enabled [OF on] by blast
  qed simp
qed

theorem sessions_isolated_witness:
  "\<exists>w ts. srv_step (Some 8) (two_clients, two_threads) (w, ts) \<and> fs w = [''/srv/b'' \<mapsto> Dir] \<and>
    tx w 3 = [] \<and> (\<exists>s. srv_step (Some 7) (w, ts) s)"
proof -
  obtain w ts where step: "srv_step (Some 8) (two_clients, two_threads) (w, ts)" "fs w = [''/srv/b'' \<mapsto> Dir]" "tx w 3 = []"
    and "apart_step 7 3 4 (job_paths ''/srv/'' jobs0) (two_clients, two_threads) (w, ts)"
    using second_goes_first by blast
  then have run: "(apart_step 7 3 4 (job_paths ''/srv/'' jobs0))\<^sup>*\<^sup>* (two_clients, two_threads) (w, ts)" by blast
  have l: "two_threads 7 = Some Starting" by (simp add: two_threads_def)
  have "acks (Suc n) \<noteq> []" for n by (simp add: acks_def enc_message_def)
  then have k: "k = 0" if "tx w 3 = tx two_clients 3 @ acks k" for k
    using step(3) that by (cases k) simp_all
  have "\<not> prefix (tx two_clients 3 @ acks (Suc (length jobs0))) (tx w 3)"
    using step(3) by (simp add: acks_def enc_message_def)
  with sessions_isolated [OF run two_clients_apart two_clients_tenants l two_clients_ready(1)] k
  have "\<exists>s. srv_step (Some 7) (w, ts) s" by auto
  then show ?thesis using step by blast
qed

section \<open>Every run\<close>

text \<open>The states of the server from its start on.\<close>

definition srv_reaches :: "srv_starting \<Rightarrow> nat \<Rightarrow> byte list \<Rightarrow> byte list \<Rightarrow> byte list \<Rightarrow> server \<Rightarrow> system \<Rightarrow> bool" where
  "srv_reaches st argc argv2 argv3 argv4 w0 s \<longleftrightarrow>
     (\<exists>sock w. srv_start st argc argv2 argv3 argv4 w0 = (Ret sock, w) \<and> srv_run (w, Map.empty) s)"

text \<open>C5: started with a chroot directory, the server leaves every path alone that does not start with
  the directory (its first 255 bytes) and a slash, or that contains \<^verbatim>\<open>../\<close>, whatever the peers
  send, whatever the operating system answers and however the threads take turns; also in a round
  that waits, kills the process or has undefined behaviour, and in the signal handler.\<close>

theorem server_writes_inside:
  assumes "srv_reaches st 5 argv2 argv3 argv4 w0 (w, ts)" and "w' = w \<or> srv_stuck (w, ts) w'"
    and "fresh_server w0" and "c_str argv4 = Some dir" and "MESSAGE_BUFFERSIZE \<le> length argv4"
  shows "fs w' p = fs w0 p \<or> ((\<exists>t. p = take MESSAGE_BUFFERSIZE dir @ ''/'' @ t) \<and> \<not> strstr p ''../'')"
proof -
  let ?pre = "take MESSAGE_BUFFERSIZE dir @ ''/''"
  from assms(1) obtain sock v where v: "srv_start st 5 argv2 argv3 argv4 w0 = (Ret sock, v)" "srv_run (v, Map.empty) (w, ts)"
    by (auto simp: srv_reaches_def)
  have "NUL \<notin> set dir" using c_str_no_NUL [OF assms(4)] .
  then have pre: "NUL \<notin> set ?pre" "length ?pre < PATH_MAX"
    by (auto dest: in_set_takeD simp: MESSAGE_BUFFERSIZE_def PATH_MAX_def)
  have "guard ?pre (fs w0) v"
    using srv_start_prefix [OF v(1) assms(3-5)] srv_start_ret [OF v(1)] assms(3) by (simp add: guard_def fresh_server_def)
  then have g: "guard ?pre (fs w0) w" using srv_run_guard [OF v(2) pre] by simp
  then have "guard ?pre (fs w0) w'" using srv_stuck_guard [OF _ pre] assms(2) by auto
  then show ?thesis by (auto simp: guard_def inside_def)
qed

text \<open>A server that starts, and a daemon that connects.\<close>

definition called_server :: server where
  "called_server = arriving\<lparr>clients := Map.empty, last_client := None, dest_chroot := replicate PATH_MAX NUL, is_dest_chroot := False\<rparr>"

definition srv_starting0 :: srv_starting where
  "srv_starting0 = \<lparr>ss_log_opens = True, ss_fork = 0, ss_socket = 9, ss_binds = True, ss_listens = True\<rparr>"

definition srv_args :: "byte list \<Rightarrow> byte list" where
  "srv_args t = t @ replicate 300 NUL"

lemma srv_args_simps [simp]: "NUL \<notin> set t \<Longrightarrow> c_str (srv_args t) = Some t" "MESSAGE_BUFFERSIZE \<le> length (srv_args t)"
  by (simp_all add: srv_args_def MESSAGE_BUFFERSIZE_def c_str_append numeral_eq_Suc)

lemma called_server_fresh: "fresh_server called_server"
  by (simp add: fresh_server_def called_server_def arriving_def server0_def)

lemma called_server_reaches:
  obtains w where "srv_reaches srv_starting0 5 (srv_args ''-'') (srv_args ''pw'') (srv_args ''/srv'') called_server (w, [8 \<mapsto> Starting])"
proof -
  have "arrivals called_server arriving_halves"
    using arriving_accepting(1) by (simp add: accepting_def arrivals_def announces_def [abs_def] called_server_def avail_def)
  then obtain v where v: "srv_start srv_starting0 5 (srv_args ''-'') (srv_args ''pw'') (srv_args ''/srv'') called_server = (Ret 9, v)"
    "accepting v [] arriving_halves" "client_list (clients v) (last_client v) []"
    using srv_start_run [OF called_server_fresh, of "srv_args ''pw''" "srv_args ''/srv''" "''/srv''" "srv_args ''-''" "''-''" srv_starting0]
    by (auto simp: srv_starting0_def)
  have f: "fresh_addr v = 8"
    using v(1) by (auto simp: srv_start_def srv_daemonize_def copy_arguments_def srv_server_start_def bindM_eq_Ret
        orUb_def srv_starting0_def called_server_def arriving_def server0_def split: option.splits if_splits)
  have "halves v [] = []" by (simp add: halves_def)
  then obtain w where "srv_main_round client0 el0 NUL message0 9 0 v = (Ret 8, w)"
    using srv_main_round_spec [OF v(2,3), of message0 "''tok''" 5 "''peer''" "''tok''" 8 "''peer''" "[(''other'', 6, ''second'')]" "[]" client0 el0 NUL 9 0]
    by (auto simp: arriving_pair f)
  then have "srv_step None (v, Map.empty) (w, [8 \<mapsto> Starting])" by (rule srv_step.accept) simp_all
  then have "srv_run (v, Map.empty) (w, [8 \<mapsto> Starting])" unfolding srv_run_def by blast
  then show ?thesis using that v(1) by (auto simp: srv_reaches_def)
qed

theorem server_writes_inside_witness:
  "\<exists>w ts. srv_reaches srv_starting0 5 (srv_args ''-'') (srv_args ''pw'') (srv_args ''/srv'') called_server (w, ts) \<and>
    ts 8 = Some Starting \<and> fs w ''/etc/passwd'' = None"
proof -
  obtain w where r: "srv_reaches srv_starting0 5 (srv_args ''-'') (srv_args ''pw'') (srv_args ''/srv'') called_server (w, [8 \<mapsto> Starting])"
    by (rule called_server_reaches)
  have "fs w ''/etc/passwd'' = fs called_server ''/etc/passwd''"
    using server_writes_inside [OF r _ called_server_fresh _ srv_args_simps(2), of w "''/srv''" "''/etc/passwd''"]
    by (auto simp: MESSAGE_BUFFERSIZE_def)
  then have "fs w ''/etc/passwd'' = None" by (simp add: called_server_def arriving_def server0_def)
  with r show ?thesis by fastforce
qed





text \<open>C8: where the message of a daemon arrives, its thread is let in with the password only.\<close>

theorem let_in_with_password:
  assumes "srv_step who (w, ts) (w', ts')" and "ts a = Some Starting" and "ts' a = Some (Serving l)"
    and "clients w a = Some c" and "dec_message (avail (command_socket c) w) = Some ((flag, t @ [NUL]), rest)"
    and "NUL \<notin> set t" and "c_str (password w) = Some pw" and "length pw < MESSAGE_BUFFERSIZE"
  shows "t = pw"
proof -
  from assms(1) obtain message f0 where run: "thr_enter a message f0 w = (Ret True, w')" "length message = MESSAGE_BUFFERSIZE"
    by (cases rule: srv_stepE) (use assms(2,3) in \<open>auto split: if_splits\<close>)
  have "\<exists>u. authenticate a message f0 (greeted a c w) = (Ret EXIT_SUCCESS, u)"
    using run(1) unfolding thr_enter_authenticates [OF assms(4)] by (auto simp: bindM_eq_Ret split: if_splits)
  then show ?thesis
    unfolding greeted_authenticates [OF assms(4-8) run(2)] by (auto simp: bindM_eq_Ret return_codes split: if_splits)
qed

theorem let_in_with_password_witness:
  "\<exists>w'. srv_step (Some 7) (session0 ''pw'', [7 \<mapsto> Starting]) (w', [7 \<mapsto> Serving locals0]) \<and> c_str (password (session0 ''pw'')) = Some ''pw''"
proof -
  let ?w = "session0 ''pw''"
  have c: "clients ?w 7 = Some client0" by (simp add: session0_def)
  have msg: "dec_message (avail (command_socket client0) ?w) = Some ((as_char AUTH_REQUEST, ''pw'' @ [NUL]), session_cmd jobs0)"
    using messages.dec_enc [of "(as_char AUTH_REQUEST, ''pw'' @ [NUL])" "session_cmd jobs0"]
    by (simp add: session0_def valid_message_def)
  have pw: "c_str (password ?w) = Some ''pw''" by (simp add: session0_def)
  have idle: "snd_evs (consume s n (greeted 7 client0 ?w)) = []" for s n by (simp add: greeted_def Let_def session0_def)
  obtain w' where "thr_enter 7 message0 NUL ?w = (Ret True, w')"
    using greeted_authenticates [OF c msg _ pw, of message0 NUL] idle
    by (simp add: thr_enter_authenticates [OF c] bindM_def send_message_ideal MESSAGE_BUFFERSIZE_def return_codes)
  then have step: "srv_step (Some 7) (?w, [7 \<mapsto> Starting]) (w', [7 \<mapsto> Starting, 7 \<mapsto> Serving locals0])"
    by (rule srv_step.enter [rotated]) simp_all
  from let_in_with_password [OF step _ _ c msg _ pw] step pw show ?thesis by auto
qed

end
