(* ===== verification/Usage.thy ===== *)
theory Usage
  imports Client Server_State
begin

text \<open>
  The texts the programs print for their user: the usage messages of \<^verbatim>\<open>src/client.c\<close>,
  \<^verbatim>\<open>src/client_daemon.c\<close> and \<^verbatim>\<open>src/server.c\<close> (\<open>print_help\<close>), the client's check of the number of
  its arguments, and the debug printer of \<^verbatim>\<open>src/libs/libllncp.c\<close>.  For the two programs whose
  standard output is not part of their state the text itself is defined.
\<close>

definition text_line :: "byte list \<Rightarrow> byte list" where
  "text_line t = t @ [CHR 0x0A]"

section \<open>The client\<close>

definition cli_print_help :: "byte list \<Rightarrow> unit cli" where
  "cli_print_help program_name =
     bindM (printf (text_line ''Usage:'')) (\<lambda>_.
     bindM (orUb (c_str program_name)) (\<lambda>name.
     bindM (printf (text_line (text_line (name @ '' server_address source destination'')))) (\<lambda>_.
     bindM (printf (text_line (quoted ''server_address'' @ '' is server with running LLCP server''))) (\<lambda>_.
     bindM (printf (text_line (quoted ''source'' @ '' is absolute path to file you want to send''))) (\<lambda>_.
       printf (text_line (quoted ''destination'' @ '' is absolute path to the remote location'')))))))"

text \<open>\<open>main\<close> from its first check on.\<close>

definition cli_program ::
  "nat \<Rightarrow> byte list \<Rightarrow> byte list \<Rightarrow> byte list \<Rightarrow> byte list \<Rightarrow> byte list \<Rightarrow> byte \<Rightarrow> byte list \<Rightarrow> unit cli" where
  "cli_program argc argv0 argv1 argv2 argv3 file_attrs_buffer message_flag message =
     (if argc \<noteq> 4 then bindM (cli_print_help argv0) (\<lambda>_. failM (Exit EXIT_SUCCESS))
      else cli_main argv1 argv2 argv3 file_attrs_buffer message_flag message)"

text \<open>With another number of arguments nothing happens but the usage text, and the status is that of
  success.\<close>

lemma cli_program_usage:
  assumes "argc \<noteq> 4" and "c_str argv0 = Some name"
  shows "\<exists>t. cli_program argc argv0 argv1 argv2 argv3 buf flag message w = (Exit EXIT_SUCCESS, w\<lparr>printed := printed w @ t\<rparr>)"
  using assms by (simp add: cli_program_def cli_print_help_def printf_def bindM_def) (rule exI, rule refl)

section \<open>The daemon and the server\<close>

definition dmn_print_help :: "byte list \<Rightarrow> byte list" where
  "dmn_print_help program_name =
     text_line ''Usage:'' @
     text_line (text_line (program_name @ '' server_address server_port logfile [password]'')) @
     text_line (quoted ''server_address'' @ '' is the address of the server where you can send your files'') @
     text_line (quoted ''server_port'' @ '' is an open port on your server with listening llncp-server'') @
     text_line (quoted ''logfile'' @ '' is a file used for log output'') @
     text_line (quoted ''password'' @ '' is used for server-client authentication. Password can be written as the 3rd argument; If not provided, the program will ask the password after its execution'')"

definition srv_print_help :: "byte list \<Rightarrow> byte list" where
  "srv_print_help program_name =
     text_line ''Usage:'' @
     text_line (text_line (program_name @ '' port logfile password [chroot_dir]'')) @
     text_line (quoted ''port'' @ '' is port number (strongly recommended higher than 1024). The server will listen on this port'') @
     text_line (quoted ''logfile'' @ '' is a file used for log output. When '' @ quoted ''logfile'' @ '' is '' @ quoted ''-'' @ '', logfile will be the stderr'') @
     text_line (quoted ''password'' @ '' is used for server-client authentication'') @
     text_line (quoted ''chroot_dir'' @ '' is optional. All incomming files can be chrooted in this chroot directory.'')"

section \<open>The debug printer\<close>

text \<open>\<^verbatim>\<open>char\<close> is signed.\<close>

definition char_value :: "byte \<Rightarrow> int" where
  "char_value c = (if nat_of c < 128 then int (nat_of c) else int (nat_of c) - 256)"

definition print_buffer :: "byte list \<Rightarrow> int \<Rightarrow> int \<Rightarrow> byte list option" where
  "print_buffer buffer byte_count type = do {
     bs \<leftarrow> buf_read buffer 0 (nat byte_count);
     Some (concat (map (\<lambda>c. (if type = 1 then [c] else sprintf_ld (char_value c)) @ ''|'') bs) @ [CHR 0x0A])
   }"

text \<open>The number printed determines the byte.\<close>

lemma char_value_inject: "char_value c = char_value d \<longleftrightarrow> c = d"
proof
  assume "char_value c = char_value d"
  then have "nat_of c = nat_of d"
    using nat_of_less [of c] nat_of_less [of d] by (simp only: char_value_def split: if_splits)
  then show "c = d" by (metis byte_of_nat_of)
qed simp

end
