(* ===== verification/Spec2Isabelle.thy ===== *)
theory Spec2Isabelle
  imports Server_Properties Daemon_Properties Format_Properties Start_Properties System_Example Invariant_Properties Library_Properties Server_Runs Usage
begin

text \<open>
  A verification library of llncp, which copies files between hosts.  Three C programs work
  together: \<^verbatim>\<open>src/client.c\<close> hands a request (a source and a destination path) over a local
  socket to \<^verbatim>\<open>src/client_daemon.c\<close>, which holds two TCP connections to
  \<^verbatim>\<open>src/server.c\<close>, the command and the data connection; the daemon announces the file or
  directory on the first, sends path and bytes on the second, waits for the acknowledgement and
  passes it on.  The server has one thread per daemon, which stores what it is sent under a chroot
  directory.  Daemon and server are tied by a token, which pairs the two connections, and by a
  password.

  \<^bold>\<open>How C is modelled.\<close>  A piece of code is a function from a state to an outcome and a state
  (\<open>Prelude_LLNCP\<close>): it returns, throws (\<^verbatim>\<open>longjmp\<close>), ends its thread or process, is killed
  by a signal, waits for ever, or runs into undefined behaviour (\<open>Ub\<close>: an access outside an array,
  through a null or a dangling pointer, or a string without its NUL).  Arrays are lists of bytes
  whose length is the declared size; every read and write is checked against it.
  \<^verbatim>\<open>unsigned long long\<close> is \<open>64 word\<close> and \<^verbatim>\<open>unsigned char\<close> \<open>8 word\<close>, with C's wrap-around;
  a signed number is an \<open>int\<close>.  Linked structures live on explicit heaps.  Uninitialised locals
  are arguments.  LP64 is assumed.

  \<^bold>\<open>The operating system\<close> (\<open>Kernel\<close>) is part of the state: for every descriptor the segments, ends
  and errors that \<^verbatim>\<open>recv\<close> will meet; scripts of results for \<^verbatim>\<open>send\<close>, \<^verbatim>\<open>select\<close>,
  \<^verbatim>\<open>socket\<close>, \<^verbatim>\<open>connect\<close>, \<^verbatim>\<open>fopen\<close> and so on; and the record \<open>tx\<close> of what was sent.
  A call without a script entry succeeds, or waits where only others can end the wait.  The loops
  of the code end because each round uses up an event, which is how their termination is proved;
  there is no fuel, so that a theorem that code returns says just that.  The scripts are arbitrary:
  what holds for all of them holds for every network and every operating system.

  \<^bold>\<open>The theories.\<close>

  \<^item> \<open>Codec\<close> (locale \<open>prefix_codec\<close>), \<open>Decimal\<close> (\<^verbatim>\<open>sprintf\<close>, \<^verbatim>\<open>strtol\<close>,
    \<^verbatim>\<open>strtoull\<close>), \<open>Chunks\<close> (locale \<open>chunked_loop\<close>: the loops that move data block by block,
    interpreted for sending, writing and discarding), \<open>Calm\<close> (what is sent stays sent, and a
    program that ignores SIGPIPE is not killed): shared tools.
  \<^item> \<open>Libllncp\<close>: \<^verbatim>\<open>src/libs/libllncp.c\<close>, every routine but a debug printer.
    \<open>Library_Properties\<close>: exact receiving, ordered sending, the message format, and the routines'
    errors.
  \<^item> \<open>Request_Header\<close>, \<open>Daemon_Request\<close>, \<open>Transfer_Header\<close>: the two headers, at both ends.
    \<open>Format_Properties\<close>: round trips, when a header fits its array, the client's run, the token's
    specification, the list macros.
  \<^item> \<open>Utlist\<close>: \<open>DL_APPEND\<close>, \<open>DL_DELETE\<close> and \<open>LL_SEARCH\<close> of \<^verbatim>\<open>src/libs/utlist.h\<close> on a heap,
    with the locale \<open>waiting_store\<close> that they implement.  \<open>Client_List\<close>,
    \<open>Client_Steps\<close>: the list of running clients as a step relation with its invariant.
  \<^item> \<open>Server_State\<close>, \<open>Server_Thread\<close>: globals, wrappers and thread of \<^verbatim>\<open>src/server.c\<close>;
    \<open>Server_Accept\<close>: \<open>accept_connection\<close>, the loop of \<open>main\<close> and the signal handler;
    \<open>Server_Start\<close>: \<open>main\<close> before its loop.  \<open>Server_Serves\<close>, \<open>Server_Session\<close>: what a thread
    does with one transfer and with all of a session; \<open>Server_Confined\<close>: it stays inside the chroot
    directory; \<open>Server_Calm\<close>.  \<open>Server_Properties\<close>.
  \<^item> \<open>Server_System\<close>: the whole server as a step relation, the main thread and the threads of the
    clients taking turns round by round with an arbitrary environment.  \<open>Server_Frame\<close>: what a
    round of one thread leaves alone.  \<open>Server_Always\<close>: the invariants of all runs.
    \<open>Server_Isolation\<close>: the session of one daemon among the steps of all others.  \<open>Server_Runs\<close>:
    the properties of every run, from the start of the program on.
  \<^item> \<open>Daemon_State\<close>, \<open>Daemon_Transfer\<close>, \<open>Daemon_Main\<close>, \<open>Daemon_Start\<close>: \<^verbatim>\<open>src/client_daemon.c\<close>
    with the macros of \<^verbatim>\<open>src/libs/try_throw_catch.h\<close>, from the password to the loop of requests
    (\<open>dmn_main\<close>).  \<open>Daemon_Serves\<close>: a round on a working network; \<open>Daemon_Counts\<close>: the count of
    the bytes sent in vain; \<open>Daemon_Restart\<close>: losing and regaining the server; \<open>Daemon_Calm\<close>;
    \<open>Daemon_Invariant\<close>: sizes of the arrays, open connections.  \<open>Daemon_Properties\<close>,
    \<open>Invariant_Properties\<close>, \<open>Start_Properties\<close>.
  \<^item> \<open>Client\<close>: \<^verbatim>\<open>src/client.c\<close>.  \<open>Usage\<close>: the usage texts of the three programs and
    \<open>print_buffer\<close>.
  \<^item> \<open>System\<close>, \<open>Session\<close>: the programs together; each finds on its connections the bytes the other
    sent.  Here: one request through all three programs, stored or refused, and a whole session of
    daemon and server from the daemon's start.
  \<^item> The \<open>_Example\<close> theories hold concrete states on which the hypotheses of the properties hold.

  \<^bold>\<open>What is not modelled.\<close>  What \<^verbatim>\<open>daemonize\<close> does to the terminal, the working directory and
  the standard streams; the registration of signal handlers (their bodies are modelled), port
  numbers and the resolution of names beyond its success; the text of dates; the macros of
  \<^verbatim>\<open>utlist.h\<close>, a vendored file, that the program never expands.  Threads of the server interleave
  round by round: a round is one transfer, one login, or one turn of the loop of \<open>main\<close>.  A round
  of a client's thread touches the sockets and the structure of its own client only, but for the
  links of the list of clients, the log and the files (\<open>Server_Frame\<close>); the list and the log, which
  the threads share without a lock, are taken to change in one piece, so that races inside one
  change are outside the model.
\<close>

section \<open>A request from end to end\<close>

text \<open>C2: the client asks, the daemon sends, the server stores: when the three programs are connected,
  every byte one sends being a byte the other finds, the file or directory ends up under the chroot
  directory exactly as it is at its source, the server goes on, the daemon's round ends normally and
  the client exits with status 0.  The server may first have to skip what is left of an earlier,
  refused transfer.\<close>

theorem request_stored:
  assumes "calls sock argv1 argv2 argv3 s d c" and "length buf = MAX_FILE_ATTRS_LEN" and "length m0 = MESSAGE_BUFFERSIZE"
    and "idle_for cm dt cl s d nd w" and "listening w"
    and "connected client scm sdt v" and "locals_ok l" and "permissive v" and "target d full v" and "\<not> strstr full ''../''"
    and "cli_main argv1 argv2 argv3 buf f0 m0 c = (rc, c')" and "dmn_round a st0 w = (rd, w')"
    and "thr_iteration client l v = (rs, v')"
    and "connected_system sock c c' cl cm dt w w' scm sdt junk v v'"
  shows "fs v' = (fs v)(full \<mapsto> nd) \<and> (\<exists>l'. rs = Ret (True, l')) \<and> rd = Ret () \<and> rc = Exit EXIT_SUCCESS"
  using request_served [OF assms] by blast

theorem request_stored_witness:
  "fs (snd (server_run [])) = [''/srv/b'' \<mapsto> File ''hi''] \<and> fst (daemon_run acknowledged) = Ret () \<and>
    fst (caller_run acknowledged) = Exit EXIT_SUCCESS"
proof -
  have "fs (snd (server_run [])) = (fs (storing []))(''/srv/b'' \<mapsto> File ''hi'') \<and>
      (\<exists>l'. fst (server_run []) = Ret (True, l')) \<and> fst (daemon_run acknowledged) = Ret () \<and>
      fst (caller_run acknowledged) = Exit EXIT_SUCCESS"
    by (rule request_stored [where client = 7 and l = locals0 and ?f0.0 = NUL and a = "[]" and ?st0.0 = "(False, 0)" and
          ?m0.0 = message0 and buf = "replicate MAX_FILE_ATTRS_LEN NUL", OF caller_calls _ _ daemon_idle _ _ _ _ _ _ _ _ system_ok])
      (simp_all add: caller_run_def daemon_run_def server_run_def)
  then show ?thesis by simp
qed

text \<open>C3: when the server's operating system refuses to create the file or directory, nothing is
  stored and all three programs go on: the client prints the server's reason and exits with
  status 1, and the daemon will tell the server to skip exactly the bytes it sent in vain.\<close>

theorem request_turned_down:
  assumes "calls sock argv1 argv2 argv3 s d c" and "length buf = MAX_FILE_ATTRS_LEN" and "length m0 = MESSAGE_BUFFERSIZE"
    and "idle_for cm dt cl s d nd w" and "listening w"
    and "connected client scm sdt v" and "locals_ok l" and "refuses (node_command nd) e v v1" and "target d full v"
    and "\<not> strstr full ''../''"
    and "errtext v e \<noteq> []" and "NUL \<notin> set (errtext v e)" and "length (errtext v e) \<le> 252"
    and "cli_main argv1 argv2 argv3 buf f0 m0 c = (rc, c')" and "dmn_round a st0 w = (rd, w')"
    and "thr_iteration client l v = (rs, v')"
    and "connected_system sock c c' cl cm dt w w' scm sdt junk v v'"
  shows "fs v' = fs v \<and> (\<exists>l'. rs = Ret (True, l')) \<and> rd = Ret () \<and> rc = Exit EXIT_FAILURE \<and>
    printed c' = printed c @ errtext v e @ [CHR 0x0A] \<and> discard (d_attrs w') = of_nat (length (node_bytes nd))"
  using request_refused [OF assms] by blast

theorem request_turned_down_witness:
  "fs (snd (server_run [Some 28])) = Map.empty \<and> fst (caller_run refused) = Exit EXIT_FAILURE \<and>
    printed (snd (caller_run refused)) = ''no space'' @ [CHR 0x0A] \<and> discard (d_attrs (snd (daemon_run refused))) = 2"
proof -
  have "fs (snd (server_run [Some 28])) = fs (storing [Some 28]) \<and> (\<exists>l'. fst (server_run [Some 28]) = Ret (True, l')) \<and>
      fst (daemon_run refused) = Ret () \<and> fst (caller_run refused) = Exit EXIT_FAILURE \<and>
      printed (snd (caller_run refused)) = printed (caller refused) @ errtext (storing [Some 28]) 28 @ [CHR 0x0A] \<and>
      discard (d_attrs (snd (daemon_run refused))) = of_nat (length (node_bytes (File ''hi'')))"
    by (rule request_turned_down [where client = 7 and l = locals0 and full = "''/srv/b''" and ?f0.0 = NUL and a = "[]" and
          ?st0.0 = "(False, 0)" and ?m0.0 = message0 and buf = "replicate MAX_FILE_ATTRS_LEN NUL",
          OF caller_calls _ _ daemon_idle _ _ storing_refuses _ _ _ _ _ _ _ _ system_refused])
      (simp_all add: caller_run_def daemon_run_def server_run_def)
  then show ?thesis by (simp add: caller_def)
qed

section \<open>A session from its start\<close>

text \<open>C1: a daemon that is started with the server's password and then finds the requests of any
  number of clients, and the server's thread for it, each finding on its connections what the other
  sends there, together store every file and directory under the chroot directory exactly as it is
  at its source; every client gets its acknowledgement, the daemon is ready for more, and the
  thread waits for the next header.\<close>

theorem session_stored:
  assumes "daemon_ready st argv1 pw t s s' ls m rs w" and "thread_ready client cm dt pw pre (map job_of rs) l v"
    and "dialogue s s' t w w' cm dt v v'" and "length message = MESSAGE_BUFFERSIZE" and "length sts = length rs"
    and "dmn_main st 4 argv1 argv4 sts w = (x, w')" and "thr_func client message f0 l v = (y, v')"
  shows "x = Ret () \<and> y = Block \<and> fs v' = stored pre (map job_of rs) (fs v) \<and>
    (\<forall>cl s d nd. (cl, s, d, nd) \<in> set rs \<longrightarrow> tx w' cl = tx w cl @ enc_message (as_char ACK_OK, text_body m))"
proof -
  have "tx w' cl = tx w cl @ enc_message (as_char ACK_OK, text_body m)" if "(cl, s, d, nd) \<in> set rs" for cl s d nd
    using session_completed(4) [OF assms] that by force
  then show ?thesis using session_completed(1-3) [OF assms] by blast
qed

theorem session_stored_witness:
  "fst calling_run = Ret () \<and> fst called_run = Block \<and>
    fs (snd called_run) = [''/srv/a'' \<mapsto> File ''hi'', ''/srv/d'' \<mapsto> Dir] \<and> tx (snd calling_run) 7 = ack"
proof -
  have "fst calling_run = Ret () \<and> fst called_run = Block \<and>
      fs (snd called_run) = stored ''/srv/'' (map job_of requests0) (fs called) \<and>
      (\<forall>cl s d nd. (cl, s, d, nd) \<in> set requests0 \<longrightarrow>
        tx (snd calling_run) cl = tx calling cl @ enc_message (as_char ACK_OK, text_body []))"
    by (rule session_stored [OF calling_ready called_ready calling_called, where sts = "[(False, 0), (False, 0)]" and
          message = message0 and ?f0.0 = NUL and ?argv4.0 = "[]"])
      (simp_all add: calling_run_def called_run_def requests0_def)
  moreover have "(7, ''/d'', ''d'', Dir) \<in> set requests0" by (simp add: requests0_def)
  ultimately show ?thesis by (auto simp: requests0_jobs stored_jobs0 text_body_def)
qed

end
